(* ===== verification/Prelude.thy ===== *)
theory Prelude
  imports Complex_Main "HOL-Library.Word" "HOL-Library.List_Lexorder" "HOL-Library.Monad_Syntax"
    "HOL-Library.Sublist" "HOL-Library.Code_Target_Numeral"
begin

text \<open>
  Shared vocabulary of the development: bytes and byte strings, Python's fixed-width
  integer conversions (\<^verbatim>\<open>int.to_bytes\<close>, \<^verbatim>\<open>int.from_bytes\<close>), the byte order in which the
  key-value store keeps its keys, and the list and option lemmas every component uses.

  A byte is an 8-bit word and a \<^verbatim>\<open>bytes\<close> object a list of bytes, ordered lexicographically as
  Python and LMDB order them.  A Python \<^verbatim>\<open>str\<close> is the list of its code points.  A function of the
  program that may raise returns an option (where its callers do not tell the exceptions apart)
  or an element of \<^typ>\<open>'e + 'a\<close> (where they do).
\<close>

type_synonym byte = "8 word"
type_synonym bytes = "byte list"
type_synonym pystr = "nat list"

named_theorems codec_simps "decoding an encoded value gives the value back"
named_theorems kv_simps "lookups after an update of the ordered store"
named_theorems inv_intros "operations keep the well-formedness invariants"

section \<open>Options and lists\<close>

abbreviation guard_opt :: "bool \<Rightarrow> unit option" where
  "guard_opt b \<equiv> (if b then Some () else None)"

fun mapM_opt :: "('a \<Rightarrow> 'b option) \<Rightarrow> 'a list \<Rightarrow> 'b list option" where
  "mapM_opt f [] = Some []"
| "mapM_opt f (x # xs) = do { y \<leftarrow> f x; ys \<leftarrow> mapM_opt f xs; Some (y # ys) }"

fun foldM_opt :: "('a \<Rightarrow> 's \<Rightarrow> 's option) \<Rightarrow> 'a list \<Rightarrow> 's \<Rightarrow> 's option" where
  "foldM_opt f [] s = Some s"
| "foldM_opt f (x # xs) s = do { t \<leftarrow> f x s; foldM_opt f xs t }"

lemma bind_SomeE:
  assumes "Option.bind m f = Some y"
  obtains x where "m = Some x" and "f x = Some y"
  using assms by (cases m) auto

lemma bind_eq_None [simp]:
  "Option.bind m f = None \<longleftrightarrow> m = None \<or> (\<exists>x. m = Some x \<and> f x = None)"
  by (cases m) auto

lemma mapM_opt_append:
  "mapM_opt f (xs @ ys) = do { a \<leftarrow> mapM_opt f xs; b \<leftarrow> mapM_opt f ys; Some (a @ b) }"
  by (induction xs) (auto split: Option.bind_splits)

lemma mapM_opt_length: "mapM_opt f xs = Some ys \<Longrightarrow> length ys = length xs"
  by (induction xs arbitrary: ys) (auto elim!: bind_SomeE)

lemma mapM_opt_eq_map:
  "(\<And>x. x \<in> set xs \<Longrightarrow> f x = Some (g x)) \<Longrightarrow> mapM_opt f xs = Some (map g xs)"
  by (induction xs) auto

lemma mapM_opt_cong:
  "(\<And>x. x \<in> set xs \<Longrightarrow> f x = g x) \<Longrightarrow> mapM_opt f xs = mapM_opt g xs"
  by (induction xs) auto

lemma mapM_opt_Some_iff:
  "(\<exists>ys. mapM_opt f xs = Some ys) \<longleftrightarrow> (\<forall>x\<in>set xs. \<exists>y. f x = Some y)"
  by (induction xs) (fastforce elim!: bind_SomeE)+

lemma foldM_opt_append:
  "foldM_opt f (xs @ ys) s = Option.bind (foldM_opt f xs s) (foldM_opt f ys)"
  by (induction xs arbitrary: s) (auto split: Option.bind_splits)

lemma foldM_opt_invariant:
  assumes "foldM_opt f xs s = Some t" and "I s"
    and "\<And>x a b. \<lbrakk> x \<in> set xs; I a; f x a = Some b \<rbrakk> \<Longrightarrow> I b"
  shows "I t"
  using assms
proof (induction xs arbitrary: s)
  case (Cons x xs)
  from Cons.prems(1) obtain u where u: "f x s = Some u" "foldM_opt f xs u = Some t"
    by (auto elim!: bind_SomeE)
  have "I u" using Cons.prems(2,3) u(1) by auto
  with u(2) show ?case using Cons.IH Cons.prems(3) by auto
qed simp

lemma take_length_append [simp]: "length xs = n \<Longrightarrow> take n (xs @ ys) = xs"
  by simp

lemma drop_length_append [simp]: "length xs = n \<Longrightarrow> drop n (xs @ ys) = ys"
  by simp

lemma append_same_length_eq:
  "length xs = length ys \<Longrightarrow> xs @ us = ys @ vs \<longleftrightarrow> xs = ys \<and> us = vs"
  by simp

section \<open>Fixed-width integers\<close>

fun le_bytes :: "nat \<Rightarrow> nat \<Rightarrow> bytes" where
  "le_bytes 0 n = []"
| "le_bytes (Suc w) n = of_nat n # le_bytes w (n div 256)"

fun le_nat :: "bytes \<Rightarrow> nat" where
  "le_nat [] = 0"
| "le_nat (b # bs) = unat b + 256 * le_nat bs"

definition be_bytes :: "nat \<Rightarrow> nat \<Rightarrow> bytes" where
  "be_bytes w n = rev (le_bytes w n)"

definition be_nat :: "bytes \<Rightarrow> nat" where
  "be_nat bs = le_nat (rev bs)"

text \<open>\<^verbatim>\<open>n.to_bytes(w, "little")\<close> and \<^verbatim>\<open>n.to_bytes(w, "big")\<close> raise OverflowError on a
  negative or too large \<^verbatim>\<open>n\<close>; the signed variants are two's complement.\<close>

definition to_bytes_le :: "nat \<Rightarrow> int \<Rightarrow> bytes option" where
  "to_bytes_le w n = (if 0 \<le> n \<and> n < 256 ^ w then Some (le_bytes w (nat n)) else None)"

definition to_bytes_be :: "nat \<Rightarrow> int \<Rightarrow> bytes option" where
  "to_bytes_be w n = (if 0 \<le> n \<and> n < 256 ^ w then Some (be_bytes w (nat n)) else None)"

definition to_bytes_le_signed :: "nat \<Rightarrow> int \<Rightarrow> bytes option" where
  "to_bytes_le_signed w n =
     (if - (256 ^ w div 2) \<le> n \<and> n < 256 ^ w div 2
      then Some (le_bytes w (nat (n mod 256 ^ w))) else None)"

definition from_bytes_le_signed :: "bytes \<Rightarrow> int" where
  "from_bytes_le_signed bs =
     (let n = int (le_nat bs); m = 256 ^ length bs in if n < m div 2 then n else n - m)"

lemma unat_of_nat_byte [simp]: "unat (of_nat n :: byte) = n mod 256"
  by (simp add: unat_of_nat)

lemma unat_byte_less [simp]: "unat (b :: byte) < 256"
proof -
  have "unat b < 2 ^ LENGTH(8)" by (rule unsigned_less)
  then show ?thesis by simp
qed

definition byte_of :: "nat \<Rightarrow> byte" where
  "byte_of n = of_nat n"

lemma unat_byte_of [simp]: "unat (byte_of n) = n mod 256"
  by (simp add: byte_of_def)

lemma byte_of_unat [simp]: "byte_of (unat b) = b"
  by (simp add: byte_of_def)

lemma of_nat_byte_eq_iff: "m < 256 \<Longrightarrow> n < 256 \<Longrightarrow> (of_nat m :: byte) = of_nat n \<longleftrightarrow> m = n"
  by (metis mod_less unat_of_nat_byte)

lemma length_le_bytes [simp]: "length (le_bytes w n) = w"
  by (induction w arbitrary: n) auto

lemma le_nat_le_bytes_mod: "le_nat (le_bytes w n) = n mod 256 ^ w"
proof (induction w arbitrary: n)
  case (Suc w)
  have "n mod 256 ^ Suc w = n mod 256 + 256 * (n div 256 mod 256 ^ w)"
    by (metis add.commute mod_mult2_eq power_Suc)
  with Suc show ?case by simp
qed simp

lemma le_nat_le_bytes [codec_simps]: "n < 256 ^ w \<Longrightarrow> le_nat (le_bytes w n) = n"
  by (simp add: le_nat_le_bytes_mod)

lemma le_nat_less: "le_nat bs < 256 ^ length bs"
proof (induction bs)
  case (Cons b bs)
  then show ?case using unat_byte_less [of b] by (simp del: unat_byte_less)
qed simp

lemma le_bytes_le_nat: "length bs = w \<Longrightarrow> le_bytes w (le_nat bs) = bs"
proof (induction bs arbitrary: w)
  case (Cons b bs)
  have "(of_nat (unat b + 256 * le_nat bs) :: byte) = b"
  proof -
    have "(256 :: byte) = 0" by simp
    then have "of_nat (256 * le_nat bs) = (0 :: byte)" by (metis mult_zero_left of_nat_mult of_nat_numeral)
    then show ?thesis by simp
  qed
  moreover have "(unat b + 256 * le_nat bs) div 256 = le_nat bs"
    using unat_byte_less [of b] by linarith
  ultimately show ?case using Cons by auto
qed simp

lemma le_bytes_inject:
  "m < 256 ^ w \<Longrightarrow> n < 256 ^ w \<Longrightarrow> le_bytes w m = le_bytes w n \<longleftrightarrow> m = n"
  by (metis le_nat_le_bytes)

lemma length_be_bytes [simp]: "length (be_bytes w n) = w"
  by (simp add: be_bytes_def)

lemma be_nat_be_bytes [codec_simps]: "n < 256 ^ w \<Longrightarrow> be_nat (be_bytes w n) = n"
  by (simp add: be_nat_def be_bytes_def le_nat_le_bytes)

lemma be_bytes_be_nat: "length bs = w \<Longrightarrow> be_bytes w (be_nat bs) = bs"
  by (simp add: be_nat_def be_bytes_def le_bytes_le_nat)

lemma be_nat_less: "be_nat bs < 256 ^ length bs"
  unfolding be_nat_def by (metis le_nat_less length_rev)

lemma be_bytes_inject:
  "m < 256 ^ w \<Longrightarrow> n < 256 ^ w \<Longrightarrow> be_bytes w m = be_bytes w n \<longleftrightarrow> m = n"
  by (metis be_nat_be_bytes)

lemma to_bytes_le_signed_roundtrip [codec_simps]:
  assumes "to_bytes_le_signed w n = Some bs" and "0 < w"
  shows "from_bytes_le_signed bs = n"
proof -
  define m :: int where "m = 256 ^ w"
  define k where "k = n mod m"
  have m: "0 < m" "even m" using assms(2) by (auto simp: m_def)
  have n: "- (m div 2) \<le> n" "n < m div 2" and bs: "bs = le_bytes w (nat k)"
    using assms(1) by (auto simp: to_bytes_le_signed_def m_def k_def split: if_splits)
  have k: "0 \<le> k" "k < m" using m by (auto simp: k_def)
  then have "nat k < 256 ^ w" by (simp add: m_def nat_less_iff)
  then have "int (le_nat bs) = k" using k by (simp add: bs le_nat_le_bytes)
  moreover have "length bs = w" by (simp add: bs)
  moreover have "k = (if 0 \<le> n then n else n + m)"
  proof (cases "0 \<le> n")
    case True
    with n m show ?thesis by (simp add: k_def mod_pos_pos_trivial)
  next
    case False
    have "k = (n + m) mod m" by (simp add: k_def)
    also have "\<dots> = n + m" using False n m by (intro mod_pos_pos_trivial) auto
    finally show ?thesis using False by simp
  qed
  ultimately show ?thesis using n m by (auto simp: from_bytes_le_signed_def Let_def m_def)
qed

section \<open>Lexicographic order of byte strings\<close>

lemma Cons_less_Cons_bytes: "(x # xs < y # ys) \<longleftrightarrow> x < y \<or> x = y \<and> xs < (ys :: bytes)"
  by (auto simp: list_less_def)

lemma append_less_append_iff:
  "length xs = length ys \<Longrightarrow> xs @ us < ys @ (vs :: bytes) \<longleftrightarrow> xs < ys \<or> xs = ys \<and> us < vs"
  by (induction xs ys rule: list_induct2) auto

lemma prefix_le_bytes: "prefix p (k :: bytes) \<Longrightarrow> p \<le> k"
proof -
  have "(p :: bytes) \<le> p @ q" for q by (induction p) auto
  then show "prefix p k \<Longrightarrow> p \<le> k" by (auto simp: prefix_def)
qed

lemma be_bytes_Suc: "be_bytes (Suc w) n = be_bytes w (n div 256) @ [of_nat n]"
  by (simp add: be_bytes_def)

lemma less_div_mod_iff:
  "(m :: nat) < n \<longleftrightarrow> m div d < n div d \<or> m div d = n div d \<and> m mod d < n mod d"
proof -
  have "m div d < n div d \<Longrightarrow> m < n" and "n div d < m div d \<Longrightarrow> n < m"
    by (meson div_le_mono leD leI)+
  moreover have "m div d = n div d \<Longrightarrow> m < n \<longleftrightarrow> m mod d < n mod d"
    by (metis add_less_cancel_left mult_div_mod_eq)
  ultimately show ?thesis by (metis linorder_neqE_nat order_less_asym)
qed

lemma be_bytes_less_iff:
  "m < 256 ^ w \<Longrightarrow> n < 256 ^ w \<Longrightarrow> be_bytes w m < be_bytes w n \<longleftrightarrow> m < n"
proof (induction w arbitrary: m n)
  case (Suc w)
  have d: "m div 256 < 256 ^ w" "n div 256 < 256 ^ w"
    using Suc.prems by (auto simp: less_mult_imp_div_less mult.commute)
  have byte: "(of_nat m :: byte) < of_nat n \<longleftrightarrow> m mod 256 < n mod 256"
    by (simp add: word_less_nat_alt)
  show ?case
    using Suc.IH [OF d] byte
    by (simp add: be_bytes_Suc append_less_append_iff be_bytes_inject [OF d]
        less_div_mod_iff [of m n 256])
qed (simp add: be_bytes_def)

lemma be_bytes_le_iff:
  "m < 256 ^ w \<Longrightarrow> n < 256 ^ w \<Longrightarrow> be_bytes w m \<le> be_bytes w n \<longleftrightarrow> m \<le> n"
  by (metis be_bytes_inject be_bytes_less_iff order_le_less)

end
