(* ===== verification/PyText.thy ===== *)
theory PyText
  imports Prelude
begin

text \<open>
  The text operations of Python the program is written with: \<^verbatim>\<open>str.encode("utf-8")\<close> and
  \<^verbatim>\<open>bytes.decode("utf-8")\<close> (strict: surrogates, overlong forms and truncated sequences raise),
  \<^verbatim>\<open>bytes.hex\<close> and \<^verbatim>\<open>bytes.fromhex\<close>, \<^verbatim>\<open>str(int)\<close> and \<^verbatim>\<open>int(str)\<close>,
  \<^verbatim>\<open>strip\<close>, \<^verbatim>\<open>split\<close> and the padded decimal formats.  A raise is None.
  \<^verbatim>\<open>int(str)\<close> is modelled on ASCII digits (with sign, surrounding white space and single
  underscores); other Unicode decimal digits are outside the model.
\<close>

section \<open>Literals, UTF-8\<close>

definition lit :: "string \<Rightarrow> pystr" where
  "lit s = map of_char s"

definition blit :: "string \<Rightarrow> bytes" where
  "blit s = map (\<lambda>c. byte_of (of_char c)) s"

definition utf8_cont :: "nat \<Rightarrow> byte" where
  "utf8_cont n = byte_of (128 + n mod 64)"

definition utf8_char :: "nat \<Rightarrow> bytes option" where
  "utf8_char c =
     (if c < 128 then Some [byte_of c]
      else if c < 2048 then Some [byte_of (192 + c div 64), utf8_cont c]
      else if 55296 \<le> c \<and> c < 57344 then None
      else if c < 65536 then
        Some [byte_of (224 + c div 4096), utf8_cont (c div 64), utf8_cont c]
      else if c < 1114112 then
        Some [byte_of (240 + c div 262144), utf8_cont (c div 4096), utf8_cont (c div 64), utf8_cont c]
      else None)"

fun utf8_encode :: "pystr \<Rightarrow> bytes option" where
  "utf8_encode [] = Some []"
| "utf8_encode (c # cs) = do { b \<leftarrow> utf8_char c; bs \<leftarrow> utf8_encode cs; Some (b @ bs) }"

definition cont_val :: "byte \<Rightarrow> nat option" where
  "cont_val b = (if 128 \<le> unat b \<and> unat b < 192 then Some (unat b - 128) else None)"

definition utf8_wide :: "nat \<Rightarrow> nat \<Rightarrow> nat \<Rightarrow> bytes \<Rightarrow> (nat \<times> bytes) option" where
  "utf8_wide lo hi c r =
     (if lo \<le> c \<and> c < hi \<and> \<not> (55296 \<le> c \<and> c < 57344) then Some (c, r) else None)"

fun utf8_next :: "bytes \<Rightarrow> (nat \<times> bytes) option" where
  "utf8_next [] = None"
| "utf8_next (b # bs) =
     (let n = unat b in
      if n < 128 then Some (n, bs)
      else if n < 192 then None
      else if n < 224 then
        (case bs of x # r \<Rightarrow> do {
           i \<leftarrow> cont_val x; utf8_wide 128 2048 ((n - 192) * 64 + i) r } | _ \<Rightarrow> None)
      else if n < 240 then
        (case bs of x # y # r \<Rightarrow> do {
           i \<leftarrow> cont_val x; j \<leftarrow> cont_val y;
           utf8_wide 2048 65536 ((n - 224) * 4096 + i * 64 + j) r } | _ \<Rightarrow> None)
      else if n < 248 then
        (case bs of x # y # z # r \<Rightarrow> do {
           i \<leftarrow> cont_val x; j \<leftarrow> cont_val y; k \<leftarrow> cont_val z;
           utf8_wide 65536 1114112 ((n - 240) * 262144 + i * 4096 + j * 64 + k) r } | _ \<Rightarrow> None)
      else None)"

lemma utf8_next_shorter: "utf8_next bs = Some (c, r) \<Longrightarrow> length r < length bs"
  by (cases bs) (auto simp: Let_def utf8_wide_def split: if_splits list.splits elim!: bind_SomeE)

function utf8_decode :: "bytes \<Rightarrow> pystr option" where
  "utf8_decode bs =
     (if bs = [] then Some []
      else case utf8_next bs of
        None \<Rightarrow> None
      | Some (c, r) \<Rightarrow> do { cs \<leftarrow> utf8_decode r; Some (c # cs) })"
  by pat_completeness auto
termination by (relation "measure length") (auto dest: utf8_next_shorter)

declare utf8_decode.simps [simp del]

lemma unat_utf8_cont [simp]: "unat (utf8_cont n) = 128 + n mod 64"
proof -
  have "n mod 64 < 64" by simp
  then have "128 + n mod 64 < (256 :: nat)" by linarith
  then show ?thesis unfolding utf8_cont_def unat_byte_of by (rule mod_less)
qed

lemma cont_val_utf8_cont [simp]: "cont_val (utf8_cont n) = Some (n mod 64)"
proof -
  have "n mod 64 < 64" by simp
  then have "128 + n mod 64 < (192 :: nat)" by linarith
  then show ?thesis by (simp add: cont_val_def)
qed

lemma div_mod_join: "(n :: nat) div (a * b) * (a * b) + n div b mod a * b = n div b * b"
proof -
  have "n div b = n div (a * b) * a + n div b mod a"
    by (metis div_mult2_eq div_mult_mod_eq mult.commute)
  then show ?thesis by (metis add_mult_distrib mult.assoc)
qed

lemma utf8_split2: "(c :: nat) div 64 * 64 + c mod 64 = c"
  by (rule div_mult_mod_eq)

lemma utf8_split3: "(c :: nat) div 4096 * 4096 + c div 64 mod 64 * 64 + c mod 64 = c"
  using div_mod_join [of c 64 64] by simp

lemma utf8_split4:
  "(c :: nat) div 262144 * 262144 + c div 4096 mod 64 * 4096 + c div 64 mod 64 * 64 + c mod 64 = c"
  using div_mod_join [of c 64 4096] utf8_split3 [of c] by simp

lemma utf8_next_char [codec_simps]:
  assumes "utf8_char c = Some b"
  shows "utf8_next (b @ r) = Some (c, r)"
proof -
  consider "c < 128" | "128 \<le> c" "c < 2048" | "2048 \<le> c" "c < 65536" "\<not> (55296 \<le> c \<and> c < 57344)"
    | "65536 \<le> c" "c < 1114112"
    using assms by (fastforce simp: utf8_char_def split: if_splits)
  then show ?thesis
  proof cases
    case 1
    with assms show ?thesis by (auto simp: utf8_char_def)
  next
    case 2
    then have "c div 64 < 32" by (simp add: less_mult_imp_div_less)
    with 2 assms show ?thesis
      using utf8_split2 [of c] by (auto simp: utf8_char_def utf8_wide_def Let_def)
  next
    case 3
    then have "c div 4096 < 16" by (simp add: less_mult_imp_div_less)
    with 3 assms show ?thesis
      using utf8_split3 [of c] by (auto simp: utf8_char_def utf8_wide_def Let_def)
  next
    case 4
    then have "c div 262144 < 5" by (simp add: less_mult_imp_div_less)
    with 4 assms show ?thesis
      using utf8_split4 [of c] by (auto simp: utf8_char_def utf8_wide_def Let_def)
  qed
qed

lemma utf8_char_nonempty: "utf8_char c = Some b \<Longrightarrow> b \<noteq> []"
  by (auto simp: utf8_char_def split: if_splits)

lemma utf8_decode_encode [codec_simps]:
  "utf8_encode s = Some b \<Longrightarrow> utf8_decode b = Some s"
proof (induction s arbitrary: b)
  case Nil
  then show ?case by (simp add: utf8_decode.simps)
next
  case (Cons c s)
  then obtain x y where xy: "utf8_char c = Some x" "utf8_encode s = Some y" "b = x @ y"
    by (auto elim!: bind_SomeE)
  have "utf8_next b = Some (c, y)" using xy utf8_next_char by simp
  moreover have "b \<noteq> []" using utf8_char_nonempty xy by auto
  ultimately show ?case using Cons.IH [OF xy(2)] by (subst utf8_decode.simps) simp
qed

lemma utf8_cont_val:
  assumes "cont_val x = Some i"
  shows "i < 64" and "utf8_cont (m * 64 + i) = x" and "utf8_cont i = x"
proof -
  have i: "128 \<le> unat x" "unat x < 192" "i = unat x - 128"
    using assms by (auto simp: cont_val_def split: if_splits)
  then show i64: "i < 64" by linarith
  have "128 + i = unat x" using i by linarith
  moreover have "(m * 64 + i) mod 64 = i" "i mod 64 = i" using i64 by auto
  ultimately show "utf8_cont (m * 64 + i) = x" "utf8_cont i = x"
    by (simp_all add: utf8_cont_def)
qed

lemma utf8_char_next:
  assumes "utf8_next bs = Some (c, r)"
  shows "\<exists>b. utf8_char c = Some b \<and> bs = b @ r"
proof -
  obtain b t where bs: "bs = b # t" using assms by (cases bs) auto
  define n where "n = unat b"
  have b: "byte_of n = b" by (simp add: n_def)
  consider "n < 128" | "192 \<le> n" "n < 224" | "224 \<le> n" "n < 240" | "240 \<le> n" "n < 248"
    using assms by (fastforce simp: bs n_def Let_def split: if_splits)
  then show ?thesis
  proof cases
    case 1
    with assms show ?thesis by (auto simp: bs n_def utf8_char_def)
  next
    case 2
    with assms obtain x i where x: "t = x # r" "cont_val x = Some i"
      and c: "c = (n - 192) * 64 + i" "128 \<le> c" "c < 2048"
      by (auto simp: bs n_def utf8_wide_def split: list.splits if_splits elim!: bind_SomeE)
    have "c div 64 = n - 192" using c utf8_cont_val [OF x(2)] by simp
    then show ?thesis using c x 2 b utf8_cont_val [OF x(2)] by (simp add: utf8_char_def bs)
  next
    case 3
    with assms obtain x i y j where x: "t = x # y # r" "cont_val x = Some i" "cont_val y = Some j"
      and c: "c = ((n - 224) * 64 + i) * 64 + j" "2048 \<le> c" "c < 65536"
             "\<not> (55296 \<le> c \<and> c < 57344)"
      by (auto simp: bs n_def utf8_wide_def algebra_simps split: list.splits if_splits elim!: bind_SomeE)
    have d: "c div 64 = (n - 224) * 64 + i" using c utf8_cont_val(1) [OF x(3)] by simp
    then have "c div 4096 = n - 224"
      using utf8_cont_val(1) [OF x(2)] div_mult2_eq [of c 64 64] by simp
    moreover have "utf8_cont c = y" "utf8_cont (c div 64) = x"
      by (simp_all only: c(1) d [unfolded c(1)] utf8_cont_val(2) [OF x(2)] utf8_cont_val(2) [OF x(3)])
    ultimately show ?thesis using c(2-4) x 3 b by (simp add: utf8_char_def bs)
  next
    case 4
    with assms obtain x i y j z k where x: "t = x # y # z # r" "cont_val x = Some i"
        "cont_val y = Some j" "cont_val z = Some k"
      and c: "c = (((n - 240) * 64 + i) * 64 + j) * 64 + k" "65536 \<le> c" "c < 1114112"
      by (auto simp: bs n_def utf8_wide_def algebra_simps split: list.splits if_splits elim!: bind_SomeE)
    have d: "c div 64 = ((n - 240) * 64 + i) * 64 + j" using c utf8_cont_val(1) [OF x(4)] by simp
    then have e: "c div 4096 = (n - 240) * 64 + i"
      using utf8_cont_val(1) [OF x(3)] div_mult2_eq [of c 64 64] by simp
    then have "c div 262144 = n - 240"
      using utf8_cont_val(1) [OF x(2)] div_mult2_eq [of c 4096 64] by simp
    moreover have "utf8_cont c = z" "utf8_cont (c div 64) = y" "utf8_cont (c div 4096) = x"
      by (simp_all only: c(1) d [unfolded c(1)] e [unfolded c(1)] utf8_cont_val(2) [OF x(2)]
          utf8_cont_val(2) [OF x(3)] utf8_cont_val(2) [OF x(4)])
    ultimately show ?thesis using c(2-3) x 4 b by (simp add: utf8_char_def bs)
  qed
qed

lemma utf8_encode_decode: "utf8_decode b = Some s \<Longrightarrow> utf8_encode s = Some b"
proof (induction b arbitrary: s rule: utf8_decode.induct)
  case (1 bs)
  show ?case
  proof (cases "bs = []")
    case False
    then obtain c r t where n: "utf8_next bs = Some (c, r)" and t: "utf8_decode r = Some t" "s = c # t"
      using 1(2) by (subst (asm) utf8_decode.simps) (auto split: option.splits elim!: bind_SomeE)
    moreover have "utf8_encode t = Some r" using 1(1) False n t by auto
    ultimately show ?thesis using utf8_char_next [OF n] by auto
  qed (use 1(2) in \<open>simp add: utf8_decode.simps\<close>)
qed

lemma utf8_encode_inject:
  "utf8_encode s = Some b \<Longrightarrow> utf8_encode t = Some b \<Longrightarrow> s = t"
  by (metis utf8_decode_encode option.inject)

lemma utf8_encode_append:
  "utf8_encode (s @ t) = do { a \<leftarrow> utf8_encode s; b \<leftarrow> utf8_encode t; Some (a @ b) }"
  by (induction s) (auto split: Option.bind_splits)

lemma utf8_encode_ascii:
  "\<forall>c\<in>set s. c < 128 \<Longrightarrow> utf8_encode s = Some (map byte_of s)"
  by (induction s) (auto simp: utf8_char_def)

section \<open>Hexadecimal\<close>

definition hex_digit :: "nat \<Rightarrow> nat" where
  "hex_digit n = (if n < 10 then 48 + n else 87 + n)"

definition hex_val :: "nat \<Rightarrow> nat option" where
  "hex_val c =
     (if 48 \<le> c \<and> c \<le> 57 then Some (c - 48)
      else if 97 \<le> c \<and> c \<le> 102 then Some (c - 87)
      else if 65 \<le> c \<and> c \<le> 70 then Some (c - 55)
      else None)"

fun bytes_hex :: "bytes \<Rightarrow> pystr" where
  "bytes_hex [] = []"
| "bytes_hex (b # bs) = hex_digit (unat b div 16) # hex_digit (unat b mod 16) # bytes_hex bs"

definition ascii_space :: "nat \<Rightarrow> bool" where
  "ascii_space c \<longleftrightarrow> 9 \<le> c \<and> c \<le> 13 \<or> c = 32"

fun fromhex :: "pystr \<Rightarrow> bytes option" where
  "fromhex [] = Some []"
| "fromhex [c] = (if ascii_space c then Some [] else None)"
| "fromhex (c # d # cs) =
     (if ascii_space c then fromhex (d # cs)
      else do { h \<leftarrow> hex_val c; l \<leftarrow> hex_val d; r \<leftarrow> fromhex cs; Some (byte_of (16 * h + l) # r) })"

lemma hex_val_digit [simp]: "n < 16 \<Longrightarrow> hex_val (hex_digit n) = Some n"
  by (auto simp: hex_val_def hex_digit_def)

lemma hex_digit_not_space: "n < 16 \<Longrightarrow> \<not> ascii_space (hex_digit n)"
  by (auto simp: ascii_space_def hex_digit_def)

lemma byte_nibbles_less: "unat (b :: byte) div 16 < 16"
  using unat_byte_less [of b] by (simp add: less_mult_imp_div_less del: unat_byte_less)

lemma fromhex_hex [codec_simps]: "fromhex (bytes_hex bs) = Some bs"
proof (induction bs)
  case (Cons b bs)
  have "byte_of (16 * (unat b div 16) + unat b mod 16) = b" by simp
  then show ?case
    using Cons byte_nibbles_less [of b] by (simp add: hex_digit_not_space)
qed simp

lemma bytes_hex_ascii: "c \<in> set (bytes_hex bs) \<Longrightarrow> 48 \<le> c \<and> c < 103"
proof (induction bs)
  case (Cons b bs)
  have "unat b div 16 < 16" "unat b mod 16 < 16" by (simp_all add: byte_nibbles_less)
  then show ?case using Cons by (auto simp: hex_digit_def)
qed simp

lemma length_bytes_hex [simp]: "length (bytes_hex bs) = 2 * length bs"
  by (induction bs) auto

lemma bytes_hex_inject: "bytes_hex a = bytes_hex b \<longleftrightarrow> a = b"
  by (metis fromhex_hex option.inject)

section \<open>Decimal integers\<close>

fun nat_str :: "nat \<Rightarrow> pystr" where
  "nat_str n = (if n < 10 then [48 + n] else nat_str (n div 10) @ [48 + n mod 10])"

declare nat_str.simps [simp del]

definition int_str :: "int \<Rightarrow> pystr" where
  "int_str i = (if i < 0 then 45 # nat_str (nat (- i)) else nat_str (nat i))"

text \<open>\<^verbatim>\<open>"{:0wd}".format(n)\<close> of a natural number.\<close>

definition zero_pad :: "nat \<Rightarrow> nat \<Rightarrow> pystr" where
  "zero_pad w n = replicate (w - length (nat_str n)) 48 @ nat_str n"

text \<open>\<^verbatim>\<open>str.isspace\<close>, as \<^verbatim>\<open>strip()\<close>, \<^verbatim>\<open>int()\<close> and \<^verbatim>\<open>Decimal()\<close> use it.\<close>

definition uni_space :: "nat \<Rightarrow> bool" where
  "uni_space c \<longleftrightarrow> 9 \<le> c \<and> c \<le> 13 \<or> 28 \<le> c \<and> c \<le> 32 \<or>
     c \<in> {133, 160, 5760, 8232, 8233, 8239, 8287, 12288} \<or> 8192 \<le> c \<and> c \<le> 8202"

definition py_strip :: "pystr \<Rightarrow> pystr" where
  "py_strip s = rev (dropWhile uni_space (rev (dropWhile uni_space s)))"

definition is_digit :: "nat \<Rightarrow> bool" where
  "is_digit c \<longleftrightarrow> 48 \<le> c \<and> c \<le> 57"

fun digits_val :: "nat \<Rightarrow> bool \<Rightarrow> pystr \<Rightarrow> nat option" where
  "digits_val acc d [] = (if d then Some acc else None)"
| "digits_val acc d (c # cs) =
     (if is_digit c then digits_val (acc * 10 + (c - 48)) True cs
      else if c = 95 \<and> d then digits_val acc False cs
      else None)"

definition py_int :: "pystr \<Rightarrow> int option" where
  "py_int s =
     (case py_strip s of
        [] \<Rightarrow> None
      | c # cs \<Rightarrow>
          if c = 45 then map_option (\<lambda>n. - int n) (digits_val 0 False cs)
          else if c = 43 then map_option int (digits_val 0 False cs)
          else map_option int (digits_val 0 False (c # cs)))"

lemma nat_str_nonempty [simp]: "nat_str n \<noteq> []"
  by (subst nat_str.simps) simp

lemma nat_str_digits: "c \<in> set (nat_str n) \<Longrightarrow> is_digit c"
proof (induction n rule: nat_str.induct)
  case (1 n)
  then show ?case
    by (subst (asm) (2) nat_str.simps) (auto simp: is_digit_def split: if_splits)
qed

lemma digits_val_append_digits:
  "\<forall>c\<in>set s. is_digit c \<Longrightarrow> s \<noteq> [] \<Longrightarrow>
     digits_val a d (s @ t) = digits_val (the (digits_val a d s)) True t"
proof (induction s arbitrary: a d)
  case (Cons c s)
  then show ?case by (cases "s = []") auto
qed simp

lemma digits_val_nat_str [codec_simps]: "digits_val 0 d (nat_str n) = Some n"
proof (induction n rule: nat_str.induct)
  case (1 n)
  show ?case
  proof (cases "n < 10")
    case True
    then show ?thesis by (subst nat_str.simps) (simp add: is_digit_def)
  next
    case False
    then have "digits_val 0 d (nat_str n) = digits_val (n div 10) True [48 + n mod 10]"
      by (subst nat_str.simps) (simp add: digits_val_append_digits nat_str_digits 1)
    also have "\<dots> = Some n" by (simp add: is_digit_def)
    finally show ?thesis .
  qed
qed

lemma digits_val_zeros [simp]: "digits_val 0 d (replicate k 48 @ s) = digits_val 0 (d \<or> 0 < k) s"
  by (induction k arbitrary: d) (auto simp: is_digit_def)

lemma digits_val_zero_pad [codec_simps]: "digits_val 0 d (zero_pad w n) = Some n"
  by (simp add: zero_pad_def digits_val_nat_str)

lemma digit_not_space: "is_digit c \<Longrightarrow> \<not> uni_space c"
  by (auto simp: is_digit_def uni_space_def)

lemma py_strip_id:
  assumes "s = [] \<or> \<not> uni_space (hd s) \<and> \<not> uni_space (last s)"
  shows "py_strip s = s"
proof (cases "s = []")
  case False
  then have "dropWhile uni_space s = s" using assms by (cases s) auto
  moreover have "dropWhile uni_space (rev s) = rev s"
    using assms False by (cases s rule: rev_cases) auto
  ultimately show ?thesis by (simp add: py_strip_def)
qed (simp add: py_strip_def)

lemma py_int_int_str [codec_simps]: "py_int (int_str i) = Some i"
proof -
  have d: "is_digit (hd (nat_str n))" "is_digit (last (nat_str n))" for n
    by (auto intro: nat_str_digits [of _ n])
  show ?thesis
  proof (cases "i < 0")
    case True
    have "py_strip (45 # nat_str (nat (- i))) = 45 # nat_str (nat (- i))"
      by (intro py_strip_id) (simp add: digit_not_space d uni_space_def [of 45])
    then show ?thesis using True by (simp add: py_int_def int_str_def digits_val_nat_str)
  next
    case False
    have "py_strip (nat_str (nat i)) = nat_str (nat i)"
      by (intro py_strip_id) (simp add: digit_not_space d)
    moreover obtain c cs where n: "nat_str (nat i) = c # cs" by (cases "nat_str (nat i)") auto
    moreover have "c \<noteq> 45" "c \<noteq> 43" using d(1) [of "nat i"] n by (auto simp: is_digit_def)
    ultimately show ?thesis
      using False digits_val_nat_str [of False "nat i"]
      by (simp add: py_int_def int_str_def del: digits_val.simps)
  qed
qed

lemma int_str_inject: "int_str i = int_str j \<longleftrightarrow> i = j"
  by (metis option.inject py_int_int_str)

lemma nat_str_inject: "nat_str m = nat_str n \<longleftrightarrow> m = n"
  by (metis digits_val_nat_str option.inject)

lemma length_nat_str_le: "n < 10 ^ w \<Longrightarrow> 0 < w \<Longrightarrow> length (nat_str n) \<le> w"
proof (induction n arbitrary: w rule: nat_str.induct)
  case (1 n)
  show ?case
  proof (cases "n < 10")
    case False
    then obtain v where w: "w = Suc v" "0 < v" using 1(2,3) by (cases w; cases "w - 1") auto
    then have "n div 10 < 10 ^ v" using 1(2) by (simp add: less_mult_imp_div_less mult.commute)
    then have "length (nat_str (n div 10)) \<le> v" using 1(1) False w by simp
    then show ?thesis using False w by (subst nat_str.simps) simp
  qed (use 1(3) in \<open>subst nat_str.simps, simp\<close>)
qed

lemma length_zero_pad: "n < 10 ^ w \<Longrightarrow> 0 < w \<Longrightarrow> length (zero_pad w n) = w"
  using length_nat_str_le [of n w] by (simp add: zero_pad_def)

lemma zero_pad_nonempty [simp]: "zero_pad w n \<noteq> []"
  by (simp add: zero_pad_def)

lemma zero_pad_digits: "c \<in> set (zero_pad w n) \<Longrightarrow> is_digit c"
  by (auto simp: zero_pad_def nat_str_digits is_digit_def [of 48])

definition digs :: "pystr \<Rightarrow> nat" where
  "digs s = foldl (\<lambda>a c. a * 10 + (c - 48)) 0 s"

lemma digits_val_foldl:
  "\<forall>c\<in>set s. is_digit c \<Longrightarrow> s \<noteq> [] \<or> d \<Longrightarrow>
     digits_val a d s = Some (foldl (\<lambda>a c. a * 10 + (c - 48)) a s)"
  by (induction s arbitrary: a d) auto

lemma digs_nat_str [simp]: "digs (nat_str n) = n"
  using digits_val_foldl [of "nat_str n" False 0] digits_val_nat_str [of False n]
  by (simp add: digs_def nat_str_digits)

lemma digs_zero_pad [simp]: "digs (zero_pad w n) = n"
  using digits_val_foldl [of "zero_pad w n" True 0] digits_val_zero_pad [of True w n] zero_pad_digits
  by (auto simp: digs_def)

lemma digs_append: "digs (s @ t) = digs s * 10 ^ length t + digs t"
proof -
  have "foldl (\<lambda>a c. a * 10 + h c) k t = k * 10 ^ length t + foldl (\<lambda>a c. a * 10 + h c) 0 t"
    for h :: "nat \<Rightarrow> nat" and k
  proof (induction t arbitrary: k)
    case (Cons c t)
    show ?case using Cons [of "k * 10 + h c"] Cons [of "h c"] by (simp add: add_mult_distrib)
  qed simp
  from this [of "\<lambda>c. c - 48" "digs s"] show ?thesis by (simp add: digs_def)
qed

section \<open>Splitting\<close>

text \<open>\<^verbatim>\<open>s.split(sep)\<close> for a one-character separator.\<close>

fun py_split :: "nat \<Rightarrow> pystr \<Rightarrow> pystr list" where
  "py_split c [] = [[]]"
| "py_split c (x # xs) =
     (if x = c then [] # py_split c xs
      else case py_split c xs of [] \<Rightarrow> [[x]] | p # ps \<Rightarrow> (x # p) # ps)"

lemma py_split_nonempty [simp]: "py_split c s \<noteq> []"
  by (induction s) (auto split: list.splits)

lemma py_split_no_sep: "c \<notin> set s \<Longrightarrow> py_split c s = [s]"
  by (induction s) auto

lemma py_split_sep: "c \<notin> set p \<Longrightarrow> py_split c (p @ c # s) = p # py_split c s"
  by (induction p) auto

end
