(* ===== verification/KVStore.thy ===== *)
theory KVStore
  imports PyText
begin

text \<open>
  \<^verbatim>\<open>kvstore.py\<close>: the transaction interface \<^verbatim>\<open>KVTxn\<close> over LMDB.  What a transaction sees of a
  sub-database is the list of its entries in key order, the order in which LMDB's cursor walks
  them; keys are unique.  The cursor positions of \<^verbatim>\<open>range\<close> and \<^verbatim>\<open>iterate\<close> (\<^verbatim>\<open>first\<close>, \<^verbatim>\<open>last\<close>, \<^verbatim>\<open>set_range\<close>,
  \<^verbatim>\<open>prev\<close>) are the suffixes and prefixes of that list.  LMDB's limit of 511 bytes per key is
  the check \<^verbatim>\<open>lmdb_key\<close>, which the stores apply where a key may violate it.  The locale \<^verbatim>\<open>kv_map\<close> is the contract the stores are written against.
\<close>

type_synonym 'v kvdb = "(bytes \<times> 'v) list"

section \<open>Operations\<close>

definition kv_get :: "'v kvdb \<Rightarrow> bytes \<Rightarrow> 'v option" where
  "kv_get db k = map_of db k"

fun kv_put :: "'v kvdb \<Rightarrow> bytes \<Rightarrow> 'v \<Rightarrow> 'v kvdb" where
  "kv_put [] k v = [(k, v)]"
| "kv_put ((k', v') # db) k v =
     (if k < k' then (k, v) # (k', v') # db
      else if k = k' then (k, v) # db
      else (k', v') # kv_put db k v)"

definition kv_delete :: "'v kvdb \<Rightarrow> bytes \<Rightarrow> 'v kvdb" where
  "kv_delete db k = filter (\<lambda>e. fst e \<noteq> k) db"

definition set_range :: "'v kvdb \<Rightarrow> bytes \<Rightarrow> 'v kvdb" where
  "set_range db k = dropWhile (\<lambda>e. fst e < k) db"

definition kv_range :: "'v kvdb \<Rightarrow> bytes option \<Rightarrow> bytes option \<Rightarrow> bool \<Rightarrow> 'v kvdb" where
  "kv_range db start stop rev_order =
     (if \<not> rev_order then
        (let c = (case start of None \<Rightarrow> db | Some s \<Rightarrow> set_range db s) in
         case stop of None \<Rightarrow> c | Some e \<Rightarrow> takeWhile (\<lambda>x. \<not> e \<le> fst x) c)
      else
        (let c = (case stop of None \<Rightarrow> db | Some e \<Rightarrow> takeWhile (\<lambda>x. fst x < e) db) in
         case start of None \<Rightarrow> rev c | Some s \<Rightarrow> takeWhile (\<lambda>x. \<not> fst x < s) (rev c)))"

definition kv_iterate :: "'v kvdb \<Rightarrow> bytes \<Rightarrow> 'v kvdb" where
  "kv_iterate db p =
     (if p = [] then db else takeWhile (\<lambda>e. prefix p (fst e)) (set_range db p))"

definition kv_count :: "'v kvdb \<Rightarrow> nat" where
  "kv_count db = length db"

definition kv_drop :: "'v kvdb \<Rightarrow> 'v kvdb" where
  "kv_drop db = []"

text \<open>LMDB raises on an empty key and on one above 511 bytes.\<close>

definition lmdb_key :: "bytes \<Rightarrow> bytes option" where
  "lmdb_key k = (if k = [] \<or> 511 < length k then None else Some k)"

lemma lmdb_key_SomeD: "lmdb_key k = Some k' \<Longrightarrow> k' = k"
  by (simp add: lmdb_key_def split: if_splits)

text \<open>\<^verbatim>\<open>Codec.hkey\<close> and \<^verbatim>\<open>Codec.unhkey\<close>: an unsigned 64-bit big-endian height.  \<^verbatim>\<open>struct.pack\<close>
  raises outside that range; heights are below \<^term>\<open>2 ^ 64 :: nat\<close> throughout.\<close>

definition hkey :: "nat \<Rightarrow> bytes" where
  "hkey height = be_bytes 8 height"

definition unhkey :: "bytes \<Rightarrow> nat" where
  "unhkey key = be_nat key"

lemma unhkey_hkey [codec_simps]: "h < 2 ^ 64 \<Longrightarrow> unhkey (hkey h) = h"
  by (simp add: unhkey_def hkey_def be_nat_be_bytes)

lemma hkey_inject: "h < 2 ^ 64 \<Longrightarrow> g < 2 ^ 64 \<Longrightarrow> hkey h = hkey g \<longleftrightarrow> h = g"
  by (metis unhkey_hkey)

lemma hkey_less_iff: "h < 2 ^ 64 \<Longrightarrow> g < 2 ^ 64 \<Longrightarrow> hkey h < hkey g \<longleftrightarrow> h < g"
  by (simp add: hkey_def be_bytes_less_iff)

lemma length_hkey [simp]: "length (hkey h) = 8"
  by (simp add: hkey_def)

section \<open>The invariant and the laws\<close>

definition kv_ok :: "'v kvdb \<Rightarrow> bool" where
  "kv_ok db \<longleftrightarrow> sorted_wrt (<) (map fst db)"

lemma kv_ok_Nil [simp, inv_intros]: "kv_ok []"
  by (simp add: kv_ok_def)

lemma kv_ok_Cons: "kv_ok ((k, v) # db) \<longleftrightarrow> (\<forall>e\<in>set db. k < fst e) \<and> kv_ok db"
  by (auto simp: kv_ok_def)

lemma kv_ok_distinct: "kv_ok db \<Longrightarrow> distinct (map fst db)"
  by (simp add: kv_ok_def strict_sorted_iff)

lemma kv_get_Nil [simp]: "kv_get [] k = None"
  by (simp add: kv_get_def)

lemma kv_get_eq_Some: "kv_ok db \<Longrightarrow> kv_get db k = Some v \<longleftrightarrow> (k, v) \<in> set db"
  by (simp add: kv_get_def kv_ok_distinct)

lemma kv_get_eq_None: "kv_get db k = None \<longleftrightarrow> k \<notin> fst ` set db"
  by (simp add: kv_get_def map_of_eq_None_iff)

lemma set_kv_put: "set (kv_put db k v) \<subseteq> insert (k, v) (set db)"
  by (induction db k v rule: kv_put.induct) auto

lemma kv_ok_put [inv_intros]: "kv_ok db \<Longrightarrow> kv_ok (kv_put db k v)"
proof (induction db k v rule: kv_put.induct)
  case (2 k' v' db k v)
  have "k' < fst e" if "e \<in> set (kv_put db k v)" "\<not> k < k'" "k \<noteq> k'" for e
    using that 2(2) set_kv_put [of db k v] by (auto simp: kv_ok_Cons)
  with 2 show ?case by (auto simp: kv_ok_Cons intro: less_trans)
qed (simp add: kv_ok_Cons)

lemma kv_put_last: "\<forall>e \<in> set db. fst e < k \<Longrightarrow> kv_put db k v = db @ [(k, v)]"
  by (induction db k v rule: kv_put.induct) (auto dest: less_asym)

lemma kv_ok_filter: "kv_ok db \<Longrightarrow> kv_ok (filter P db)"
  by (induction db) (auto simp: kv_ok_def)

lemma kv_ok_delete [inv_intros]: "kv_ok db \<Longrightarrow> kv_ok (kv_delete db k)"
  by (simp add: kv_delete_def kv_ok_filter)

lemma kv_ok_append: "kv_ok (a @ b) \<longleftrightarrow> kv_ok a \<and> kv_ok b \<and> (\<forall>x\<in>set a. \<forall>y\<in>set b. fst x < fst y)"
  by (induction a) (auto simp: kv_ok_def sorted_wrt_append)

lemma kv_get_put: "kv_ok db \<Longrightarrow> kv_get (kv_put db k v) j = (if j = k then Some v else kv_get db j)"
proof (induction db k v rule: kv_put.induct)
  case (2 k' v' db k v)
  then show ?case by (auto simp: kv_get_def kv_ok_Cons)
qed (simp add: kv_get_def)

lemma kv_get_delete: "kv_get (kv_delete db k) j = (if j = k then None else kv_get db j)"
  unfolding kv_get_def kv_delete_def by (induction db) auto

lemma kv_ext: "kv_ok a \<Longrightarrow> kv_ok b \<Longrightarrow> (\<And>k. kv_get a k = kv_get b k) \<Longrightarrow> a = b"
proof (induction a arbitrary: b)
  case Nil
  from Nil(3) [of "fst (hd b)"] show ?case by (cases b) (auto simp: kv_get_def)
next
  case (Cons x a)
  obtain k v where x: "x = (k, v)" by (cases x)
  obtain j w c where b: "b = (j, w) # c"
    using Cons.prems(3) [of k] by (cases b) (auto simp: x kv_get_def)
  have a: "kv_ok a" "\<forall>e\<in>set a. k < fst e" and c: "kv_ok c" "\<forall>e\<in>set c. j < fst e"
    using Cons.prems by (auto simp: x b kv_ok_Cons)
  have fresh: "kv_get a i = None" if "i \<le> k" for i
    using a(2) that by (force simp: kv_get_eq_None)
  have fresh': "kv_get c i = None" if "i \<le> j" for i
    using c(2) that by (force simp: kv_get_eq_None)
  have get: "kv_get (x # a) i = (if i = k then Some v else kv_get a i)"
      "kv_get b i = (if i = j then Some w else kv_get c i)" for i
    by (auto simp: x b kv_get_def)
  have "k = j"
  proof (rule ccontr)
    assume "k \<noteq> j"
    then consider "k < j" | "j < k" by fastforce
    then show False
      using Cons.prems(3) [of k] Cons.prems(3) [of j] get fresh [of j] fresh' [of k] \<open>k \<noteq> j\<close>
      by cases auto
  qed
  moreover have "v = w" using Cons.prems(3) [of k] get \<open>k = j\<close> by simp
  moreover have "a = c"
  proof (rule Cons.IH [OF a(1) c(1)])
    fix i
    show "kv_get a i = kv_get c i"
      using Cons.prems(3) [of i] get fresh fresh' \<open>k = j\<close> by (cases "i = k") auto
  qed
  ultimately show ?case by (simp add: x b)
qed

locale kv_map =
  fixes ok :: "'d \<Rightarrow> bool"
    and get :: "'d \<Rightarrow> bytes \<Rightarrow> 'v option"
    and put :: "'d \<Rightarrow> bytes \<Rightarrow> 'v \<Rightarrow> 'd"
    and del :: "'d \<Rightarrow> bytes \<Rightarrow> 'd"
  assumes ok_put: "ok d \<Longrightarrow> ok (put d k v)"
    and ok_del: "ok d \<Longrightarrow> ok (del d k)"
    and get_put: "ok d \<Longrightarrow> get (put d k v) j = (if j = k then Some v else get d j)"
    and get_del: "ok d \<Longrightarrow> get (del d k) j = (if j = k then None else get d j)"
    and ext: "ok d \<Longrightarrow> ok e \<Longrightarrow> (\<And>k. get d k = get e k) \<Longrightarrow> d = e"
begin

lemma put_put_same: "ok d \<Longrightarrow> put (put d k v) k w = put d k w"
  by (rule ext) (auto simp: ok_put get_put)

lemma put_commute: "ok d \<Longrightarrow> k \<noteq> j \<Longrightarrow> put (put d k v) j w = put (put d j w) k v"
  by (rule ext) (auto simp: ok_put get_put)

lemma put_same_value: "ok d \<Longrightarrow> get d k = Some v \<Longrightarrow> put d k v = d"
  by (rule ext) (auto simp: ok_put get_put)

lemma del_absent: "ok d \<Longrightarrow> get d k = None \<Longrightarrow> del d k = d"
  by (rule ext) (auto simp: ok_del get_del)

lemma del_put_fresh: "ok d \<Longrightarrow> get d k = None \<Longrightarrow> del (put d k v) k = d"
  by (rule ext) (auto simp: ok_put ok_del get_put get_del)

lemma put_restore: "ok d \<Longrightarrow> get d k = Some w \<Longrightarrow> put (put d k v) k w = d"
  by (rule ext) (auto simp: ok_put get_put)

lemma ok_fold_put: "ok d \<Longrightarrow> ok (fold (\<lambda>(k, v) d. put d k v) es d)"
  by (induction es arbitrary: d) (auto simp: ok_put)

lemma ok_fold_del: "ok d \<Longrightarrow> ok (fold (\<lambda>k d. del d k) ks d)"
  by (induction ks arbitrary: d) (auto simp: ok_del)

lemma get_fold_del:
  "ok d \<Longrightarrow> get (fold (\<lambda>k d. del d k) ks d) j = (if j \<in> set ks then None else get d j)"
  by (induction ks arbitrary: d) (auto simp: ok_del get_del)

lemma get_fold_put_other:
  "ok d \<Longrightarrow> j \<notin> fst ` set es \<Longrightarrow> get (fold (\<lambda>(k, v) d. put d k v) es d) j = get d j"
  by (induction es arbitrary: d) (auto simp: ok_put get_put)

text \<open>Deleting the keys of a batch of fresh insertions restores the store.\<close>

lemma fold_del_fold_put:
  assumes "ok d" and "\<And>k. k \<in> set ks \<Longrightarrow> get d k = None" and "fst ` set es \<subseteq> set ks"
  shows "fold (\<lambda>k d. del d k) ks (fold (\<lambda>(k, v) d. put d k v) es d) = d"
proof (rule ext)
  fix j
  show "get (fold (\<lambda>k d. del d k) ks (fold (\<lambda>(k, v) d. put d k v) es d)) j = get d j"
    using assms by (cases "j \<in> set ks") (auto simp: get_fold_del ok_fold_put subset_iff intro!: get_fold_put_other)
qed (auto simp: assms ok_fold_del ok_fold_put)

end

interpretation kv: kv_map kv_ok kv_get kv_put kv_delete
  by unfold_locales (auto simp: kv_ok_put kv_ok_delete kv_get_put kv_get_delete intro: kv_ext)

lemmas kv_laws [kv_simps] = kv.get_put kv.get_del kv.ok_put kv.ok_del

section \<open>Ordered scans\<close>

lemma set_range_filter: "kv_ok db \<Longrightarrow> set_range db k = filter (\<lambda>e. k \<le> fst e) db"
  unfolding set_range_def
proof (induction db)
  case (Cons x db)
  then show ?case
    by (cases x) (auto simp: kv_ok_Cons not_less intro!: filter_True [symmetric] dest: less_imp_le order_trans)
qed simp

lemma takeWhile_key_filter:
  "kv_ok db \<Longrightarrow> takeWhile (\<lambda>x. fst x < e) db = filter (\<lambda>x. fst x < e) db"
proof (induction db)
  case (Cons x db)
  have "filter (\<lambda>y. fst y < e) db = []" if "\<not> fst x < e"
    using that Cons.prems by (cases x) (auto simp: kv_ok_Cons filter_empty_conv dest: less_trans)
  then show ?case using Cons by (cases x) (auto simp: kv_ok_Cons)
qed simp

lemma takeWhile_rev_key_filter:
  "kv_ok db \<Longrightarrow> takeWhile (\<lambda>x. \<not> fst x < s) (rev db) = rev (filter (\<lambda>x. s \<le> fst x) db)"
proof (induction db rule: rev_induct)
  case (snoc x db)
  have "filter (\<lambda>y. s \<le> fst y) db = []" if "fst x < s"
    using that snoc.prems by (fastforce simp: kv_ok_append filter_empty_conv)
  then show ?case using snoc by (auto simp: kv_ok_append not_less)
qed simp

definition in_range :: "bytes option \<Rightarrow> bytes option \<Rightarrow> bytes \<Rightarrow> bool" where
  "in_range start stop k \<longleftrightarrow>
     (case start of None \<Rightarrow> True | Some s \<Rightarrow> s \<le> k) \<and> (case stop of None \<Rightarrow> True | Some e \<Rightarrow> k < e)"

lemma kv_range_eq_filter:
  assumes "kv_ok db"
  shows "kv_range db start stop r =
    (if r then rev else id) (filter (\<lambda>e. in_range start stop (fst e)) db)"
  using assms
  by (auto simp: kv_range_def in_range_def set_range_filter takeWhile_rev_key_filter not_le
      takeWhile_key_filter kv_ok_filter conj_commute split: option.split cong: takeWhile_cong)

lemma prefix_between:
  "p \<le> k \<Longrightarrow> k < k' \<Longrightarrow> prefix p k' \<Longrightarrow> prefix p (k :: bytes)"
proof (induction p arbitrary: k k')
  case (Cons x p)
  from Cons.prems(3) obtain q where q: "k' = x # q" "prefix p q" by (cases k') auto
  with Cons.prems obtain y ks where y: "k = y # ks" by (cases k) auto
  then have "y = x" using Cons.prems q by auto
  then show ?case using Cons q y by auto
qed simp

lemma takeWhile_prefix_filter:
  "kv_ok db \<Longrightarrow> \<forall>e\<in>set db. p \<le> fst e \<Longrightarrow>
     takeWhile (\<lambda>e. prefix p (fst e)) db = filter (\<lambda>e. prefix p (fst e)) db"
proof (induction db)
  case (Cons x db)
  have "filter (\<lambda>y. prefix p (fst y)) db = []" if "\<not> prefix p (fst x)"
    using that Cons.prems prefix_between [of p "fst x"] by (cases x) (auto simp: kv_ok_Cons filter_empty_conv)
  then show ?case using Cons by (cases x) (auto simp: kv_ok_Cons)
qed simp

lemma kv_iterate_eq_filter:
  assumes "kv_ok db"
  shows "kv_iterate db p = filter (\<lambda>e. prefix p (fst e)) db"
proof (cases "p = []")
  case False
  have "kv_ok (filter (\<lambda>e. p \<le> fst e) db)" using assms by (rule kv_ok_filter)
  then have "takeWhile (\<lambda>e. prefix p (fst e)) (filter (\<lambda>e. p \<le> fst e) db) =
      filter (\<lambda>e. prefix p (fst e)) (filter (\<lambda>e. p \<le> fst e) db)"
    by (rule takeWhile_prefix_filter) simp
  also have "\<dots> = filter (\<lambda>e. prefix p (fst e)) db"
    using prefix_le_bytes [of p] by (simp cong: conj_cong)  (metis (no_types, lifting) filter_cong)
  finally show ?thesis using False assms by (simp add: kv_iterate_def set_range_filter)
qed (simp add: kv_iterate_def)

text \<open>
  C24: the ordered scans return exactly the entries their bounds describe: a range scan the entries
  with start <= key < stop, in ascending or descending key order, and a prefix scan every
  entry whose key starts with the prefix and no other.
\<close>

theorem kv_scans_exact:
  assumes "kv_ok db"
  shows "kv_range db start stop False = filter (\<lambda>e. in_range start stop (fst e)) db
    \<and> kv_range db start stop True = rev (filter (\<lambda>e. in_range start stop (fst e)) db)
    \<and> kv_iterate db p = filter (\<lambda>e. prefix p (fst e)) db"
  using kv_range_eq_filter [OF assms, of start stop] kv_iterate_eq_filter [OF assms, of p] by simp

theorem kv_scans_exact_witness:
  "kv_iterate [(blit ''a'', 1 :: int), (blit ''ab'', 2), (blit ''abc'', 3), (blit ''b'', 4)] (blit ''ab'')
     = [(blit ''ab'', 2), (blit ''abc'', 3)]"
proof -
  have "kv_ok [(blit ''a'', 1 :: int), (blit ''ab'', 2), (blit ''abc'', 3), (blit ''b'', 4)]" by code_simp
  from kv_scans_exact [OF this, of None None "blit ''ab''"] show ?thesis by (simp add: blit_def byte_of_def)
qed

end
