(* ===== verification/SignerFactory.thy ===== *)
theory SignerFactory
  imports PyText
begin

text \<open>
  Address formats and the dispatch from an address to its signature scheme:
  \<^verbatim>\<open>polysign/signerfactory.py\<close>, with the address versions of \<^verbatim>\<open>signer_mldsa.py\<close> and
  \<^verbatim>\<open>signer_secp256r1.py\<close>.  The base58 package and the availability of the optional signer modules
  on a node are the fields of the record \<^verbatim>\<open>addr_ext\<close>.  The patterns are matched as Python's
  \<^verbatim>\<open>re\<close> matches them: \<^verbatim>\<open>$\<close> also matches in front of one final newline.
\<close>

datatype signer_class = SignerRSA | SignerECDSA | SignerED25519 | SignerMultisig
  | SignerMLDSA44 | SignerMLDSA65 | SignerMLDSA87 | SignerSECP256R1

record addr_ext =
  b58decode :: "pystr \<Rightarrow> bytes option"
  b58encode :: "bytes \<Rightarrow> pystr"
  can_load :: "signer_class \<Rightarrow> bool"

section \<open>Patterns\<close>

definition is_hex_lower :: "nat \<Rightarrow> bool" where
  "is_hex_lower c \<longleftrightarrow> 97 \<le> c \<and> c \<le> 102 \<or> 48 \<le> c \<and> c \<le> 57"

definition is_base58 :: "nat \<Rightarrow> bool" where
  "is_base58 c \<longleftrightarrow> 49 \<le> c \<and> c \<le> 57 \<or> 65 \<le> c \<and> c \<le> 72 \<or> 74 \<le> c \<and> c \<le> 78 \<or> 80 \<le> c \<and> c \<le> 90
     \<or> 97 \<le> c \<and> c \<le> 107 \<or> 109 \<le> c \<and> c \<le> 122"

text \<open>\<^verbatim>\<open>^pre[class]{m,n}$\<close> for a class without the newline.\<close>

definition re_match :: "pystr \<Rightarrow> (nat \<Rightarrow> bool) \<Rightarrow> nat \<Rightarrow> nat \<Rightarrow> pystr \<Rightarrow> bool" where
  "re_match pre cls m n s =
     (let t = (if s \<noteq> [] \<and> last s = 10 then butlast s else s);
          body = drop (length pre) t
      in prefix pre t \<and> list_all cls body \<and> m \<le> length body \<and> length body \<le> n)"

definition RE_RSA_ADDRESS :: "pystr \<Rightarrow> bool" where
  "RE_RSA_ADDRESS s = re_match [] is_hex_lower 56 56 s"

definition RE_ECDSA_ADDRESS :: "pystr \<Rightarrow> bool" where
  "RE_ECDSA_ADDRESS s = re_match (lit ''Bis1'') is_base58 28 52 s"

definition RE_MULTISIG_ADDRESS :: "pystr \<Rightarrow> bool" where
  "RE_MULTISIG_ADDRESS s \<longleftrightarrow>
     re_match (lit ''Bism'') is_base58 28 56 s \<or> re_match (lit ''mBis'') is_base58 28 56 s"

section \<open>Dispatch\<close>

fun address_versions :: "signer_class \<Rightarrow> bytes list" where
  "address_versions SignerMLDSA44 = [[6, 77, 68, 50], [20, 77, 68, 50]]"
| "address_versions SignerMLDSA65 = [[6, 77, 68, 83], [20, 77, 68, 83]]"
| "address_versions SignerMLDSA87 = [[6, 77, 68, 56], [20, 77, 68, 56]]"
| "address_versions SignerSECP256R1 = [[6, 82, 49, 0], [20, 82, 49, 0]]"
| "address_versions _ = []"

definition VERSIONED_SIGNERS :: "signer_class list" where
  "VERSIONED_SIGNERS = [SignerMLDSA44, SignerMLDSA65, SignerMLDSA87, SignerSECP256R1]"

definition versioned_signer :: "addr_ext \<Rightarrow> pystr \<Rightarrow> signer_class option" where
  "versioned_signer X address =
     (case b58decode X address of
        None \<Rightarrow> None
      | Some raw \<Rightarrow>
          if length raw < 8 then None
          else find (\<lambda>sc. can_load X sc \<and> take 4 raw \<in> set (address_versions sc)) VERSIONED_SIGNERS)"

text \<open>None: \<^verbatim>\<open>ValueError("Unsupported Address type")\<close>, or the import of the signer module fails.\<close>

definition load_signer :: "addr_ext \<Rightarrow> signer_class \<Rightarrow> signer_class option" where
  "load_signer X sc = (if can_load X sc then Some sc else None)"

definition address_to_signer :: "addr_ext \<Rightarrow> pystr \<Rightarrow> signer_class option" where
  "address_to_signer X address =
     (if RE_RSA_ADDRESS address then Some SignerRSA
      else if RE_MULTISIG_ADDRESS address then load_signer X SignerMultisig
      else if RE_ECDSA_ADDRESS address then
        (if 50 < length address then load_signer X SignerED25519 else load_signer X SignerECDSA)
      else versioned_signer X address)"

definition address_is_multisig :: "pystr \<Rightarrow> bool" where
  "address_is_multisig address = RE_MULTISIG_ADDRESS address"

definition address_is_post_fork_sender_type :: "addr_ext \<Rightarrow> pystr \<Rightarrow> bool" where
  "address_is_post_fork_sender_type X address \<longleftrightarrow>
     RE_MULTISIG_ADDRESS address \<or> versioned_signer X address \<noteq> None"

definition address_is_valid :: "addr_ext \<Rightarrow> pystr \<Rightarrow> bool" where
  "address_is_valid X address =
     (if RE_RSA_ADDRESS address then True
      else if RE_MULTISIG_ADDRESS address then True
      else if RE_ECDSA_ADDRESS address \<and> 50 < length address \<and> length address < 60 then True
      else if RE_ECDSA_ADDRESS address \<and> 30 < length address \<and> length address < 50 then True
      else versioned_signer X address \<noteq> None)"

definition address_is_rsa :: "pystr \<Rightarrow> bool" where
  "address_is_rsa address = RE_RSA_ADDRESS address"

definition is_single_sig_ecdsa :: "pystr \<Rightarrow> bool" where
  "is_single_sig_ecdsa address \<longleftrightarrow> RE_ECDSA_ADDRESS address \<and> length address \<le> 50"

definition is_single_sig_ed25519 :: "pystr \<Rightarrow> bool" where
  "is_single_sig_ed25519 address \<longleftrightarrow> RE_ECDSA_ADDRESS address \<and> 50 < length address"

section \<open>The formats are disjoint\<close>

lemma re_match_Cons:
  "re_match (p # ps) cls m n s \<Longrightarrow> \<exists>t. s = p # t"
  by (cases s) (auto simp: re_match_def Let_def split: if_splits)

lemma re_match_take:
  assumes "re_match pre cls m n s"
  shows "take (length pre) s = pre"
proof -
  define t where "t = (if s \<noteq> [] \<and> last s = 10 then butlast s else s)"
  have "prefix t s" by (simp add: t_def prefixeq_butlast)
  moreover have "prefix pre t" using assms by (simp add: re_match_def t_def Let_def)
  ultimately have "prefix pre s" by (rule prefix_order.trans [rotated])
  then show ?thesis by (auto simp: prefix_def)
qed

lemma re_match_hex_hd: "re_match [] is_hex_lower m n s \<Longrightarrow> 0 < m \<Longrightarrow> \<exists>c t. s = c # t \<and> is_hex_lower c"
  by (cases s; cases "tl s") (auto simp: re_match_def Let_def list_all_iff split: if_splits)

lemma formats_disjoint:
  "RE_RSA_ADDRESS a \<Longrightarrow> \<not> RE_MULTISIG_ADDRESS a"
  "RE_RSA_ADDRESS a \<Longrightarrow> \<not> RE_ECDSA_ADDRESS a"
  "RE_MULTISIG_ADDRESS a \<Longrightarrow> \<not> RE_ECDSA_ADDRESS a"
proof -
  have rsa: "\<not> re_match (p # ps) cls m n a" if "RE_RSA_ADDRESS a" "\<not> is_hex_lower p" for p ps cls m n
    using re_match_hex_hd [of 56 56 a] re_match_Cons [of p ps cls m n a] that
    by (auto simp: RE_RSA_ADDRESS_def)
  show "RE_RSA_ADDRESS a \<Longrightarrow> \<not> RE_MULTISIG_ADDRESS a"
    by (simp add: RE_MULTISIG_ADDRESS_def lit_def is_hex_lower_def rsa)
  show "RE_RSA_ADDRESS a \<Longrightarrow> \<not> RE_ECDSA_ADDRESS a"
    by (simp add: RE_ECDSA_ADDRESS_def lit_def is_hex_lower_def rsa)
  show "RE_MULTISIG_ADDRESS a \<Longrightarrow> \<not> RE_ECDSA_ADDRESS a"
    using re_match_take [of "lit ''Bism''"] re_match_take [of "lit ''mBis''"] re_match_take [of "lit ''Bis1''"]
    by (fastforce simp: RE_MULTISIG_ADDRESS_def RE_ECDSA_ADDRESS_def lit_def)
qed

lemma ecdsa_length:
  assumes "RE_ECDSA_ADDRESS a"
  shows "32 \<le> length a" "length a \<le> 57"
proof -
  define t where "t = (if a \<noteq> [] \<and> last a = 10 then butlast a else a)"
  have "length t \<le> length a" "length a \<le> length t + 1" by (auto simp: t_def)
  moreover have "prefix (lit ''Bis1'') t" "28 \<le> length (drop 4 t)" "length (drop 4 t) \<le> 52"
    using assms by (auto simp: RE_ECDSA_ADDRESS_def re_match_def t_def Let_def lit_def)
  ultimately show "32 \<le> length a" "length a \<le> 57" by auto
qed

lemma versioned_signer_class:
  "versioned_signer X a = Some sc \<Longrightarrow> sc \<in> set VERSIONED_SIGNERS"
  by (auto simp: versioned_signer_def find_Some_iff split: option.splits if_splits)

lemma versioned_not_textual:
  "versioned_signer X a \<noteq> Some SignerRSA" "versioned_signer X a \<noteq> Some SignerECDSA"
  "versioned_signer X a \<noteq> Some SignerED25519" "versioned_signer X a \<noteq> Some SignerMultisig"
  using versioned_signer_class [of X a] by (auto simp: VERSIONED_SIGNERS_def)

lemma re_match_newline:
  assumes "re_match pre cls m n s" and "last s \<noteq> 10"
  shows "re_match pre cls m n (s @ [10])"
  using assms by (cases "s = []") (auto simp: re_match_def Let_def)


definition wit_ext :: addr_ext where
  "wit_ext = \<lparr>b58decode = (\<lambda>s. Some (map byte_of s)), b58encode = map unat, can_load = (\<lambda>_. True)\<rparr>"


text \<open>
  C29: the address patterns end in \<^verbatim>\<open>$\<close>, which also matches in front of a final newline: a
  secp256k1 address with a newline appended is a different string and is accepted as a valid address too.
\<close>

theorem address_newline_accepted:
  assumes "RE_ECDSA_ADDRESS a" and "last a \<noteq> 10" and "length a < 49"
  shows "address_is_valid X a \<and> address_is_valid X (a @ [10]) \<and> a @ [10] \<noteq> a"
proof -
  have "RE_ECDSA_ADDRESS (a @ [10])" using assms re_match_newline by (simp add: RE_ECDSA_ADDRESS_def)
  then show ?thesis using assms ecdsa_length(1) [OF assms(1)] by (simp add: address_is_valid_def)
qed

theorem address_newline_accepted_witness:
  "address_is_valid wit_ext (lit ''Bis1QPHnuhewgvS7XARKzhzTp3F1PH3ehWhVn'' @ [10])"
proof -
  have "RE_ECDSA_ADDRESS (lit ''Bis1QPHnuhewgvS7XARKzhzTp3F1PH3ehWhVn'')" by code_simp
  from address_newline_accepted [OF this, of wit_ext] show ?thesis by (simp add: lit_def)
qed

end
