(* ===== verification/Base64.thy ===== *)
theory Base64
  imports PyText
begin

text \<open>
  Python's \<^verbatim>\<open>base64.b64encode\<close> and \<^verbatim>\<open>base64.b64decode\<close>.  Decoding is the non-validating
  mode the program uses: characters outside the alphabet are skipped, decoding stops at a
  complete padding, and an incomplete final group raises (None).
\<close>

definition b64_char :: "nat \<Rightarrow> nat" where
  "b64_char v =
     (if v < 26 then 65 + v else if v < 52 then 71 + v else if v < 62 then v - 4
      else if v = 62 then 43 else 47)"

definition b64_val :: "nat \<Rightarrow> nat option" where
  "b64_val c =
     (if 65 \<le> c \<and> c \<le> 90 then Some (c - 65)
      else if 97 \<le> c \<and> c \<le> 122 then Some (c - 71)
      else if 48 \<le> c \<and> c \<le> 57 then Some (c + 4)
      else if c = 43 then Some 62
      else if c = 47 then Some 63
      else None)"

fun b64encode :: "bytes \<Rightarrow> pystr" where
  "b64encode [] = []"
| "b64encode [a] = [b64_char (unat a div 4), b64_char (unat a mod 4 * 16), 61, 61]"
| "b64encode [a, b] =
     [b64_char (unat a div 4), b64_char (unat a mod 4 * 16 + unat b div 16),
      b64_char (unat b mod 16 * 4), 61]"
| "b64encode (a # b # c # r) =
     b64_char (unat a div 4) # b64_char (unat a mod 4 * 16 + unat b div 16) #
     b64_char (unat b mod 16 * 4 + unat c div 64) # b64_char (unat c mod 64) # b64encode r"

fun a2b_base64 :: "nat \<Rightarrow> nat \<Rightarrow> nat \<Rightarrow> pystr \<Rightarrow> bytes option" where
  "a2b_base64 q left pads [] = (if q = 0 then Some [] else None)"
| "a2b_base64 q left pads (ch # cs) =
     (if ch = 61 then
        (if 2 \<le> q \<and> 4 \<le> q + (pads + 1) then Some []
         else a2b_base64 q left (if 2 \<le> q then pads + 1 else pads) cs)
      else case b64_val ch of
        None \<Rightarrow> a2b_base64 q left pads cs
      | Some v \<Rightarrow>
          if q = 0 then a2b_base64 1 v 0 cs
          else if q = 1 then
            do { r \<leftarrow> a2b_base64 2 (v mod 16) 0 cs; Some (byte_of (left * 4 + v div 16) # r) }
          else if q = 2 then
            do { r \<leftarrow> a2b_base64 3 (v mod 4) 0 cs; Some (byte_of (left * 16 + v div 4) # r) }
          else do { r \<leftarrow> a2b_base64 0 0 0 cs; Some (byte_of (left * 64 + v) # r) })"

definition b64decode :: "pystr \<Rightarrow> bytes option" where
  "b64decode s = (if list_all (\<lambda>c. c < 128) s then a2b_base64 0 0 0 s else None)"

lemma b64_val_char: "v < 64 \<Longrightarrow> b64_val (b64_char v) = Some v"
  by (auto simp: b64_val_def b64_char_def)

lemma b64_char_not_pad: "v < 64 \<Longrightarrow> b64_char v \<noteq> 61"
  by (auto simp: b64_char_def)

lemma b64_char_ascii: "v < 64 \<Longrightarrow> b64_char v < 128"
  by (auto simp: b64_char_def)

lemma a2b_char:
  "v < 64 \<Longrightarrow> a2b_base64 q left pads (b64_char v # cs) =
     (if q = 0 then a2b_base64 1 v 0 cs
      else if q = 1 then
        do { r \<leftarrow> a2b_base64 2 (v mod 16) 0 cs; Some (byte_of (left * 4 + v div 16) # r) }
      else if q = 2 then
        do { r \<leftarrow> a2b_base64 3 (v mod 4) 0 cs; Some (byte_of (left * 16 + v div 4) # r) }
      else do { r \<leftarrow> a2b_base64 0 0 0 cs; Some (byte_of (left * 64 + v) # r) })"
  by (simp add: b64_val_char b64_char_not_pad)

lemma byte_div_less:
  "unat (a :: byte) div 4 < 64" "unat a div 16 < 16" "unat a div 64 < 4"
  using unat_byte_less [of a] by (simp_all add: less_mult_imp_div_less del: unat_byte_less)

lemma b64_sextets:
  "unat (a :: byte) mod 4 * 16 < 64" "unat (a :: byte) mod 4 * 16 + unat (b :: byte) div 16 < 64"
  "unat b mod 16 * 4 < 64" "unat b mod 16 * 4 + unat (c :: byte) div 64 < 64" "unat c mod 64 < 64"
proof -
  have "unat a mod 4 < 4" "unat b mod 16 < 16" "unat c mod 64 < 64" by simp_all
  then show "unat a mod 4 * 16 < 64" "unat a mod 4 * 16 + unat b div 16 < 64"
    "unat b mod 16 * 4 < 64" "unat b mod 16 * 4 + unat c div 64 < 64" "unat c mod 64 < 64"
    using byte_div_less(2) [of b] byte_div_less(3) [of c] by linarith+
qed

lemma b64_join:
  "byte_of (unat a div 4 * 4 + (unat a mod 4 * 16 + unat b div 16) div 16) = a"
  "byte_of (unat a div 4 * 4 + unat a mod 4 * 16 div 16) = a"
  "byte_of ((unat a mod 4 * 16 + unat b div 16) mod 16 * 16 + (unat b mod 16 * 4 + unat c div 64) div 4) = b"
  "byte_of ((unat a mod 4 * 16 + unat b div 16) mod 16 * 16 + unat b mod 16 * 4 div 4) = b"
  "byte_of ((unat b mod 16 * 4 + unat c div 64) mod 4 * 64 + unat c mod 64) = c"
proof -
  have b: "(unat a mod 4 * 16 + unat b div 16) div 16 = unat a mod 4"
    "(unat a mod 4 * 16 + unat b div 16) mod 16 = unat b div 16"
    using byte_div_less(2) [of b] by simp_all
  have c: "(unat b mod 16 * 4 + unat c div 64) div 4 = unat b mod 16"
    "(unat b mod 16 * 4 + unat c div 64) mod 4 = unat c div 64"
    using byte_div_less(3) [of c] by simp_all
  show "byte_of (unat a div 4 * 4 + (unat a mod 4 * 16 + unat b div 16) div 16) = a"
    "byte_of (unat a div 4 * 4 + unat a mod 4 * 16 div 16) = a"
    "byte_of ((unat a mod 4 * 16 + unat b div 16) mod 16 * 16 + (unat b mod 16 * 4 + unat c div 64) div 4) = b"
    "byte_of ((unat a mod 4 * 16 + unat b div 16) mod 16 * 16 + unat b mod 16 * 4 div 4) = b"
    "byte_of ((unat b mod 16 * 4 + unat c div 64) mod 4 * 64 + unat c mod 64) = c"
    by (simp_all only: b c div_mult_mod_eq byte_of_unat nonzero_mult_div_cancel_right zero_neq_numeral
        simp_thms)
qed

lemma a2b_b64encode: "a2b_base64 0 0 0 (b64encode bs) = Some bs"
proof (induction bs rule: b64encode.induct)
  case (2 a)
  show ?case
    by (simp add: a2b_char byte_div_less b64_sextets b64_join del: a2b_base64.simps(2))
      (simp add: a2b_char)
next
  case (3 a b)
  show ?case
    by (simp add: a2b_char byte_div_less b64_sextets b64_join del: a2b_base64.simps(2))
      (simp add: a2b_char)
next
  case (4 a b c r)
  then show ?case
    by (simp add: a2b_char byte_div_less b64_sextets b64_join del: a2b_base64.simps(2))
qed simp

lemma b64encode_ascii: "c \<in> set (b64encode bs) \<Longrightarrow> c < 128"
  by (induction bs rule: b64encode.induct) (auto simp: b64_char_ascii byte_div_less b64_sextets)

lemma b64decode_b64encode [codec_simps]: "b64decode (b64encode bs) = Some bs"
  by (simp add: b64decode_def list_all_iff b64encode_ascii a2b_b64encode)

end
