(* ===== verification/WireCodec.thy ===== *)
theory WireCodec
  imports PyText
begin

text \<open>
  The contract of the self-delimiting field codecs of \<^verbatim>\<open>txfields.py\<close>, \<^verbatim>\<open>sigbytes.py\<close>,
  \<^verbatim>\<open>addrbytes.py\<close>, \<^verbatim>\<open>txrec.py\<close> and \<^verbatim>\<open>sync_codec.py\<close>: an encoder that may raise and a decoder that reads
  at an index of a buffer and returns the value with the next index.  The law is that decoding
  at the start of an encoding returns the value, up to the normalisation the codec applies, and
  stops exactly behind it.  Consequences proved once here: encodings are prefix free, the
  encoder is injective up to normalisation, and a counted sequence is read back whole.
\<close>

text \<open>The loop \<^verbatim>\<open>for _ in range(n): x, i = dec(buf, i); out.append(x)\<close>.\<close>

fun read_n :: "(bytes \<Rightarrow> nat \<Rightarrow> ('a \<times> nat) option) \<Rightarrow> nat \<Rightarrow> bytes \<Rightarrow> nat \<Rightarrow> ('a list \<times> nat) option" where
  "read_n dec 0 buf i = Some ([], i)"
| "read_n dec (Suc n) buf i =
     do { (x, j) \<leftarrow> dec buf i; (xs, k) \<leftarrow> read_n dec n buf j; Some (x # xs, k) }"

lemma drop_advance: "drop i buf = b @ post \<Longrightarrow> drop (i + length b) buf = post"
  by (metis add.commute append_eq_conv_conj drop_drop)

lemma drop_append_length:
  assumes "drop i buf = b @ post" and "b \<noteq> []"
  shows "i + length b \<le> length buf"
proof -
  have "length buf - i = length b + length post" using assms(1) by (metis length_append length_drop)
  with assms(2) show ?thesis by (cases b) auto
qed

locale wire_codec =
  fixes enc :: "'a \<Rightarrow> bytes option"
    and dec :: "bytes \<Rightarrow> nat \<Rightarrow> ('b \<times> nat) option"
    and norm :: "'a \<Rightarrow> 'b"
  assumes dec_enc: "enc x = Some b \<Longrightarrow> drop i buf = b @ post \<Longrightarrow> dec buf i = Some (norm x, i + length b)"
begin

lemma dec_enc_whole: "enc x = Some b \<Longrightarrow> dec b 0 = Some (norm x, length b)"
  using dec_enc [of x b 0 b "[]"] by simp

lemma dec_enc_append: "enc x = Some b \<Longrightarrow> dec (b @ r) 0 = Some (norm x, length b)"
  using dec_enc [of x b 0 "b @ r" r] by simp

lemma prefix_free:
  assumes "enc x = Some b" "enc y = Some c" "b @ r = c @ s"
  shows "norm x = norm y \<and> b = c \<and> r = s"
  using dec_enc_append [OF assms(1), of r] dec_enc_append [OF assms(2), of s] assms(3)
  by (auto simp: append_eq_append_conv)

lemma enc_inject: "enc x = Some b \<Longrightarrow> enc y = Some b \<Longrightarrow> norm x = norm y"
  using prefix_free [of x b y b "[]" "[]"] by simp

lemma read_n_enc:
  "mapM_opt enc xs = Some bs \<Longrightarrow> drop i buf = concat bs @ post \<Longrightarrow>
     read_n dec (length xs) buf i = Some (map norm xs, i + length (concat bs))"
proof (induction xs arbitrary: bs i)
  case (Cons x xs)
  then obtain b cs where b: "enc x = Some b" and cs: "mapM_opt enc xs = Some cs" "bs = b # cs"
    by (auto elim!: bind_SomeE)
  have d: "drop i buf = b @ concat cs @ post" using Cons.prems(2) cs by simp
  then show ?case
    using dec_enc [OF b d] Cons.IH [OF cs(1) drop_advance [OF d]] cs by simp
qed simp

end

end
