(* ===== verification/SigBytes.thy ===== *)
theory SigBytes
  imports SignerFactory Base64 WireCodec
begin

text \<open>
  \<^verbatim>\<open>sigbytes.py\<close>: the tagged binary form of a transaction signature (scheme tag, u16 length, raw
  bytes).  A signature whose text is not the canonical encoding of its bytes is kept verbatim.
\<close>

abbreviation (input) "SIG_TAG_OPAQUE \<equiv> 0 :: byte"
abbreviation (input) "SIG_TAG_RSA \<equiv> 1 :: byte"
abbreviation (input) "SIG_TAG_ECDSA \<equiv> 2 :: byte"
abbreviation (input) "SIG_TAG_ED25519 \<equiv> 3 :: byte"
abbreviation (input) "SIG_TAG_SECP256R1 \<equiv> 4 :: byte"
abbreviation (input) "SIG_TAG_MLDSA44 \<equiv> 5 :: byte"
abbreviation (input) "SIG_TAG_MLDSA65 \<equiv> 6 :: byte"
abbreviation (input) "SIG_TAG_MLDSA87 \<equiv> 7 :: byte"
abbreviation (input) "SIG_TAG_MULTISIG \<equiv> 8 :: byte"
abbreviation (input) "SIG_TAG_RECOVERABLE \<equiv> 64 :: byte"

definition sig_decode :: "byte \<Rightarrow> pystr \<Rightarrow> bytes option" where
  "sig_decode tag wire =
     (if tag = SIG_TAG_OPAQUE then utf8_encode wire
      else if tag = SIG_TAG_RECOVERABLE then fromhex wire
      else b64decode wire)"

definition sig_encode :: "byte \<Rightarrow> bytes \<Rightarrow> pystr option" where
  "sig_encode tag raw =
     (if tag = SIG_TAG_OPAQUE then utf8_decode raw
      else if tag = SIG_TAG_RECOVERABLE then Some (bytes_hex raw)
      else Some (b64encode raw))"

definition pack_signature :: "byte \<Rightarrow> bytes \<Rightarrow> bytes option" where
  "pack_signature tag raw =
     (if 65535 < length raw then None else Some (tag # le_bytes 2 (length raw) @ raw))"

definition unpack_signature :: "bytes \<Rightarrow> (byte \<times> bytes) option" where
  "unpack_signature blob =
     (if length blob < 3 then None
      else let n = le_nat (take 2 (drop 1 blob)); raw = take n (drop 3 blob) in
           if length raw \<noteq> n then None else Some (hd blob, raw))"

definition looks_recoverable_hex :: "pystr \<Rightarrow> bool" where
  "looks_recoverable_hex s \<longleftrightarrow> length s = 130 \<and> map_option bytes_hex (fromhex s) = Some s"

fun sig_class_tag :: "signer_class option \<Rightarrow> byte" where
  "sig_class_tag (Some SignerSECP256R1) = SIG_TAG_SECP256R1"
| "sig_class_tag (Some SignerMLDSA44) = SIG_TAG_MLDSA44"
| "sig_class_tag (Some SignerMLDSA65) = SIG_TAG_MLDSA65"
| "sig_class_tag (Some SignerMLDSA87) = SIG_TAG_MLDSA87"
| "sig_class_tag _ = SIG_TAG_OPAQUE"

definition tag_for_address :: "addr_ext \<Rightarrow> pystr \<Rightarrow> pystr \<Rightarrow> byte" where
  "tag_for_address X a sig =
     (if RE_RSA_ADDRESS a then SIG_TAG_RSA
      else if RE_MULTISIG_ADDRESS a then SIG_TAG_MULTISIG
      else if RE_ECDSA_ADDRESS a then
        (if 50 < length a then SIG_TAG_ED25519
         else if looks_recoverable_hex sig then SIG_TAG_RECOVERABLE else SIG_TAG_ECDSA)
      else sig_class_tag (versioned_signer X a))"

definition pack_from_wire :: "addr_ext \<Rightarrow> pystr \<Rightarrow> pystr \<Rightarrow> bytes option" where
  "pack_from_wire X s address =
     (let tag = tag_for_address X address s;
          checked = (if tag = SIG_TAG_OPAQUE then None
                     else case sig_decode tag s of
                       Some raw \<Rightarrow> if sig_encode tag raw = Some s then Some raw else None
                     | None \<Rightarrow> None)
      in case checked of
           Some raw \<Rightarrow> pack_signature tag raw
         | None \<Rightarrow> do { raw \<leftarrow> utf8_encode s; pack_signature SIG_TAG_OPAQUE raw })"

definition to_wire :: "bytes \<Rightarrow> pystr option" where
  "to_wire blob = do { (tag, raw) \<leftarrow> unpack_signature blob; sig_encode tag raw }"

lemma unpack_pack_signature [codec_simps]:
  assumes "pack_signature tag raw = Some b"
  shows "unpack_signature b = Some (tag, raw)"
  using assms
  by (auto simp: pack_signature_def unpack_signature_def le_nat_le_bytes numeral_3_eq_3 Let_def split: if_splits)

lemma pack_signature_length:
  "pack_signature tag raw = Some b \<Longrightarrow> length b = 3 + length raw \<and> le_nat (take 2 (drop 1 b)) = length raw"
  by (auto simp: pack_signature_def le_nat_le_bytes split: if_splits)

lemma pack_from_wire_cases:
  assumes "pack_from_wire X s a = Some b"
  obtains tag raw where "pack_signature tag raw = Some b" and "sig_encode tag raw = Some s"
  using assms
  by (auto simp: pack_from_wire_def Let_def sig_encode_def [of 0] utf8_decode_encode
      split: option.splits if_splits elim!: bind_SomeE)

lemma to_wire_pack_from_wire [codec_simps]:
  "pack_from_wire X s a = Some b \<Longrightarrow> to_wire b = Some s"
  by (erule pack_from_wire_cases) (simp add: to_wire_def unpack_pack_signature)

text \<open>How \<^verbatim>\<open>txrec.unpack_row\<close> and \<^verbatim>\<open>sync_codec._decode_tx\<close> read a signature inside a buffer.\<close>

definition read_sig :: "bytes \<Rightarrow> nat \<Rightarrow> (pystr \<times> nat) option" where
  "read_sig buf i =
     (if length buf < i + 3 then None
      else let slen = le_nat (take 2 (drop (i + 1) buf)) in
           do { s \<leftarrow> to_wire (take (3 + slen) (drop i buf)); Some (s, i + 3 + slen) })"

interpretation sig: wire_codec "\<lambda>(s, a). pack_from_wire X s a" read_sig fst for X
proof
  fix x b i buf post
  assume e: "(case x of (s, a) \<Rightarrow> pack_from_wire X s a) = Some b" and d: "drop i buf = b @ post"
  obtain s a where x: "x = (s, a)" by (cases x)
  with e obtain tag raw where p: "pack_signature tag raw = Some b" "pack_from_wire X s a = Some b"
    by (auto elim: pack_from_wire_cases)
  note len = pack_signature_length [OF p(1)]
  then have "i + length b \<le> length buf" using drop_append_length [OF d] by fastforce
  moreover have "drop (i + 1) buf = drop 1 b @ post"
  proof -
    have "drop (i + 1) buf = drop 1 (drop i buf)" by (simp add: drop_drop add.commute)
    then show ?thesis using len by (simp add: d)
  qed
  ultimately show "read_sig buf i = Some (fst x, i + length b)"
    using len d to_wire_pack_from_wire [OF p(2)] by (simp add: read_sig_def x)
qed

end
