(* ===== verification/Decimals.thy ===== *)
theory Decimals
  imports PyText
begin

text \<open>
  Python's \<^verbatim>\<open>decimal.Decimal\<close> under the default context (28 significant digits, half-even
  rounding), as far as the money code uses it, and on top of it \<^verbatim>\<open>quantizer.py\<close> and
  \<^verbatim>\<open>amounts.py\<close>: amounts in text form and amounts as integer atomic units.

  A finite decimal is its sign, coefficient and exponent.  An operation that signals
  InvalidOperation or DivisionByZero returns None.  The exponent limits of the context
  (plus or minus 999999) are not modelled.
\<close>

section \<open>Decimal arithmetic\<close>

datatype decimal = Fin bool nat int | Inf bool | QNaN | SNaN

definition prec :: nat where "prec = 28"

definition ndigits :: "nat \<Rightarrow> nat" where
  "ndigits c = length (nat_str c)"

text \<open>Division rounded half to even.\<close>

definition rhe :: "nat \<Rightarrow> nat \<Rightarrow> nat" where
  "rhe c d = (let q = c div d; r = c mod d in
     if d < 2 * r \<or> 2 * r = d \<and> odd q then q + 1 else q)"

definition dfix :: "bool \<Rightarrow> nat \<Rightarrow> int \<Rightarrow> decimal" where
  "dfix s c e =
     (if ndigits c \<le> prec then Fin s c e
      else let k = ndigits c - prec; c' = rhe c (10 ^ k) in
           if c' = 10 ^ prec then Fin s (10 ^ (prec - 1)) (e + int k + 1) else Fin s c' (e + int k))"

definition rescale :: "nat \<Rightarrow> int \<Rightarrow> int \<Rightarrow> nat" where
  "rescale c e q = (if q \<le> e then c * 10 ^ nat (e - q) else rhe c (10 ^ nat (q - e)))"

fun dquantize :: "decimal \<Rightarrow> int \<Rightarrow> decimal option" where
  "dquantize (Fin s c e) q =
     (let c' = rescale c e q in if ndigits c' \<le> prec then Some (Fin s c' q) else None)"
| "dquantize (Inf s) q = None"
| "dquantize QNaN q = Some QNaN"
| "dquantize SNaN q = None"

fun dmul :: "decimal \<Rightarrow> decimal \<Rightarrow> decimal option" where
  "dmul (Fin s c e) (Fin t d f) = Some (dfix (s \<noteq> t) (c * d) (e + f))"
| "dmul a b = (if a = SNaN \<or> b = SNaN then None else if a = QNaN \<or> b = QNaN then Some QNaN else
     (case (a, b) of
        (Inf s, Inf t) \<Rightarrow> Some (Inf (s \<noteq> t))
      | (Inf s, Fin t d f) \<Rightarrow> if d = 0 then None else Some (Inf (s \<noteq> t))
      | (Fin s c e, Inf t) \<Rightarrow> if c = 0 then None else Some (Inf (s \<noteq> t))
      | _ \<Rightarrow> None))"

definition dsigned :: "bool \<Rightarrow> nat \<Rightarrow> int" where
  "dsigned s c = (if s then - int c else int c)"

fun dadd :: "decimal \<Rightarrow> decimal \<Rightarrow> decimal option" where
  "dadd (Fin s c e) (Fin t d f) =
     (let q = min e f;
          v = dsigned s (c * 10 ^ nat (e - q)) + dsigned t (d * 10 ^ nat (f - q))
      in Some (dfix (v < 0 \<or> v = 0 \<and> s \<and> t) (nat \<bar>v\<bar>) q))"
| "dadd a b = (if a = SNaN \<or> b = SNaN then None else if a = QNaN \<or> b = QNaN then Some QNaN else
     (case (a, b) of
        (Inf s, Inf t) \<Rightarrow> if s = t then Some (Inf s) else None
      | (Inf s, Fin t d f) \<Rightarrow> Some (Inf s)
      | (Fin s c e, Inf t) \<Rightarrow> Some (Inf t)
      | _ \<Rightarrow> None))"

fun dneg :: "decimal \<Rightarrow> decimal" where
  "dneg (Fin s c e) = Fin (\<not> s) c e"
| "dneg (Inf s) = Inf (\<not> s)"
| "dneg d = d"

definition dsub :: "decimal \<Rightarrow> decimal \<Rightarrow> decimal option" where
  "dsub a b = dadd a (dneg b)"

text \<open>Division of finite decimals: a quotient of \<^term>\<open>prec + 1\<close> or more digits with a sticky last
  digit when it is inexact, trailing zeros removed towards the ideal exponent when exact.\<close>

fun strip_zeros :: "nat \<Rightarrow> nat \<Rightarrow> nat \<times> nat" where
  "strip_zeros 0 c = (c, 0)"
| "strip_zeros (Suc k) c =
     (if c mod 10 = 0 then (let (c', j) = strip_zeros k (c div 10) in (c', Suc j)) else (c, 0))"

definition ddiv_fin :: "bool \<Rightarrow> nat \<Rightarrow> int \<Rightarrow> bool \<Rightarrow> nat \<Rightarrow> int \<Rightarrow> decimal option" where
  "ddiv_fin s c e t d f =
     (if d = 0 then None
      else if c = 0 then Some (dfix (s \<noteq> t) 0 (e - f))
      else let shift = int (ndigits d) - int (ndigits c) + int prec + 1;
               ex = e - f - shift;
               n = (if 0 \<le> shift then c * 10 ^ nat shift else c);
               m = (if 0 \<le> shift then d else d * 10 ^ nat (- shift));
               q = n div m
           in if n mod m \<noteq> 0 then Some (dfix (s \<noteq> t) (if q mod 5 = 0 then q + 1 else q) ex)
              else let (q', j) = strip_zeros (nat shift) q in Some (dfix (s \<noteq> t) q' (ex + int j)))"

fun ddiv :: "decimal \<Rightarrow> decimal \<Rightarrow> decimal option" where
  "ddiv (Fin s c e) (Fin t d f) = ddiv_fin s c e t d f"
| "ddiv a b = (if a = SNaN \<or> b = SNaN then None else if a = QNaN \<or> b = QNaN then Some QNaN else
     (case (a, b) of
        (Inf s, Fin t d f) \<Rightarrow> Some (Inf (s \<noteq> t))
      | (Fin s c e, Inf t) \<Rightarrow> Some (Fin (s \<noteq> t) 0 0)
      | _ \<Rightarrow> None))"

text \<open>Ordered comparison raises on a NaN.\<close>

fun dless :: "decimal \<Rightarrow> decimal \<Rightarrow> bool option" where
  "dless (Fin s c e) (Fin t d f) =
     (let q = min e f in
      Some (dsigned s (c * 10 ^ nat (e - q)) < dsigned t (d * 10 ^ nat (f - q))))"
| "dless a b = (if a = SNaN \<or> b = SNaN \<or> a = QNaN \<or> b = QNaN then None else
     (case (a, b) of
        (Inf s, Inf t) \<Rightarrow> Some (s \<and> \<not> t)
      | (Inf s, _) \<Rightarrow> Some s
      | (_, Inf t) \<Rightarrow> Some (\<not> t)
      | _ \<Rightarrow> None))"

text \<open>\<^verbatim>\<open>d.to_integral_value()\<close> and \<^verbatim>\<open>int(d)\<close>.\<close>

fun to_integral_value :: "decimal \<Rightarrow> decimal option" where
  "to_integral_value (Fin s c e) =
     Some (if 0 \<le> e then Fin s c e else Fin s (rhe c (10 ^ nat (- e))) 0)"
| "to_integral_value (Inf s) = Some (Inf s)"
| "to_integral_value QNaN = Some QNaN"
| "to_integral_value SNaN = None"

fun dec_int :: "decimal \<Rightarrow> int option" where
  "dec_int (Fin s c e) =
     Some (dsigned s (if 0 \<le> e then c * 10 ^ nat e else c div 10 ^ nat (- e)))"
| "dec_int _ = None"

section \<open>Parsing\<close>

definition to_lower_ascii :: "pystr \<Rightarrow> pystr" where
  "to_lower_ascii s = map (\<lambda>c. if 65 \<le> c \<and> c \<le> 90 then c + 32 else c) s"

definition dec_special :: "bool \<Rightarrow> pystr \<Rightarrow> decimal option" where
  "dec_special s r =
     (let l = to_lower_ascii r in
      if l = lit ''inf'' \<or> l = lit ''infinity'' then Some (Inf s)
      else if take 3 l = lit ''nan'' \<and> list_all is_digit (drop 3 l) then Some QNaN
      else if take 4 l = lit ''snan'' \<and> list_all is_digit (drop 4 l) then Some SNaN
      else None)"

text \<open>The exponent part: empty, or \<^verbatim>\<open>e\<close>, an optional sign and digits.\<close>

definition dec_exponent :: "pystr \<Rightarrow> int option" where
  "dec_exponent r =
     (case r of
        [] \<Rightarrow> Some 0
      | c # t \<Rightarrow>
          if c = 101 \<or> c = 69 then
            (let neg = (t \<noteq> [] \<and> hd t = 45);
                 ds = (if t \<noteq> [] \<and> (hd t = 45 \<or> hd t = 43) then tl t else t)
             in if ds \<noteq> [] \<and> list_all is_digit ds then Some (dsigned neg (digs ds)) else None)
          else None)"

definition dec_numeral :: "bool \<Rightarrow> pystr \<Rightarrow> decimal option" where
  "dec_numeral s r =
     (let ip = takeWhile is_digit r;
          r1 = dropWhile is_digit r;
          dot = (r1 \<noteq> [] \<and> hd r1 = 46);
          fp = (if dot then takeWhile is_digit (tl r1) else []);
          r2 = (if dot then dropWhile is_digit (tl r1) else r1)
      in if ip = [] \<and> fp = [] then None
         else do { x \<leftarrow> dec_exponent r2; Some (Fin s (digs (ip @ fp)) (x - int (length fp))) })"

definition dec_parse :: "pystr \<Rightarrow> decimal option" where
  "dec_parse s =
     (let t = filter (\<lambda>c. c \<noteq> 95) (py_strip s);
          neg = (t \<noteq> [] \<and> hd t = 45);
          r = (if t \<noteq> [] \<and> (hd t = 45 \<or> hd t = 43) then tl t else t)
      in case dec_special neg r of Some d \<Rightarrow> Some d | None \<Rightarrow> dec_numeral neg r)"

text \<open>The Python objects that reach \<^verbatim>\<open>Decimal(...)\<close>.  A finite float is the rational it denotes.\<close>

datatype pyval = PNone | PBool bool | PInt int | PFloat rat | PStr pystr | PDec decimal

fun falsy :: "pyval \<Rightarrow> bool" where
  "falsy PNone = True"
| "falsy (PBool b) = (\<not> b)"
| "falsy (PInt i) = (i = 0)"
| "falsy (PFloat r) = (r = 0)"
| "falsy (PStr s) = (s = [])"
| "falsy (PDec d) = (case d of Fin s c e \<Rightarrow> c = 0 | _ \<Rightarrow> False)"

fun pow2_exp :: "nat \<Rightarrow> nat" where
  "pow2_exp n = (if n \<le> 1 then 0 else Suc (pow2_exp (n div 2)))"

definition float_dec :: "rat \<Rightarrow> decimal" where
  "float_dec r = (let (p, q) = quotient_of r; k = pow2_exp (nat q) in
     Fin (p < 0) (nat \<bar>p\<bar> * 5 ^ k) (- int k))"

fun py_Decimal :: "pyval \<Rightarrow> decimal option" where
  "py_Decimal PNone = None"
| "py_Decimal (PBool b) = Some (Fin False (if b then 1 else 0) 0)"
| "py_Decimal (PInt i) = Some (Fin (i < 0) (nat \<bar>i\<bar>) 0)"
| "py_Decimal (PFloat r) = Some (float_dec r)"
| "py_Decimal (PStr s) = dec_parse s"
| "py_Decimal (PDec d) = Some d"

section \<open>Evaluation\<close>

text \<open>Trailing zeros are stripped sixteen and four at a time when a concrete quotient is evaluated.\<close>

lemma strip_zeros_power: "strip_zeros (m + k) (10 ^ m * c) = (case strip_zeros k c of (c', j) \<Rightarrow> (c', j + m))"
  by (induction m) (simp_all add: mult.assoc split: prod.split)

lemma strip_zeros_jump:
  assumes "m \<le> k" and "c mod 10 ^ m = 0"
  shows "strip_zeros k c = (case strip_zeros (k - m) (c div 10 ^ m) of (c', j) \<Rightarrow> (c', j + m))"
  using strip_zeros_power [of m "k - m" "c div 10 ^ m"] assms by (simp add: mod_0_imp_dvd)

lemma strip_zeros_code [code]:
  "strip_zeros k c =
     (if k = 0 then (c, 0)
      else if 16 \<le> k \<and> c mod 10 ^ 16 = 0 then (case strip_zeros (k - 16) (c div 10 ^ 16) of (c', j) \<Rightarrow> (c', j + 16))
      else if 4 \<le> k \<and> c mod 10 ^ 4 = 0 then (case strip_zeros (k - 4) (c div 10 ^ 4) of (c', j) \<Rightarrow> (c', j + 4))
      else if c mod 10 = 0 then (case strip_zeros (k - 1) (c div 10) of (c', j) \<Rightarrow> (c', j + 1)) else (c, 0))"
proof -
  have "strip_zeros k c = (if c mod 10 = 0 then (case strip_zeros (k - 1) (c div 10) of (c', j) \<Rightarrow> (c', j + 1)) else (c, 0))" if "k \<noteq> 0"
    using that by (cases k) simp_all
  then show ?thesis using strip_zeros_jump [of 16 k c] strip_zeros_jump [of 4 k c] by auto
qed

end
