(* ===== verification/Amounts.thy ===== *)
theory Amounts
  imports Decimals
begin

text \<open>
  \<^verbatim>\<open>quantizer.py\<close> (rounding to a fixed number of decimals) and \<^verbatim>\<open>amounts.py\<close> (amounts as
  text and as integer atomic units).  The storage mode \<^verbatim>\<open>LEDGER_INTEGER\<close>, a module flag the
  node sets at startup, is the argument \<^term>\<open>li\<close>.
\<close>

section \<open>quantizer.py\<close>

definition quantize_dp :: "nat \<Rightarrow> pyval \<Rightarrow> decimal option" where
  "quantize_dp n value =
     (if falsy value then Some (Fin False 0 (- int n))
      else do { d \<leftarrow> py_Decimal value; dquantize d (- int n) })"

definition quantize_two :: "pyval \<Rightarrow> decimal option" where
  "quantize_two value = quantize_dp 2 value"

definition quantize_eight :: "pyval \<Rightarrow> decimal option" where
  "quantize_eight value = quantize_dp 8 value"

definition quantize_ten :: "pyval \<Rightarrow> decimal option" where
  "quantize_ten value = quantize_dp 10 value"

section \<open>amounts.py\<close>

definition SATOSHIS_PER_BIS :: nat where
  "SATOSHIS_PER_BIS = 10 ^ 8"

text \<open>\<^verbatim>\<open>int((q * m).to_integral_value())\<close> for an integer \<^verbatim>\<open>m\<close>.\<close>

definition scaled_int :: "decimal \<Rightarrow> nat \<Rightarrow> int option" where
  "scaled_int q m = do { p \<leftarrow> dmul q (Fin False m 0); t \<leftarrow> to_integral_value p; dec_int t }"

definition to_units :: "pyval \<Rightarrow> int option" where
  "to_units amount = do { q \<leftarrow> quantize_eight amount; scaled_int q SATOSHIS_PER_BIS }"

definition from_units :: "int \<Rightarrow> pystr" where
  "from_units units =
     (let sign = (if units < 0 then [45] else []); u = nat \<bar>units\<bar> in
      sign @ nat_str (u div SATOSHIS_PER_BIS) @ 46 # zero_pad 8 (u mod SATOSHIS_PER_BIS))"

definition to_decimal :: "int \<Rightarrow> decimal option" where
  "to_decimal units =
     do { d \<leftarrow> ddiv (Fin (units < 0) (nat \<bar>units\<bar>) 0) (Fin False SATOSHIS_PER_BIS 0);
          quantize_eight (PDec d) }"

text \<open>\<^verbatim>\<open>int(raw or 0)\<close> of a stored column value.\<close>

fun val_int :: "pyval \<Rightarrow> int option" where
  "val_int (PInt i) = Some i"
| "val_int (PBool b) = Some (if b then 1 else 0)"
| "val_int (PStr s) = py_int s"
| "val_int (PFloat r) = Some (if 0 \<le> r then \<lfloor>r\<rfloor> else \<lceil>r\<rceil>)"
| "val_int (PDec d) = dec_int d"
| "val_int PNone = None"

definition ledger_value :: "bool \<Rightarrow> pyval \<Rightarrow> decimal option" where
  "ledger_value li raw =
     (if li then do { u \<leftarrow> (if falsy raw then Some 0 else val_int raw); to_decimal u }
      else quantize_eight raw)"

definition consensus_amount :: "bool \<Rightarrow> pyval \<Rightarrow> pyval option" where
  "consensus_amount li value =
     (if li then do { u \<leftarrow> val_int value; Some (PStr (from_units u)) } else Some value)"

section \<open>Digits and rounding\<close>

lemma ndigits_le_iff: "0 < k \<Longrightarrow> ndigits c \<le> k \<longleftrightarrow> c < 10 ^ k"
proof
  have bound: "digs s < 10 ^ length s" if "\<forall>x\<in>set s. is_digit x" for s
    using that
  proof (induction s rule: rev_induct)
    case (snoc x s)
    then show ?case by (auto simp: digs_append is_digit_def) (simp add: digs_def)
  qed (simp add: digs_def)
  assume "0 < k" "ndigits c \<le> k"
  then have "c < 10 ^ ndigits c"
    using bound [of "nat_str c"] by (simp add: ndigits_def nat_str_digits)
  also have "\<dots> \<le> 10 ^ k" using \<open>ndigits c \<le> k\<close> by (simp add: power_increasing)
  finally show "c < 10 ^ k" .
qed (simp add: ndigits_def length_nat_str_le)

lemma prec_pos: "0 < prec"
  by (simp add: prec_def)

lemma ndigits_mult_power: "0 < c \<Longrightarrow> ndigits (c * 10 ^ k) = ndigits c + k"
proof (induction k)
  case (Suc k)
  have "nat_str (n * 10) = nat_str n @ [48]" if "0 < n" for n
    using that by (subst nat_str.simps) simp
  from this [of "c * 10 ^ k"] Suc show ?case by (simp add: ndigits_def mult_ac)
qed simp

lemma rhe_exact [simp]: "0 < d \<Longrightarrow> rhe (c * d) d = c"
  by (simp add: rhe_def)

lemma rhe_one [simp]: "rhe c (Suc 0) = c"
  by (simp add: rhe_def)

text \<open>The rounded quotient is a nearest integer.\<close>

lemma rhe_nearest:
  assumes "0 < d"
  shows "2 * \<bar>int c - int d * int (rhe c d)\<bar> \<le> int d"
proof -
  define q r where "q = c div d" and "r = c mod d"
  have c: "int c = int d * int q + int r" by (simp add: q_def r_def flip: of_nat_mult of_nat_add)
  have r: "r < d" using assms by (simp add: r_def)
  show ?thesis
  proof (cases "d < 2 * r \<or> 2 * r = d \<and> odd q")
    case True
    then have "rhe c d = q + 1" by (simp add: rhe_def q_def r_def Let_def)
    then show ?thesis using True r c by (auto simp: algebra_simps)
  next
    case False
    then have "rhe c d = q" by (simp add: rhe_def q_def r_def Let_def)
    then show ?thesis using False c by auto
  qed
qed

lemma rescale_same [simp]: "rescale c e e = c"
  by (simp add: rescale_def)

lemma dfix_power:
  assumes "c < 10 ^ prec" and "j \<le> prec"
  shows "\<exists>i\<le>j. dfix s (c * 10 ^ j) e = Fin s (c * 10 ^ i) (e + int (j - i))"
proof (cases "ndigits (c * 10 ^ j) \<le> prec")
  case True
  then show ?thesis by (intro exI [of _ j]) (simp add: dfix_def)
next
  case False
  define k where "k = ndigits (c * 10 ^ j) - prec"
  have "ndigits 0 = 1" by (simp add: ndigits_def nat_str.simps)
  with False have c: "0 < c" by (cases c) (auto simp: prec_def)
  have nd: "ndigits c \<le> prec" using assms(1) by (simp add: ndigits_le_iff prec_pos)
  then have k: "k \<le> j" "ndigits c + j = prec + k"
    using False c by (simp_all add: k_def ndigits_mult_power)
  then have "c * 10 ^ j = c * 10 ^ (j - k) * 10 ^ k" by (simp flip: power_add)
  then have r: "rhe (c * 10 ^ j) (10 ^ k) = c * 10 ^ (j - k)" by (simp only: rhe_exact zero_less_power zero_less_numeral)
  have "ndigits (c * 10 ^ (j - k)) = prec" using c k by (simp add: ndigits_mult_power)
  then have "c * 10 ^ (j - k) < 10 ^ prec" using ndigits_le_iff [of prec "c * 10 ^ (j - k)"] prec_pos by simp
  then have "dfix s (c * 10 ^ j) e = Fin s (c * 10 ^ (j - k)) (e + int k)"
    using False r by (simp add: dfix_def Let_def flip: k_def)
  then show ?thesis using k by (intro exI [of _ "j - k"]) simp
qed

text \<open>Scaling a quantized decimal to an integer is exact.\<close>

lemma scaled_int_exact:
  assumes "c < 10 ^ prec" and "j \<le> prec"
  shows "scaled_int (Fin s c (- int j)) (10 ^ j) = Some (dsigned s c)"
proof -
  obtain i where i: "i \<le> j" "dfix s (c * 10 ^ j) (- int j) = Fin s (c * 10 ^ i) (- int i)"
    using dfix_power [OF assms, of s "- int j"] by (auto simp: of_nat_diff)
  show ?thesis using i by (cases "i = 0") (simp_all add: scaled_int_def)
qed

lemma dquantize_Fin_iff:
  "dquantize (Fin s c e) q = Some d \<longleftrightarrow> d = Fin s (rescale c e q) q \<and> rescale c e q < 10 ^ prec"
  by (auto simp: ndigits_le_iff prec_def Let_def)

lemma quantize_dp_cases:
  assumes "quantize_dp n v = Some d"
  obtains (fin) s c where "d = Fin s c (- int n)" and "c < 10 ^ prec" | (nan) "d = QNaN"
proof (cases "falsy v")
  case True
  then show ?thesis using assms that(1) [of False 0] by (simp add: quantize_dp_def prec_def)
next
  case False
  then obtain x where x: "py_Decimal v = Some x" "dquantize x (- int n) = Some d"
    using assms by (auto simp: quantize_dp_def elim!: bind_SomeE)
  then show ?thesis
    using that by (cases x) (auto simp: dquantize_Fin_iff simp del: dquantize.simps(1))
qed

lemma to_units_bounded:
  assumes "to_units v = Some u"
  shows "\<bar>u\<bar> < 10 ^ 28"
proof -
  obtain q where q: "quantize_dp 8 v = Some q" and u: "scaled_int q (10 ^ 8) = Some u"
    using assms by (auto simp: to_units_def quantize_eight_def SATOSHIS_PER_BIS_def elim!: bind_SomeE)
  from q show ?thesis
  proof (cases rule: quantize_dp_cases)
    case (fin s c)
    then have "u = dsigned s c" using u scaled_int_exact [of c 8 s] by (simp add: prec_def)
    moreover have "int c < int (10 ^ prec)" using fin by (simp only: of_nat_less_iff)
    then have "int c < 10 ^ 28" by (simp add: prec_def)
    ultimately show ?thesis by (auto simp: dsigned_def)
  next
    case nan
    then show ?thesis using u by (simp add: scaled_int_def)
  qed
qed

section \<open>Text form and atomic units\<close>

lemma dec_special_digit: "is_digit c \<Longrightarrow> dec_special s (c # r) = None"
  by (auto simp: dec_special_def to_lower_ascii_def lit_def is_digit_def Let_def take_Cons')

lemma dec_numeral_fixed:
  assumes "ds \<noteq> []" "\<forall>c\<in>set ds. is_digit c" "\<forall>c\<in>set fs. is_digit c"
  shows "dec_numeral s (ds @ 46 # fs) = Some (Fin s (digs ds * 10 ^ length fs + digs fs) (- int (length fs)))"
proof -
  have "\<not> is_digit 46" by (simp add: is_digit_def)
  then have "takeWhile is_digit (ds @ 46 # fs) = ds" "dropWhile is_digit (ds @ 46 # fs) = 46 # fs"
    using assms(2) by (simp_all add: takeWhile_append2 dropWhile_append2)
  moreover have fs: "takeWhile is_digit fs = fs" "dropWhile is_digit fs = []"
    using assms(3) by auto
  ultimately show ?thesis
    using assms(1) by (simp add: dec_numeral_def dec_exponent_def digs_append fs Let_def)
qed

lemma dec_parse_fixed:
  assumes "ds \<noteq> []" "\<forall>c\<in>set ds. is_digit c" "fs \<noteq> []" "\<forall>c\<in>set fs. is_digit c"
  shows "dec_parse ((if s then [45] else []) @ ds @ 46 # fs) =
    Some (Fin s (digs ds * 10 ^ length fs + digs fs) (- int (length fs)))"
proof -
  let ?t = "(if s then [45] else []) @ ds @ 46 # fs"
  obtain d ds' where ds: "ds = d # ds'" using assms(1) by (cases ds) auto
  then have d: "is_digit d" "d \<noteq> 45" "d \<noteq> 43" using assms(2) by (auto simp: is_digit_def)
  have "\<not> uni_space (hd ?t)" "\<not> uni_space (last ?t)"
    using d assms(3,4) by (auto simp: ds digit_not_space uni_space_def [of 45])
  then have "py_strip ?t = ?t" by (intro py_strip_id) simp
  moreover have "filter (\<lambda>c. c \<noteq> 95) ?t = ?t"
    using assms(2,4) by (intro filter_True) (auto simp: is_digit_def)
  moreover have "dec_special s (ds @ 46 # fs) = None" using d by (simp add: ds dec_special_digit)
  ultimately show ?thesis
    using d dec_numeral_fixed [OF assms(1,2,4), of s] by (auto simp: dec_parse_def ds)
qed

lemma from_units_parse:
  "dec_parse (from_units u) = Some (Fin (u < 0) (nat \<bar>u\<bar>) (- 8))"
proof -
  have "length (zero_pad 8 (n mod SATOSHIS_PER_BIS)) = 8" for n
    by (intro length_zero_pad) (simp_all add: SATOSHIS_PER_BIS_def)
  then have "dec_parse (from_units u) =
      Some (Fin (u < 0) (nat \<bar>u\<bar> div SATOSHIS_PER_BIS * 10 ^ 8 + nat \<bar>u\<bar> mod SATOSHIS_PER_BIS) (- 8))"
    using dec_parse_fixed [of "nat_str (nat \<bar>u\<bar> div SATOSHIS_PER_BIS)"
        "zero_pad 8 (nat \<bar>u\<bar> mod SATOSHIS_PER_BIS)" "u < 0"]
    by (auto simp: from_units_def Let_def nat_str_digits zero_pad_digits)
  then show ?thesis by (simp only: SATOSHIS_PER_BIS_def div_mult_mod_eq)
qed

lemma from_units_nonempty [simp]: "from_units u \<noteq> []"
  by (simp add: from_units_def Let_def)

lemma to_units_Fin:
  assumes "\<not> falsy v" and "py_Decimal v = Some (Fin s c e)" and "rescale c e (- 8) < 10 ^ prec"
  shows "to_units v = Some (dsigned s (rescale c e (- 8)))"
proof -
  have "dquantize (Fin s c e) (- 8) = Some (Fin s (rescale c e (- 8)) (- 8))"
    using assms(3) by (simp only: dquantize_Fin_iff simp_thms)
  then show ?thesis
    using assms(1,2) scaled_int_exact [OF assms(3), of 8 s]
    by (simp add: to_units_def quantize_eight_def quantize_dp_def SATOSHIS_PER_BIS_def prec_def
        del: dquantize.simps)
qed

lemma to_units_from_units [codec_simps]:
  assumes "\<bar>u\<bar> < 10 ^ 28"
  shows "to_units (PStr (from_units u)) = Some u"
proof -
  have "nat \<bar>u\<bar> < 10 ^ prec" using assms by (simp add: prec_def nat_less_iff)
  then show ?thesis
    by (subst to_units_Fin [where s = "u < 0" and c = "nat \<bar>u\<bar>" and e = "- 8"])
      (auto simp: from_units_parse dsigned_def)
qed

lemma from_units_inject: "from_units u = from_units v \<Longrightarrow> u = v"
proof -
  assume "from_units u = from_units v"
  then have "(u < 0) = (v < 0)" "nat \<bar>u\<bar> = nat \<bar>v\<bar>"
    using from_units_parse [of u] from_units_parse [of v] by simp_all
  then show "u = v" by (auto split: if_splits)
qed

section \<open>Evaluation\<close>

text \<open>The number of digits by comparison with powers of ten, which needs no division.\<close>

function digits_from :: "nat \<Rightarrow> nat \<Rightarrow> nat \<Rightarrow> nat" where
  "digits_from k p c = (if c < p \<or> p = 0 then k else digits_from (Suc k) (10 * p) c)"
  by pat_completeness auto
termination
  by (relation "measure (\<lambda>(k, p, c). c + 1 - p)") auto

lemma digits_from_ndigits: "1 \<le> k \<Longrightarrow> k = 1 \<or> 10 ^ (k - 1) \<le> c \<Longrightarrow> p = 10 ^ k \<Longrightarrow> digits_from k p c = ndigits c"
proof (induction k p c rule: digits_from.induct)
  case (1 k p c)
  have n: "ndigits c \<le> j \<longleftrightarrow> c < 10 ^ j" if "1 \<le> j" for j using ndigits_le_iff [of j c] that by simp
  show ?case
  proof (cases "c < p")
    case True
    then have "ndigits c \<le> k" using n [of k] "1.prems" by simp
    moreover have "k \<le> ndigits c"
    proof (cases "k = 1")
      case False
      then have "\<not> ndigits c \<le> k - 1" using n [of "k - 1"] "1.prems" by simp
      then show ?thesis by simp
    qed (simp add: ndigits_def Suc_le_eq)
    ultimately show ?thesis using True by (subst digits_from.simps) simp
  next
    case False
    then show ?thesis using "1.IH" "1.prems" by (subst digits_from.simps) auto
  qed
qed

lemma ndigits_code [code]: "ndigits c = digits_from 1 10 c"
  by (rule digits_from_ndigits [symmetric]) simp_all

end
