(* ===== verification/TxFields.thy ===== *)
theory TxFields
  imports WireCodec Amounts
begin

text \<open>
  \<^verbatim>\<open>txfields.py\<close>: the unsigned LEB128 varint, and the timestamp and money fields of a stored
  transaction row as varints of centiseconds and of atomic units.
\<close>

unbundle bit_operations_syntax

section \<open>Varints\<close>

lemma and_127: "n AND 127 = n mod (128 :: nat)"
proof -
  have "take_bit 7 n = n AND mask 7" by (rule take_bit_eq_mask)
  then show ?thesis by (simp add: take_bit_eq_mod mask_eq_exp_minus_1)
qed

function uv_loop :: "nat \<Rightarrow> bytes" where
  "uv_loop n =
     (let b = n AND 127; m = drop_bit 7 n in
      if m \<noteq> 0 then byte_of (b OR 128) # uv_loop m else [byte_of b])"
  by pat_completeness auto
termination by (relation "measure id") (auto simp: drop_bit_eq_div)

definition uvarint_encode :: "int \<Rightarrow> bytes option" where
  "uvarint_encode n = (if n < 0 then None else Some (uv_loop (nat n)))"

function ud_loop :: "bytes \<Rightarrow> nat \<Rightarrow> nat \<Rightarrow> nat \<Rightarrow> (nat \<times> nat) option" where
  "ud_loop buf i shift result =
     (if length buf \<le> i then None
      else let b = unat (buf ! i);
               result' = result OR push_bit shift (b AND 127)
           in if b AND 128 = 0 then Some (result', i + 1)
              else ud_loop buf (i + 1) (shift + 7) result')"
  by pat_completeness auto
termination by (relation "measure (\<lambda>(buf, i, _). length buf - i)") auto

definition uvarint_decode :: "bytes \<Rightarrow> nat \<Rightarrow> (nat \<times> nat) option" where
  "uvarint_decode buf i =
     do { (result, j) \<leftarrow> ud_loop buf i 0 0;
          if 1 < j - i \<and> buf ! (j - 1) = 0 then None else Some (result, j) }"

declare uv_loop.simps [simp del] ud_loop.simps [simp del]

lemma or_push_bit:
  fixes r :: nat
  assumes "r < 2 ^ k"
  shows "r OR push_bit k x = r + x * 2 ^ k"
proof -
  have r: "take_bit k r = r" using assms by (simp add: take_bit_nat_eq_self)
  have "take_bit k r + push_bit k x = take_bit k r OR push_bit k x"
    by (rule disjunctive_add) (auto simp: bit_simps)
  then show ?thesis by (simp add: r push_bit_eq_mult)
qed

lemma or_128: "b < 128 \<Longrightarrow> b OR 128 = b + (128 :: nat)"
  using or_push_bit [of b 7 1] by (simp add: push_bit_eq_mult)

lemma and_128_eq_0: "b < 256 \<Longrightarrow> b AND 128 = 0 \<longleftrightarrow> b < (128 :: nat)"
proof -
  assume "b < 256"
  have "b AND 128 = 0 \<longleftrightarrow> \<not> bit b 7"
    using and_exp_eq_0_iff_not_bit [of b 7] by simp
  also have "\<dots> \<longleftrightarrow> even (b div 128)" by (simp add: bit_iff_odd)
  also have "\<dots> \<longleftrightarrow> b < 128"
  proof (cases "b < 128")
    case False
    then have "b div 128 = 1" using \<open>b < 256\<close> by (intro div_nat_eqI) auto
    then show ?thesis using False by simp
  qed simp
  finally show ?thesis .
qed

text \<open>The two loops in arithmetic form.\<close>

lemma uv_loop_eq:
  "uv_loop n = (if n < 128 then [byte_of n] else byte_of (n mod 128 + 128) # uv_loop (n div 128))"
  by (subst uv_loop.simps) (auto simp: Let_def and_127 or_128 drop_bit_eq_div)

lemma ud_loop_eq:
  assumes "r < 2 ^ s"
  shows "ud_loop buf i s r =
    (if length buf \<le> i then None
     else let b = unat (buf ! i) in
          if b < 128 then Some (r + b * 2 ^ s, i + 1)
          else ud_loop buf (i + 1) (s + 7) (r + (b - 128) * 2 ^ s))"
proof -
  have b: "unat (buf ! i) AND 127 =
      (if unat (buf ! i) < 128 then unat (buf ! i) else unat (buf ! i) - 128)"
    using unat_byte_less [of "buf ! i"] by (simp add: and_127 mod_if del: unat_byte_less)
  show ?thesis
    by (subst ud_loop.simps) (auto simp: Let_def and_128_eq_0 or_push_bit [OF assms] b simp del: push_bit_and)
qed

lemma uv_loop_nonempty [simp]: "uv_loop n \<noteq> []"
  by (subst uv_loop_eq) simp

lemma acc_bound:
  fixes r b :: nat
  assumes "r < 2 ^ s" and "b < 128"
  shows "r + b * 2 ^ s < 2 ^ (s + 7)"
proof -
  have "(b + 1) * 2 ^ s \<le> 128 * 2 ^ s" using assms(2) by (intro mult_le_mono1) simp
  then have "b * 2 ^ s + 2 ^ s \<le> 128 * 2 ^ s" by (simp only: add_mult_distrib nat_mult_1)
  moreover have "2 ^ (s + 7) = 128 * (2 :: nat) ^ s" by (simp add: power_add)
  ultimately show ?thesis using assms(1) by linarith
qed

lemma ud_loop_uv_loop:
  "drop i buf = uv_loop n @ post \<Longrightarrow> r < 2 ^ s \<Longrightarrow>
     ud_loop buf i s r = Some (r + n * 2 ^ s, i + length (uv_loop n))"
proof (induction n arbitrary: i s r rule: less_induct)
  case (less n)
  have len: "i + length (uv_loop n) \<le> length buf"
    using drop_append_length [OF less.prems(1)] by simp
  have "0 < length (uv_loop n)" by simp
  with len have i: "i < length buf" by linarith
  have hd: "buf ! i = hd (uv_loop n)" and tl: "drop (i + 1) buf = tl (uv_loop n) @ post"
    using less.prems(1) by (simp_all add: hd_drop_conv_nth [OF i, symmetric] drop_Suc tl_drop [symmetric])
  show ?case
  proof (cases "n < 128")
    case True
    then have u: "uv_loop n = [byte_of n]" by (subst uv_loop_eq) simp
    then have "unat (buf ! i) = n" using True hd by simp
    then show ?thesis using True i u by (subst ud_loop_eq [OF less.prems(2)]) simp
  next
    case False
    then have u: "uv_loop n = byte_of (n mod 128 + 128) # uv_loop (n div 128)"
      by (subst uv_loop_eq) simp
    have "n mod 128 < 128" by simp
    then have "n mod 128 + 128 < 256" by linarith
    then have b: "unat (buf ! i) = n mod 128 + 128" by (simp add: hd u)
    have "ud_loop buf i s r = ud_loop buf (i + 1) (s + 7) (r + n mod 128 * 2 ^ s)"
      using i b by (subst ud_loop_eq [OF less.prems(2)]) simp
    also have "\<dots> = Some (r + n mod 128 * 2 ^ s + n div 128 * 2 ^ (s + 7), i + 1 + length (uv_loop (n div 128)))"
      using False less.prems(2) tl u by (intro less.IH) (auto intro!: acc_bound)
    also have "r + n mod 128 * 2 ^ s + n div 128 * 2 ^ (s + 7) = r + n * 2 ^ s"
    proof -
      have "n * 2 ^ s = (n mod 128 + n div 128 * 128) * 2 ^ s" by simp
      then show ?thesis by (simp only: power_add add_mult_distrib) simp
    qed
    finally show ?thesis by (simp add: u)
  qed
qed

lemma last_uv_loop: "128 \<le> n \<Longrightarrow> last (uv_loop n) \<noteq> 0"
proof (induction n rule: less_induct)
  case (less n)
  define m where "m = n div 128"
  have m: "0 < m" "m < n" using less.prems by (auto simp: m_def div_greater_zero_iff)
  have l: "last (uv_loop n) = last (uv_loop m)"
    using less.prems by (subst uv_loop_eq) (simp add: m_def)
  show ?case
  proof (cases "m < 128")
    case True
    then have "last (uv_loop m) = byte_of m" by (subst uv_loop_eq) simp
    moreover have "unat (byte_of m) \<noteq> 0" using m True by simp
    ultimately show ?thesis using l by (metis unat_0)
  next
    case False
    then show ?thesis using less.IH [OF m(2)] l by simp
  qed
qed

lemma length_uv_loop_1: "n < 128 \<Longrightarrow> length (uv_loop n) = 1"
  by (subst uv_loop_eq) simp

interpretation uv: wire_codec uvarint_encode uvarint_decode nat
proof
  fix x b i buf post
  assume e: "uvarint_encode x = Some b" and d: "drop i buf = b @ post"
  then have b: "b = uv_loop (nat x)" by (auto simp: uvarint_encode_def split: if_splits)
  have l: "ud_loop buf i 0 0 = Some (nat x, i + length b)"
    using ud_loop_uv_loop [of i buf "nat x" post 0 0] d b by simp
  have "buf ! (i + length b - 1) = last b"
  proof -
    have "drop i buf ! (length b - 1) = last b" using d b by (simp add: nth_append last_conv_nth)
    moreover have "b \<noteq> []" using b by simp
    then have "i + length b - 1 = i + (length b - 1)" by (cases b) auto
    ultimately show ?thesis using drop_append_length [OF d \<open>b \<noteq> []\<close>] by simp
  qed
  moreover have "1 < length b \<Longrightarrow> last b \<noteq> 0"
    using b last_uv_loop [of "nat x"] length_uv_loop_1 [of "nat x"] by fastforce
  ultimately show "uvarint_decode buf i = Some (nat x, i + length b)"
    by (auto simp: uvarint_decode_def l)
qed

text \<open>Conversely, what the decoder accepts is the encoding of the value it returns.\<close>

lemma ud_loop_inverse:
  "ud_loop buf i s r = Some (v, j) \<Longrightarrow> r < 2 ^ s \<Longrightarrow>
     i < j \<and> j \<le> length buf \<and>
     (\<exists>m. v = r + m * 2 ^ s \<and> (j = i + 1 \<or> buf ! (j - 1) \<noteq> 0 \<longrightarrow> take (j - i) (drop i buf) = uv_loop m))"
proof (induction buf i s r rule: ud_loop.induct)
  case (1 buf i s r)
  define b where "b = unat (buf ! i)"
  have bi: "byte_of b = buf ! i" by (simp add: b_def)
  have i: "i < length buf" using 1(2) by (subst (asm) ud_loop.simps) (simp split: if_splits)
  have b256: "b < 256" by (simp add: b_def)
  show ?case
  proof (cases "b < 128")
    case True
    then have "v = r + b * 2 ^ s" "j = i + 1"
      using 1(2) i by (simp_all add: ud_loop_eq [OF 1(3)] b_def)
    moreover have "uv_loop b = [buf ! i]" using True bi by (subst uv_loop_eq) simp
    ultimately show ?thesis using i by (auto simp: take_Suc hd_drop_conv_nth intro!: exI [of _ b])
  next
    case False
    define x where "x = b - 128"
    have x: "x < 128" "b = x + 128" using False b256 by (auto simp: x_def)
    have rec: "ud_loop buf (i + 1) (s + 7) (r + x * 2 ^ s) = Some (v, j)"
      using 1(2) i False by (simp add: ud_loop_eq [OF 1(3)] b_def x_def)
    have "r OR push_bit s (b AND 127) = r + x * 2 ^ s"
      using x by (simp add: or_push_bit [OF 1(3)] and_127 del: push_bit_and)
    then have "i + 1 < j \<and> j \<le> length buf \<and> (\<exists>m. v = r + x * 2 ^ s + m * 2 ^ (s + 7) \<and>
        (j = i + 1 + 1 \<or> buf ! (j - 1) \<noteq> 0 \<longrightarrow> take (j - (i + 1)) (drop (i + 1) buf) = uv_loop m))"
      using 1(1) i False b256 rec acc_bound [OF 1(3) x(1)]
      by (simp add: and_128_eq_0 b_def [symmetric] del: push_bit_and)
    then obtain m where j: "i + 1 < j" "j \<le> length buf" and v: "v = r + x * 2 ^ s + m * 2 ^ (s + 7)"
      and m: "j = i + 1 + 1 \<or> buf ! (j - 1) \<noteq> 0 \<longrightarrow> take (j - (i + 1)) (drop (i + 1) buf) = uv_loop m"
      by blast
    have "take (j - i) (drop i buf) = uv_loop (x + 128 * m)" if nz: "buf ! (j - 1) \<noteq> 0"
    proof -
      have L: "take (j - (i + 1)) (drop (i + 1) buf) = uv_loop m" using m nz by blast
      have "last (take (j - (i + 1)) (drop (i + 1) buf)) = buf ! (j - 1)"
        using j le_Suc_ex [of "i + 2" j] by (subst last_conv_nth) auto
      then have "last (uv_loop m) \<noteq> 0" using L nz by simp
      moreover have "last (uv_loop 0) = 0" by (subst uv_loop_eq) (simp add: byte_of_def)
      ultimately have "m \<noteq> 0" by metis
      then have "uv_loop (x + 128 * m) = byte_of (x + 128) # uv_loop m"
        using x by (subst uv_loop_eq) simp
      moreover have "take (j - i) (drop i buf) = buf ! i # take (j - (i + 1)) (drop (i + 1) buf)"
        using i j by (simp add: Cons_nth_drop_Suc [symmetric] take_Cons' )
      ultimately show ?thesis using L bi x by simp
    qed
    moreover have "v = r + (x + 128 * m) * 2 ^ s" by (simp add: v power_add add_mult_distrib)
    ultimately show ?thesis using j by auto
  qed
qed

lemma uvarint_decode_canonical:
  assumes "uvarint_decode buf i = Some (n, j)"
  shows "i < j" "j \<le> length buf" "uvarint_encode (int n) = Some (take (j - i) (drop i buf))"
proof -
  have u: "ud_loop buf i 0 0 = Some (n, j)" and nz: "\<not> (1 < j - i \<and> buf ! (j - 1) = 0)"
    using assms by (auto simp: uvarint_decode_def split: if_splits elim!: bind_SomeE)
  note inv = ud_loop_inverse [OF u]
  then show "i < j" "j \<le> length buf" by simp_all
  then have "j = i + 1 \<or> buf ! (j - 1) \<noteq> 0" using nz by linarith
  then have "take (j - i) (drop i buf) = uv_loop n" using inv by simp
  then show "uvarint_encode (int n) = Some (take (j - i) (drop i buf))"
    by (simp add: uvarint_encode_def)
qed

section \<open>Timestamp and money fields\<close>

text \<open>\<^verbatim>\<open>int((Decimal(str(ts)).quantize(Decimal("0.01")) * 100).to_integral_value())\<close>.\<close>

definition centiseconds :: "pystr \<Rightarrow> int option" where
  "centiseconds ts = do { d \<leftarrow> dec_parse ts; q \<leftarrow> dquantize d (- 2); scaled_int q 100 }"

definition pack_timestamp :: "pystr \<Rightarrow> bytes option" where
  "pack_timestamp ts = do { cs \<leftarrow> centiseconds ts; uvarint_encode cs }"

definition ts_str :: "nat \<Rightarrow> pystr" where
  "ts_str cs = nat_str (cs div 100) @ 46 # zero_pad 2 (cs mod 100)"

definition unpack_timestamp :: "bytes \<Rightarrow> pystr option" where
  "unpack_timestamp blob = do { (cs, _) \<leftarrow> uvarint_decode blob 0; Some (ts_str cs) }"

definition num_units :: "bool \<Rightarrow> pystr \<Rightarrow> int option" where
  "num_units li value = (if li then py_int value else to_units (PStr value))"

definition num_str :: "bool \<Rightarrow> int \<Rightarrow> pystr" where
  "num_str li u = (if li then int_str u else from_units u)"

definition pack_num :: "bool \<Rightarrow> pystr \<Rightarrow> bytes option" where
  "pack_num li value = do { units \<leftarrow> num_units li value; uvarint_encode units }"

definition unpack_num :: "bool \<Rightarrow> bytes \<Rightarrow> pystr option" where
  "unpack_num li blob = do { (units, _) \<leftarrow> uvarint_decode blob 0; Some (num_str li (int units)) }"

lemma num_units_num_str [codec_simps]:
  "\<bar>u\<bar> < 10 ^ 28 \<Longrightarrow> num_units li (num_str li u) = Some u"
  by (simp add: num_units_def num_str_def to_units_from_units py_int_int_str)

lemma dec_parse_ts_str: "dec_parse (ts_str cs) = Some (Fin False cs (- 2))"
proof -
  have len: "length (zero_pad 2 (cs mod 100)) = 2" by (intro length_zero_pad) simp_all
  have "dec_parse (ts_str cs) = Some (Fin False (cs div 100 * 100 + cs mod 100) (- 2))"
    using dec_parse_fixed [of "nat_str (cs div 100)" "zero_pad 2 (cs mod 100)" False] len
    by (auto simp: ts_str_def nat_str_digits zero_pad_digits)
  then show ?thesis by (simp only: div_mult_mod_eq)
qed

lemma centiseconds_ts_str [codec_simps]:
  assumes "cs < 10 ^ 28"
  shows "centiseconds (ts_str cs) = Some (int cs)"
proof -
  note p = dec_parse_ts_str [of cs]
  have c: "cs < 10 ^ prec" using assms by (simp add: prec_def)
  then have "dquantize (Fin False cs (- 2)) (- 2) = Some (Fin False cs (- 2))"
    by (simp only: dquantize_Fin_iff rescale_same simp_thms)
  then show ?thesis
    using p scaled_int_exact [OF c, of 2 False]
    by (simp add: centiseconds_def dsigned_def prec_def del: dquantize.simps)
qed

text \<open>The text the fields read back as: centiseconds with two decimals, units in canonical form.\<close>

definition canon_ts :: "pystr \<Rightarrow> pystr" where
  "canon_ts ts = ts_str (nat (the (centiseconds ts)))"

definition canon_num :: "bool \<Rightarrow> pystr \<Rightarrow> pystr" where
  "canon_num li value = num_str li (the (num_units li value))"

lemma uvarint_encode_Some_iff: "uvarint_encode n = Some b \<longleftrightarrow> 0 \<le> n \<and> b = uv_loop (nat n)"
  by (auto simp: uvarint_encode_def)

lemma pack_timestamp_uv:
  assumes "pack_timestamp ts = Some b"
  obtains cs where "uvarint_encode (int cs) = Some b" and "canon_ts ts = ts_str cs"
  using assms that [of "nat (the (centiseconds ts))"]
  by (auto simp: pack_timestamp_def canon_ts_def uvarint_encode_Some_iff elim!: bind_SomeE)

lemma pack_num_uv:
  assumes "pack_num li v = Some b"
  obtains u where "uvarint_encode (int u) = Some b" and "canon_num li v = num_str li (int u)"
  using assms that [of "nat (the (num_units li v))"]
  by (auto simp: pack_num_def canon_num_def uvarint_encode_Some_iff elim!: bind_SomeE)

lemma num_units_bounded: "\<not> li \<Longrightarrow> num_units li v = Some u \<Longrightarrow> \<bar>u\<bar> < 10 ^ 28"
  unfolding num_units_def by (metis to_units_bounded)

lemma num_units_canon:
  assumes "num_units li v = Some u"
  shows "num_units li (canon_num li v) = Some u"
proof (cases li)
  case False
  then have "\<bar>u\<bar> < 10 ^ 28" using assms num_units_bounded by blast
  then show ?thesis using assms by (simp add: canon_num_def num_units_num_str)
qed (use assms in \<open>simp add: canon_num_def num_units_def num_str_def py_int_int_str\<close>)

text \<open>
  C21: the varint decoder accepts exactly the encoder's output.  Reading at index i yields value n
  and next index j if and only if the bytes from i up to j are the encoding of n; so
  no two byte strings decode to the same value and no encoding is a prefix of another.
\<close>

theorem uvarint_exact:
  "uvarint_decode buf i = Some (n, j) \<longleftrightarrow>
     i < j \<and> j \<le> length buf \<and> uvarint_encode (int n) = Some (take (j - i) (drop i buf))"
proof
  assume r: "i < j \<and> j \<le> length buf \<and> uvarint_encode (int n) = Some (take (j - i) (drop i buf))"
  have "drop i buf = take (j - i) (drop i buf) @ drop (j - i) (drop i buf)"
    by (rule append_take_drop_id [symmetric])
  then show "uvarint_decode buf i = Some (n, j)" using r uv.dec_enc [of "int n"] by fastforce
qed (use uvarint_decode_canonical in blast)

text \<open>
  C22: a money field that can be stored is read back as canonical text of the same number of
  atomic units, in both storage modes, and storing the text read back gives the same bytes.
\<close>

theorem pack_num_roundtrip:
  assumes "pack_num li v = Some b"
  shows "\<exists>w. unpack_num li b = Some w \<and> num_units li w = num_units li v \<and> pack_num li w = Some b"
proof -
  obtain u where u: "num_units li v = Some u" "uvarint_encode u = Some b"
    using assms by (auto simp: pack_num_def elim!: bind_SomeE)
  have "unpack_num li b = Some (canon_num li v)"
    using uv.dec_enc_whole [OF u(2)] u by (auto simp: unpack_num_def canon_num_def uvarint_encode_Some_iff)
  then show ?thesis using num_units_canon [OF u(1)] u by (auto simp: pack_num_def)
qed

theorem pack_num_roundtrip_witness:
  "pack_num False (lit ''0.5'') \<noteq> None \<and>
   (\<exists>w. unpack_num False (the (pack_num False (lit ''0.5''))) = Some w
      \<and> num_units False w = num_units False (lit ''0.5''))"
proof -
  have b: "pack_num False (lit ''0.5'') = Some [128, 225, 235, 23]" by code_simp
  show ?thesis using pack_num_roundtrip [OF b] b by auto
qed

text \<open>
  C23: a stored timestamp is read back as the canonical two-decimals text of the same
  number of centiseconds; a timestamp already in that form is read back unchanged.
\<close>

theorem pack_timestamp_roundtrip:
  assumes "cs < 10 ^ 28"
  shows "do { b \<leftarrow> pack_timestamp (ts_str cs); unpack_timestamp b } = Some (ts_str cs)"
  using uv.dec_enc_whole [of "int cs" "uv_loop cs"]
  by (simp add: pack_timestamp_def unpack_timestamp_def centiseconds_ts_str [OF assms]
      uvarint_encode_def)

theorem pack_timestamp_roundtrip_witness:
  "ts_str 149324096301 = lit ''1493240963.01'' \<and>
   do { b \<leftarrow> pack_timestamp (ts_str 149324096301); unpack_timestamp b } = Some (lit ''1493240963.01'')"
proof -
  have "ts_str 149324096301 = lit ''1493240963.01''" by code_simp
  then show ?thesis using pack_timestamp_roundtrip [of 149324096301] by simp
qed

end
