(* ===== verification/TxRec.thy ===== *)
theory TxRec
  imports SigBytes TxFields
begin

text \<open>
  \<^verbatim>\<open>txrec.py\<close>: one stored transaction row as a single blob.  A row of the store has eleven fields; the
  address fields are strings on the way in and indices into the block's address table on the way out,
  and the block hash is not part of the blob.
\<close>

record 'a srow =
  s_ts :: pystr
  s_addr :: 'a
  s_recip :: 'a
  s_amount :: pystr
  s_sig :: pystr
  s_pk :: nat
  s_bh :: "pystr option"
  s_fee :: pystr
  s_reward :: pystr
  s_op :: pystr
  s_of :: pystr

section \<open>Length-prefixed fields\<close>

definition lp1 :: "bytes \<Rightarrow> bytes option" where
  "lp1 b = (if 255 < length b then None else Some (byte_of (length b) # b))"

definition lp4 :: "bytes \<Rightarrow> bytes option" where
  "lp4 b = do { n \<leftarrow> to_bytes_le 4 (int (length b)); Some (n @ b) }"

definition rd1 :: "bytes \<Rightarrow> nat \<Rightarrow> (bytes \<times> nat) option" where
  "rd1 buf i =
     (if length buf < i + 1 then None
      else let n = unat (buf ! i) in
           if length buf < i + 1 + n then None else Some (take n (drop (i + 1) buf), i + 1 + n))"

definition rd4 :: "bytes \<Rightarrow> nat \<Rightarrow> (bytes \<times> nat) option" where
  "rd4 buf i =
     (if length buf < i + 4 then None
      else let n = le_nat (take 4 (drop i buf)) in
           if length buf < i + 4 + n then None else Some (take n (drop (i + 4) buf), i + 4 + n))"

lemma drop_split: "drop i buf = b @ post \<Longrightarrow> k \<le> length b \<Longrightarrow> drop (i + k) buf = drop k b @ post"
  by (metis add.commute drop_drop drop_append diff_is_0_eq drop0)

interpretation lp1: wire_codec lp1 rd1 "\<lambda>b. b"
proof
  fix x b i buf post
  assume e: "lp1 x = Some b" and d: "drop i buf = b @ post"
  then have b: "b = byte_of (length x) # x" "length x < 256" by (auto simp: lp1_def split: if_splits)
  have len: "i + length b \<le> length buf" using drop_append_length [OF d] b by simp
  moreover have "buf ! i = byte_of (length x)" using d b len by (simp add: hd_drop_conv_nth [symmetric])
  ultimately show "rd1 buf i = Some (x, i + length b)"
    using b drop_split [OF d, of 1] by (simp add: rd1_def)
qed

interpretation lp4: wire_codec lp4 rd4 "\<lambda>b. b"
proof
  fix x b i buf post
  assume e: "lp4 x = Some b" and d: "drop i buf = b @ post"
  then have b: "b = le_bytes 4 (length x) @ x" "length x < 256 ^ 4"
    by (auto simp: lp4_def to_bytes_le_def elim!: bind_SomeE split: if_splits)
  have nonempty: "b \<noteq> []" using b(1) by (metis append_is_Nil_conv length_0_conv length_le_bytes zero_neq_numeral)
  have len: "i + length b \<le> length buf" using drop_append_length [OF d nonempty] .
  then show "rd4 buf i = Some (x, i + length b)"
    using b drop_split [OF d, of 4] by (simp add: rd4_def d le_nat_le_bytes)
qed

section \<open>Rows\<close>

definition pack_row :: "bool \<Rightarrow> addr_ext \<Rightarrow> pystr srow \<Rightarrow> nat \<Rightarrow> nat \<Rightarrow> bytes option" where
  "pack_row li X t addr_idx recip_idx = do {
     ts \<leftarrow> pack_timestamp (s_ts t);
     ai \<leftarrow> uvarint_encode (int addr_idx);
     ri \<leftarrow> uvarint_encode (int recip_idx);
     amount \<leftarrow> pack_num li (s_amount t);
     sg \<leftarrow> pack_from_wire X (s_sig t) (s_addr t);
     pk \<leftarrow> uvarint_encode (int (s_pk t));
     fee \<leftarrow> pack_num li (s_fee t);
     reward \<leftarrow> pack_num li (s_reward t);
     ob \<leftarrow> utf8_encode (s_op t);
     ol \<leftarrow> lp4 ob;
     fb \<leftarrow> utf8_encode (s_of t);
     fl \<leftarrow> lp4 fb;
     Some (ts @ ai @ ri @ amount @ sg @ pk @ fee @ reward @ ol @ fl) }"

text \<open>\<^verbatim>\<open>unpack_timestamp(_uv(cs))\<close> re-encodes the centiseconds just read.\<close>

definition unpack_row :: "bool \<Rightarrow> bytes \<Rightarrow> nat srow option" where
  "unpack_row li buf = do {
     (cs, i) \<leftarrow> uvarint_decode buf 0;
     csb \<leftarrow> uvarint_encode (int cs);
     timestamp \<leftarrow> unpack_timestamp csb;
     (addr_idx, i) \<leftarrow> uvarint_decode buf i;
     (recip_idx, i) \<leftarrow> uvarint_decode buf i;
     (au, i) \<leftarrow> uvarint_decode buf i;
     (sg, i) \<leftarrow> read_sig buf i;
     (pkid, i) \<leftarrow> uvarint_decode buf i;
     (fu, i) \<leftarrow> uvarint_decode buf i;
     (ru, i) \<leftarrow> uvarint_decode buf i;
     (ob, i) \<leftarrow> rd4 buf i;
     operation \<leftarrow> utf8_decode ob;
     (fb, i) \<leftarrow> rd4 buf i;
     openfield \<leftarrow> utf8_decode fb;
     Some \<lparr>s_ts = timestamp, s_addr = addr_idx, s_recip = recip_idx, s_amount = num_str li (int au),
           s_sig = sg, s_pk = pkid, s_bh = None, s_fee = num_str li (int fu),
           s_reward = num_str li (int ru), s_op = operation, s_of = openfield\<rparr> }"

definition openfield_of :: "bool \<Rightarrow> bytes \<Rightarrow> pystr option" where
  "openfield_of li blob = map_option s_of (unpack_row li blob)"

text \<open>What a row reads back as: the numbers in canonical text, the addresses as indices.\<close>

definition canon_row :: "bool \<Rightarrow> pystr srow \<Rightarrow> nat \<Rightarrow> nat \<Rightarrow> nat srow" where
  "canon_row li t ai ri =
     \<lparr>s_ts = canon_ts (s_ts t), s_addr = ai, s_recip = ri, s_amount = canon_num li (s_amount t),
      s_sig = s_sig t, s_pk = s_pk t, s_bh = None, s_fee = canon_num li (s_fee t),
      s_reward = canon_num li (s_reward t), s_op = s_op t, s_of = s_of t\<rparr>"

lemma unpack_timestamp_uv: "uvarint_encode (int cs) = Some b \<Longrightarrow> unpack_timestamp b = Some (ts_str cs)"
  by (simp add: unpack_timestamp_def uv.dec_enc_whole)

lemma uv_read:
  "uvarint_encode (int n) = Some b \<Longrightarrow> drop i buf = b @ post \<Longrightarrow> uvarint_decode buf i = Some (n, i + length b)"
  using uv.dec_enc [of "int n"] by simp

lemma sig_read:
  "pack_from_wire X s a = Some b \<Longrightarrow> drop i buf = b @ post \<Longrightarrow> read_sig buf i = Some (s, i + length b)"
  using sig.dec_enc [of X "(s, a)"] by simp

lemma unpack_pack_row:
  assumes "pack_row li X t ai ri = Some blob"
  shows "unpack_row li blob = Some (canon_row li t ai ri)"
proof -
  obtain b1 b2 b3 b4 b5 b6 b7 b8 ob b9 fb b10 where p:
    "pack_timestamp (s_ts t) = Some b1" "uvarint_encode (int ai) = Some b2"
    "uvarint_encode (int ri) = Some b3" "pack_num li (s_amount t) = Some b4"
    "pack_from_wire X (s_sig t) (s_addr t) = Some b5" "uvarint_encode (int (s_pk t)) = Some b6"
    "pack_num li (s_fee t) = Some b7" "pack_num li (s_reward t) = Some b8"
    "utf8_encode (s_op t) = Some ob" "lp4 ob = Some b9" "utf8_encode (s_of t) = Some fb" "lp4 fb = Some b10"
    and blob: "blob = b1 @ b2 @ b3 @ b4 @ b5 @ b6 @ b7 @ b8 @ b9 @ b10"
    using assms unfolding pack_row_def by (elim bind_SomeE) auto
  obtain cs where cs: "uvarint_encode (int cs) = Some b1" "canon_ts (s_ts t) = ts_str cs"
    using pack_timestamp_uv [OF p(1)] .
  obtain au where au: "uvarint_encode (int au) = Some b4" "canon_num li (s_amount t) = num_str li (int au)"
    using pack_num_uv [OF p(4)] .
  obtain fu where fu: "uvarint_encode (int fu) = Some b7" "canon_num li (s_fee t) = num_str li (int fu)"
    using pack_num_uv [OF p(7)] .
  obtain ru where ru: "uvarint_encode (int ru) = Some b8" "canon_num li (s_reward t) = num_str li (int ru)"
    using pack_num_uv [OF p(8)] .
  have d0: "drop 0 blob = b1 @ b2 @ b3 @ b4 @ b5 @ b6 @ b7 @ b8 @ b9 @ b10" by (simp add: blob)
  note d1 = drop_advance [OF d0] note d2 = drop_advance [OF d1] note d3 = drop_advance [OF d2]
  note d4 = drop_advance [OF d3] note d5 = drop_advance [OF d4] note d6 = drop_advance [OF d5]
  note d7 = drop_advance [OF d6] note d8 = drop_advance [OF d7]
  have d9: "drop (0 + length b1 + length b2 + length b3 + length b4 + length b5 + length b6 + length b7
      + length b8 + length b9) blob = b10 @ []" using drop_advance [OF d8] by simp
  show ?thesis
    unfolding unpack_row_def canon_row_def
    by (simp only: uv_read [OF cs(1) d0] uv_read [OF p(2) d1] uv_read [OF p(3) d2] uv_read [OF au(1) d3]
        sig_read [OF p(5) d4] uv_read [OF p(6) d5] uv_read [OF fu(1) d6] uv_read [OF ru(1) d7]
        lp4.dec_enc [OF p(10) d8] lp4.dec_enc [OF p(12) d9] cs unpack_timestamp_uv [OF cs(1)]
        au(2) fu(2) ru(2) utf8_decode_encode [OF p(9)] utf8_decode_encode [OF p(11)]
        Option.bind.bind_lunit prod.case)
qed

text \<open>
  C20: a transaction row packed into one blob is read back field for field, with the timestamp and
  the money fields in canonical text of the same centiseconds and atomic units; signature, operation and
  openfield come back byte for byte, for every address family and whatever the base58 package does.
\<close>

theorem txrec_roundtrip:
  assumes "pack_row li X t ai ri = Some blob"
  shows "unpack_row li blob = Some (canon_row li t ai ri)
    \<and> openfield_of li blob = Some (s_of t)"
  using unpack_pack_row [OF assms] by (simp add: openfield_of_def canon_row_def)

definition wit_row :: "pystr srow" where
  "wit_row = \<lparr>s_ts = lit ''12.5'', s_addr = lit ''genesis'', s_recip = lit ''x'', s_amount = lit ''0'',
     s_sig = lit ''c2ln'', s_pk = 3, s_bh = None, s_fee = lit ''0.01'', s_reward = lit ''0'',
     s_op = lit ''0'', s_of = lit ''hi''\<rparr>"

theorem txrec_roundtrip_witness:
  "\<exists>blob. pack_row False wit_ext wit_row 0 1 = Some blob \<and>
     map_option s_ts (unpack_row False blob) = Some (lit ''12.50'') \<and>
     map_option s_sig (unpack_row False blob) = Some (lit ''c2ln'')"
proof -
  have "pack_row False wit_ext wit_row 0 1 \<noteq> None" by code_simp
  then obtain blob where b: "pack_row False wit_ext wit_row 0 1 = Some blob" by auto
  have "canon_ts (lit ''12.5'') = lit ''12.50''" by code_simp
  then show ?thesis using txrec_roundtrip [OF b] b by (simp add: canon_row_def wit_row_def)
qed

end
