(* ===== verification/AddrBytes.thy ===== *)
theory AddrBytes
  imports SignerFactory
begin

text \<open>
  \<^verbatim>\<open>addrbytes.py\<close>: the tagged binary form of an address or recipient.  The encoder commits to a
  structured tag only after checking that the body encodes back to the same string.
\<close>

abbreviation (input) "ADDR_TAG_HEX \<equiv> 0 :: byte"
abbreviation (input) "ADDR_TAG_ECDSA \<equiv> 1 :: byte"
abbreviation (input) "ADDR_TAG_ED25519 \<equiv> 2 :: byte"
abbreviation (input) "ADDR_TAG_VERSIONED \<equiv> 3 :: byte"
abbreviation (input) "ADDR_TAG_MULTISIG \<equiv> 4 :: byte"
abbreviation (input) "ADDR_TAG_VERBATIM \<equiv> 255 :: byte"

definition verbatim :: "bytes \<Rightarrow> bytes option" where
  "verbatim b = (if 255 < length b then None else Some (ADDR_TAG_VERBATIM # byte_of (length b) # b))"

fun tag_for_signer_name :: "signer_class option \<Rightarrow> byte option" where
  "tag_for_signer_name (Some SignerECDSA) = Some ADDR_TAG_ECDSA"
| "tag_for_signer_name (Some SignerED25519) = Some ADDR_TAG_ED25519"
| "tag_for_signer_name (Some SignerMultisig) = Some ADDR_TAG_MULTISIG"
| "tag_for_signer_name (Some SignerSECP256R1) = Some ADDR_TAG_VERSIONED"
| "tag_for_signer_name (Some SignerMLDSA44) = Some ADDR_TAG_VERSIONED"
| "tag_for_signer_name (Some SignerMLDSA65) = Some ADDR_TAG_VERSIONED"
| "tag_for_signer_name (Some SignerMLDSA87) = Some ADDR_TAG_VERSIONED"
| "tag_for_signer_name _ = None"

definition addr_tag :: "addr_ext \<Rightarrow> pystr \<Rightarrow> byte option" where
  "addr_tag X s =
     (if RE_MULTISIG_ADDRESS s then Some ADDR_TAG_MULTISIG
      else if RE_ECDSA_ADDRESS s then
        Some (if 50 < length s then ADDR_TAG_ED25519 else ADDR_TAG_ECDSA)
      else tag_for_signer_name (versioned_signer X s))"

definition pack_addr :: "addr_ext \<Rightarrow> pystr \<Rightarrow> bytes option" where
  "pack_addr X s = do {
     b \<leftarrow> utf8_encode s;
     if RE_RSA_ADDRESS s then
       (case fromhex s of
          Some raw \<Rightarrow> if bytes_hex raw = s then Some (ADDR_TAG_HEX # raw) else verbatim b
        | None \<Rightarrow> verbatim b)
     else
       (case addr_tag X s of
          None \<Rightarrow> verbatim b
        | Some tag \<Rightarrow>
            (case b58decode X s of
               Some body \<Rightarrow> if b58encode X body = s then Some (tag # body) else verbatim b
             | None \<Rightarrow> verbatim b)) }"

fun unpack_addr :: "addr_ext \<Rightarrow> bytes \<Rightarrow> pystr option" where
  "unpack_addr X [] = None"
| "unpack_addr X (tag # body) =
     (if tag = ADDR_TAG_HEX then Some (bytes_hex body)
      else if ADDR_TAG_ECDSA \<le> tag \<and> tag \<le> ADDR_TAG_MULTISIG then Some (b58encode X body)
      else if tag = ADDR_TAG_VERBATIM then
        (case body of
           [] \<Rightarrow> None
         | n # rest \<Rightarrow>
             if length rest < unat n then None else utf8_decode (take (unat n) rest))
      else None)"

lemma unpack_verbatim:
  assumes "verbatim b = Some c" and "utf8_encode s = Some b"
  shows "unpack_addr X c = Some s"
  using assms by (auto simp: verbatim_def utf8_decode_encode split: if_splits)

lemma tag_for_signer_name_range:
  "tag_for_signer_name sc = Some t \<Longrightarrow> ADDR_TAG_ECDSA \<le> t \<and> t \<le> ADDR_TAG_MULTISIG"
  by (cases "(sc)" rule: tag_for_signer_name.cases) auto

lemma addr_tag_range:
  "addr_tag X s = Some t \<Longrightarrow> ADDR_TAG_ECDSA \<le> t \<and> t \<le> ADDR_TAG_MULTISIG"
  by (auto simp: addr_tag_def dest: tag_for_signer_name_range split: if_splits)

text \<open>Whatever base58 does, a packed address is read back unchanged.\<close>

lemma unpack_pack_addr [codec_simps]:
  assumes "pack_addr X s = Some c"
  shows "unpack_addr X c = Some s"
proof -
  obtain b where b: "utf8_encode s = Some b" using assms by (auto simp: pack_addr_def elim!: bind_SomeE)
  have t: "t \<noteq> ADDR_TAG_HEX" if "ADDR_TAG_ECDSA \<le> t" for t using that by auto
  show ?thesis
    using assms b unpack_verbatim [OF _ b] addr_tag_range [of X s] t
    by (auto simp: pack_addr_def split: if_splits option.splits)
qed

lemma pack_addr_nonempty: "pack_addr X s = Some c \<Longrightarrow> c \<noteq> []"
  using unpack_pack_addr by fastforce

text \<open>Text of at most 255 bytes always packs.\<close>

lemma pack_addr_total: "utf8_encode s = Some b \<Longrightarrow> length b \<le> 255 \<Longrightarrow> pack_addr X s \<noteq> None"
  by (auto simp: pack_addr_def verbatim_def split: option.splits)

end
