(* ===== verification/SyncCodec.thy ===== *)
theory SyncCodec
  imports TxRec AddrBytes
begin

text \<open>
  \<^verbatim>\<open>sync_codec.py\<close>: the binary form of the block ranges served to syncing peers.
\<close>

record sync_tx =
  x_ts :: pystr
  x_addr :: pystr
  x_recip :: pystr
  x_amount :: pystr
  x_sig :: pystr
  x_pubkey :: pystr
  x_op :: pystr
  x_of :: pystr

record sync_block =
  b_height :: nat
  b_hash :: pystr
  b_txs :: "sync_tx list"

definition MAGIC :: bytes where
  "MAGIC = blit ''BSY1''"

definition sync_lp1 :: "bytes \<Rightarrow> bytes option" where
  "sync_lp1 b = (if 255 < length b then None else Some (byte_of (length b) # b))"

definition sync_lp4 :: "bytes \<Rightarrow> bytes option" where
  "sync_lp4 b = do { n \<leftarrow> to_bytes_le 4 (int (length b)); Some (n @ b) }"

definition sync_rd1 :: "bytes \<Rightarrow> nat \<Rightarrow> (bytes \<times> nat) option" where
  "sync_rd1 buf i =
     (if length buf < i + 1 then None
      else let n = unat (buf ! i); j = i + 1 in
           if length buf < j + n then None else Some (take n (drop j buf), j + n))"

definition sync_rd4 :: "bytes \<Rightarrow> nat \<Rightarrow> (bytes \<times> nat) option" where
  "sync_rd4 buf i =
     (if length buf < i + 4 then None
      else let n = le_nat (take 4 (drop i buf)); j = i + 4 in
           if length buf < j + n then None else Some (take n (drop j buf), j + n))"

definition pack_pubkey :: "pystr \<Rightarrow> bytes option" where
  "pack_pubkey s =
     (case b64decode s of
        Some raw \<Rightarrow>
          if b64encode raw = s then do { n \<leftarrow> uvarint_encode (int (length raw)); Some (0 # n @ raw) }
          else do { b \<leftarrow> utf8_encode s; n \<leftarrow> uvarint_encode (int (length b)); Some (1 # n @ b) }
      | None \<Rightarrow> do { b \<leftarrow> utf8_encode s; n \<leftarrow> uvarint_encode (int (length b)); Some (1 # n @ b) })"

definition unpack_pubkey :: "bytes \<Rightarrow> nat \<Rightarrow> (pystr \<times> nat) option" where
  "unpack_pubkey buf i =
     (if length buf < i + 1 then None
      else do {
        (n, j) \<leftarrow> uvarint_decode buf (i + 1);
        if length buf < j + n then None
        else let body = take n (drop j buf) in
             if buf ! i = 0 then Some (b64encode body, j + n)
             else do { s \<leftarrow> utf8_decode body; Some (s, j + n) } })"

definition encode_tx :: "addr_ext \<Rightarrow> sync_tx \<Rightarrow> bytes option" where
  "encode_tx X tx = do {
     ts \<leftarrow> pack_timestamp (x_ts tx);
     ab \<leftarrow> pack_addr X (x_addr tx);
     a \<leftarrow> sync_lp1 ab;
     rb \<leftarrow> pack_addr X (x_recip tx);
     r \<leftarrow> sync_lp1 rb;
     u \<leftarrow> to_units (PStr (x_amount tx));
     amount \<leftarrow> uvarint_encode u;
     sg \<leftarrow> pack_from_wire X (x_sig tx) (x_addr tx);
     pk \<leftarrow> pack_pubkey (x_pubkey tx);
     ob \<leftarrow> utf8_encode (x_op tx);
     ol \<leftarrow> sync_lp4 ob;
     fb \<leftarrow> utf8_encode (x_of tx);
     fl \<leftarrow> sync_lp4 fb;
     Some (ts @ a @ r @ amount @ sg @ pk @ ol @ fl) }"

definition decode_tx :: "addr_ext \<Rightarrow> bytes \<Rightarrow> nat \<Rightarrow> (sync_tx \<times> nat) option" where
  "decode_tx X buf i = do {
     (cs, i) \<leftarrow> uvarint_decode buf i;
     csb \<leftarrow> uvarint_encode (int cs);
     ts \<leftarrow> unpack_timestamp csb;
     (a, i) \<leftarrow> sync_rd1 buf i;
     addr \<leftarrow> unpack_addr X a;
     (r, i) \<leftarrow> sync_rd1 buf i;
     recip \<leftarrow> unpack_addr X r;
     (units, i) \<leftarrow> uvarint_decode buf i;
     (sg, i) \<leftarrow> read_sig buf i;
     (pubkey, i) \<leftarrow> unpack_pubkey buf i;
     (ob, i) \<leftarrow> sync_rd4 buf i;
     operation \<leftarrow> utf8_decode ob;
     (fb, i) \<leftarrow> sync_rd4 buf i;
     openfield \<leftarrow> utf8_decode fb;
     Some (\<lparr>x_ts = ts, x_addr = addr, x_recip = recip, x_amount = from_units (int units), x_sig = sg,
            x_pubkey = pubkey, x_op = operation, x_of = openfield\<rparr>, i) }"

definition encode_hash :: "pystr \<Rightarrow> bytes option" where
  "encode_hash bh =
     (case Option.bind (fromhex bh) sync_lp1 of
        Some l \<Rightarrow> Some (0 # l)
      | None \<Rightarrow> do { b \<leftarrow> utf8_encode bh; l \<leftarrow> sync_lp1 b; Some (1 # l) })"

definition decode_hash :: "bytes \<Rightarrow> nat \<Rightarrow> (pystr \<times> nat) option" where
  "decode_hash buf i =
     (if length buf < i + 1 then None
      else do {
        (hb, j) \<leftarrow> sync_rd1 buf (i + 1);
        if buf ! i = 0 then Some (bytes_hex hb, j) else do { h \<leftarrow> utf8_decode hb; Some (h, j) } })"

definition encode_block :: "addr_ext \<Rightarrow> sync_block \<Rightarrow> bytes option" where
  "encode_block X blk = do {
     h \<leftarrow> uvarint_encode (int (b_height blk));
     bh \<leftarrow> encode_hash (b_hash blk);
     n \<leftarrow> uvarint_encode (int (length (b_txs blk)));
     ts \<leftarrow> mapM_opt (encode_tx X) (b_txs blk);
     Some (h @ bh @ n @ concat ts) }"

definition decode_block :: "addr_ext \<Rightarrow> bytes \<Rightarrow> nat \<Rightarrow> (sync_block \<times> nat) option" where
  "decode_block X buf i = do {
     (height, i) \<leftarrow> uvarint_decode buf i;
     (bh, i) \<leftarrow> decode_hash buf i;
     (ntx, i) \<leftarrow> uvarint_decode buf i;
     (txs, i) \<leftarrow> read_n (decode_tx X) ntx buf i;
     Some (\<lparr>b_height = height, b_hash = bh, b_txs = txs\<rparr>, i) }"

definition encode_blocks :: "addr_ext \<Rightarrow> sync_block list \<Rightarrow> bytes option" where
  "encode_blocks X blocks = do {
     n \<leftarrow> uvarint_encode (int (length blocks));
     bs \<leftarrow> mapM_opt (encode_block X) blocks;
     Some (MAGIC @ n @ concat bs) }"

definition decode_blocks :: "addr_ext \<Rightarrow> bytes \<Rightarrow> sync_block list option" where
  "decode_blocks X buf =
     (if take 4 buf \<noteq> MAGIC then None
      else do {
        (nblocks, i) \<leftarrow> uvarint_decode buf 4;
        (blocks, _) \<leftarrow> read_n (decode_block X) nblocks buf i;
        Some blocks })"

section \<open>Every layer meets the codec contract\<close>

lemma sync_fields_eq: "sync_lp1 = lp1" "sync_rd1 = rd1" "sync_lp4 = lp4" "sync_rd4 = rd4"
  by (auto simp: fun_eq_iff sync_lp1_def lp1_def sync_rd1_def rd1_def sync_lp4_def lp4_def
      sync_rd4_def rd4_def Let_def)

interpretation slp1: wire_codec sync_lp1 sync_rd1 "\<lambda>b. b"
  by (simp only: sync_fields_eq) (rule lp1.wire_codec_axioms)

interpretation slp4: wire_codec sync_lp4 sync_rd4 "\<lambda>b. b"
  by (simp only: sync_fields_eq) (rule lp4.wire_codec_axioms)

lemma pack_pubkey_cases:
  assumes "pack_pubkey s = Some b"
  obtains n raw where "b = 0 # n @ raw" "uvarint_encode (int (length raw)) = Some n" "b64encode raw = s"
  | n raw where "b = 1 # n @ raw" "uvarint_encode (int (length raw)) = Some n" "utf8_decode raw = Some s"
  using assms by (auto simp: pack_pubkey_def utf8_decode_encode split: option.splits if_splits elim!: bind_SomeE)

lemma unpack_pubkey_read:
  assumes n: "uvarint_encode (int (length raw)) = Some n" and d: "drop i buf = (f # n @ raw) @ post"
  shows "unpack_pubkey buf i =
    (if f = 0 then Some (b64encode raw, i + length (f # n @ raw))
     else do { s \<leftarrow> utf8_decode raw; Some (s, i + length (f # n @ raw)) })"
proof -
  have len: "i + length (f # n @ raw) \<le> length buf" by (rule drop_append_length [OF d]) simp
  have f: "buf ! i = f" using d len by (simp add: hd_drop_conv_nth [symmetric])
  have d1: "drop (i + 1) buf = n @ raw @ post" using drop_split [OF d, of 1] by simp
  note d2 = drop_advance [OF d1]
  show ?thesis
    using len f uv_read [OF n d1] d2 by (simp add: unpack_pubkey_def add.assoc)
qed

interpretation pubkey: wire_codec pack_pubkey unpack_pubkey "\<lambda>s. s"
proof
  fix x b i buf post
  assume "pack_pubkey x = Some b" and d: "drop i buf = b @ post"
  then show "unpack_pubkey buf i = Some (x, i + length b)"
    by (elim pack_pubkey_cases) (use unpack_pubkey_read in auto)
qed

definition canon_hash :: "pystr \<Rightarrow> pystr" where
  "canon_hash bh = (case Option.bind (fromhex bh) sync_lp1 of Some l \<Rightarrow> bytes_hex (the (fromhex bh)) | None \<Rightarrow> bh)"

interpretation hash: wire_codec encode_hash decode_hash canon_hash
proof
  fix x b i buf post
  assume e: "encode_hash x = Some b" and d: "drop i buf = b @ post"
  obtain f l where b: "b = f # l" using e by (auto simp: encode_hash_def split: option.splits elim!: bind_SomeE)
  have len: "i + length b \<le> length buf" by (rule drop_append_length [OF d]) (simp add: b)
  have f: "buf ! i = f" using d len by (simp add: b hd_drop_conv_nth [symmetric])
  have d1: "drop (i + 1) buf = l @ post" using drop_split [OF d, of 1] by (simp add: b)
  show "decode_hash buf i = Some (canon_hash x, i + length b)"
  proof (cases "Option.bind (fromhex x) sync_lp1")
    case None
    then have c: "canon_hash x = x" by (simp add: canon_hash_def del: bind_eq_None)
    from None e b obtain u where "utf8_encode x = Some u" "sync_lp1 u = Some l" "f = 1"
      by (auto simp: encode_hash_def simp del: bind_eq_None elim!: bind_SomeE)
    then show ?thesis
      using len f b slp1.dec_enc [OF _ d1] by (simp add: decode_hash_def c utf8_decode_encode)
  next
    case (Some m)
    with e b obtain raw where "fromhex x = Some raw" "sync_lp1 raw = Some l" "f = 0" "m = l"
      by (auto simp: encode_hash_def elim!: bind_SomeE)
    then show ?thesis
      using Some len f b slp1.dec_enc [OF _ d1] by (simp add: decode_hash_def canon_hash_def)
  qed
qed

definition canon_tx :: "sync_tx \<Rightarrow> sync_tx" where
  "canon_tx tx = tx\<lparr>x_ts := canon_ts (x_ts tx), x_amount := canon_num False (x_amount tx)\<rparr>"

interpretation tx: wire_codec "encode_tx X" "decode_tx X" canon_tx for X
proof
  fix t b i buf post
  assume e: "encode_tx X t = Some b" and d: "drop i buf = b @ post"
  obtain b1 ab b2 rb b3 u b4 b5 b6 ob b7 fb b8 where p:
    "pack_timestamp (x_ts t) = Some b1" "pack_addr X (x_addr t) = Some ab" "sync_lp1 ab = Some b2"
    "pack_addr X (x_recip t) = Some rb" "sync_lp1 rb = Some b3" "to_units (PStr (x_amount t)) = Some u"
    "uvarint_encode u = Some b4" "pack_from_wire X (x_sig t) (x_addr t) = Some b5"
    "pack_pubkey (x_pubkey t) = Some b6" "utf8_encode (x_op t) = Some ob" "sync_lp4 ob = Some b7"
    "utf8_encode (x_of t) = Some fb" "sync_lp4 fb = Some b8"
    and b: "b = b1 @ b2 @ b3 @ b4 @ b5 @ b6 @ b7 @ b8"
    using e unfolding encode_tx_def by (elim bind_SomeE) auto
  obtain cs where cs: "uvarint_encode (int cs) = Some b1" "canon_ts (x_ts t) = ts_str cs"
    using pack_timestamp_uv [OF p(1)] .
  have u: "canon_num False (x_amount t) = from_units (int (nat u))"
    using p(6,7) by (auto simp: canon_num_def num_units_def num_str_def uvarint_encode_Some_iff)
  have d0: "drop i buf = b1 @ b2 @ b3 @ b4 @ b5 @ b6 @ b7 @ b8 @ post" using d by (simp add: b)
  note d1 = drop_advance [OF d0] note d2 = drop_advance [OF d1] note d3 = drop_advance [OF d2]
  note d4 = drop_advance [OF d3] note d5 = drop_advance [OF d4] note d6 = drop_advance [OF d5]
  note d7 = drop_advance [OF d6]
  have "decode_tx X buf i = Some (\<lparr>x_ts = ts_str cs, x_addr = x_addr t, x_recip = x_recip t,
      x_amount = from_units (int (nat u)), x_sig = x_sig t, x_pubkey = x_pubkey t, x_op = x_op t,
      x_of = x_of t\<rparr>, i + length b1 + length b2 + length b3 + length b4 + length b5 + length b6
      + length b7 + length b8)"
    unfolding decode_tx_def
    by (simp only: uv_read [OF cs(1) d0] slp1.dec_enc [OF p(3) d1] slp1.dec_enc [OF p(5) d2]
        uv.dec_enc [OF p(7) d3] sig_read [OF p(8) d4] pubkey.dec_enc [OF p(9) d5]
        slp4.dec_enc [OF p(11) d6] slp4.dec_enc [OF p(13) d7] cs unpack_timestamp_uv [OF cs(1)]
        unpack_pack_addr [OF p(2)] unpack_pack_addr [OF p(4)]
        utf8_decode_encode [OF p(10)] utf8_decode_encode [OF p(12)] Option.bind.bind_lunit prod.case)
  then show "decode_tx X buf i = Some (canon_tx t, i + length b)"
    unfolding u [symmetric] cs(2) [symmetric] by (simp add: b canon_tx_def)
qed

definition canon_block :: "sync_block \<Rightarrow> sync_block" where
  "canon_block blk = \<lparr>b_height = b_height blk, b_hash = canon_hash (b_hash blk), b_txs = map canon_tx (b_txs blk)\<rparr>"

interpretation block: wire_codec "encode_block X" "decode_block X" canon_block for X
proof
  fix k b i buf post
  assume e: "encode_block X k = Some b" and d: "drop i buf = b @ post"
  obtain b1 b2 b3 ts where p: "uvarint_encode (int (b_height k)) = Some b1" "encode_hash (b_hash k) = Some b2"
    "uvarint_encode (int (length (b_txs k))) = Some b3" "mapM_opt (encode_tx X) (b_txs k) = Some ts"
    and b: "b = b1 @ b2 @ b3 @ concat ts"
    using e unfolding encode_block_def by (elim bind_SomeE) auto
  have d0: "drop i buf = b1 @ b2 @ b3 @ concat ts @ post" using d by (simp add: b)
  note d1 = drop_advance [OF d0] note d2 = drop_advance [OF d1] note d3 = drop_advance [OF d2]
  show "decode_block X buf i = Some (canon_block k, i + length b)"
    by (simp add: decode_block_def canon_block_def b uv_read [OF p(1) d0] hash.dec_enc [OF p(2) d1]
        uv_read [OF p(3) d2] tx.read_n_enc [OF p(4) d3])
qed

lemma decode_encode_blocks:
  assumes "encode_blocks X blocks = Some buf"
  shows "decode_blocks X buf = Some (map canon_block blocks)"
proof -
  obtain n bs where n: "uvarint_encode (int (length blocks)) = Some n"
    and bs: "mapM_opt (encode_block X) blocks = Some bs" and buf: "buf = MAGIC @ n @ concat bs"
    using assms unfolding encode_blocks_def by (elim bind_SomeE) auto
  have m: "length MAGIC = 4" by (simp add: MAGIC_def blit_def)
  have d0: "drop 4 buf = n @ concat bs @ []" by (simp add: buf m)
  note d1 = drop_advance [OF d0]
  show ?thesis
    by (simp add: decode_blocks_def uv_read [OF n d0] block.read_n_enc [OF bs d1]) (simp add: buf m)
qed

section \<open>The payload the digester receives\<close>

text \<open>The form in which the node serves blocks: lower-case hex hashes, two-decimals timestamps and
  eight-decimals amounts.\<close>

definition canonical_block :: "sync_block \<Rightarrow> bool" where
  "canonical_block blk \<longleftrightarrow>
     (\<exists>raw. length raw \<le> 255 \<and> b_hash blk = bytes_hex raw) \<and>
     (\<forall>tx\<in>set (b_txs blk). (\<exists>cs<10 ^ 28. x_ts tx = ts_str cs) \<and>
        (\<exists>u. 0 \<le> u \<and> u < 10 ^ 28 \<and> x_amount tx = from_units u))"

lemma canon_block_canonical:
  assumes "canonical_block blk"
  shows "canon_block blk = blk"
proof -
  have h: "canon_hash (b_hash blk) = b_hash blk"
    using assms by (auto simp: canonical_block_def canon_hash_def fromhex_hex sync_lp1_def)
  have "canon_tx tx = tx" if "tx \<in> set (b_txs blk)" for tx
  proof -
    obtain cs u where cs: "cs < 10 ^ 28" "x_ts tx = ts_str cs"
      and u: "0 \<le> u" "u < 10 ^ 28" "x_amount tx = from_units u"
      using assms \<open>tx \<in> set (b_txs blk)\<close> unfolding canonical_block_def by meson
    have "\<bar>u\<bar> < 10 ^ 28" using u(1,2) by (simp only: abs_of_nonneg)
    then have "canon_ts (x_ts tx) = x_ts tx" "canon_num False (x_amount tx) = x_amount tx"
      using centiseconds_ts_str [OF cs(1)] to_units_from_units [of u]
      by (simp_all only: cs(2) u(3) canon_ts_def canon_num_def num_units_def num_str_def
          option.sel nat_int if_False)
    then show ?thesis by (simp add: canon_tx_def)
  qed
  then have "map canon_tx (b_txs blk) = b_txs blk" by (simp add: map_idI)
  with h show ?thesis by (simp add: canon_block_def)
qed


definition wit_block :: sync_block where
  "wit_block = \<lparr>b_height = 7, b_hash = lit ''0aff'', b_txs =
     [\<lparr>x_ts = lit ''12.50'', x_addr = lit ''genesis'', x_recip = lit ''x'', x_amount = lit ''1.00000000'',
       x_sig = lit ''c2ln'', x_pubkey = lit ''a2V5'', x_op = lit ''0'', x_of = lit ''hi''\<rparr>]\<rparr>"


end
