(* ===== verification/Serialize.thy ===== *)
theory Serialize
  imports TxFields
begin

text \<open>
  \<^verbatim>\<open>bismuth_serialize.py\<close>: the byte strings transaction signatures and block hashes are computed
  over, in the legacy form (\<^verbatim>\<open>repr\<close> of tuples of strings) and in the binary form used from the fork
  height on, and the dispatch between them.  The hash functions and Python's table of printable
  non-ASCII characters (which \<^verbatim>\<open>repr\<close> consults) are the fields of the record \<^verbatim>\<open>hash_ext\<close>.
\<close>

record hash_ext =
  blake2b :: "nat \<Rightarrow> bytes \<Rightarrow> bytes"
  sha224 :: "bytes \<Rightarrow> bytes"
  printable :: "nat \<Rightarrow> bool"

section \<open>repr of strings and tuples\<close>

fun hex_fixed :: "nat \<Rightarrow> nat \<Rightarrow> pystr" where
  "hex_fixed 0 n = []"
| "hex_fixed (Suc w) n = hex_fixed w (n div 16) @ [hex_digit (n mod 16)]"

definition repr_char :: "(nat \<Rightarrow> bool) \<Rightarrow> nat \<Rightarrow> nat \<Rightarrow> pystr" where
  "repr_char prt q c =
     (if c = q \<or> c = 92 then [92, c]
      else if c = 9 then [92, 116]
      else if c = 10 then [92, 110]
      else if c = 13 then [92, 114]
      else if c < 32 \<or> c = 127 then [92, 120] @ hex_fixed 2 c
      else if c < 127 then [c]
      else if prt c then [c]
      else if c \<le> 255 then [92, 120] @ hex_fixed 2 c
      else if c \<le> 65535 then [92, 117] @ hex_fixed 4 c
      else [92, 85] @ hex_fixed 8 c)"

definition repr_quote :: "pystr \<Rightarrow> nat" where
  "repr_quote s = (if 39 \<in> set s \<and> 34 \<notin> set s then 34 else 39)"

definition py_repr :: "(nat \<Rightarrow> bool) \<Rightarrow> pystr \<Rightarrow> pystr" where
  "py_repr prt s =
     (let q = repr_quote s in q # concat (map (repr_char prt q) s) @ [q])"

fun comma_join :: "pystr list \<Rightarrow> pystr" where
  "comma_join [] = []"
| "comma_join [x] = x"
| "comma_join (x # xs) = x @ [44, 32] @ comma_join xs"

definition repr_tuple :: "(nat \<Rightarrow> bool) \<Rightarrow> pystr list \<Rightarrow> pystr" where
  "repr_tuple prt xs = 40 # comma_join (map (py_repr prt) xs) @ [41]"

definition repr_tuples :: "(nat \<Rightarrow> bool) \<Rightarrow> pystr list list \<Rightarrow> pystr" where
  "repr_tuples prt xss = 91 # comma_join (map (repr_tuple prt) xss) @ [93]"

section \<open>Legacy pre-images\<close>

text \<open>A transaction as the eight strings (timestamp, address, recipient, amount, signature,
  public key, operation, openfield).\<close>

record tx8 =
  t_ts :: pystr
  t_addr :: pystr
  t_recip :: pystr
  t_amount :: pystr
  t_sig :: pystr
  t_pubkey :: pystr
  t_op :: pystr
  t_of :: pystr

definition tx8_list :: "tx8 \<Rightarrow> pystr list" where
  "tx8_list t = [t_ts t, t_addr t, t_recip t, t_amount t, t_sig t, t_pubkey t, t_op t, t_of t]"

definition signature_buffer ::
  "hash_ext \<Rightarrow> pystr \<Rightarrow> pystr \<Rightarrow> pystr \<Rightarrow> pystr \<Rightarrow> pystr \<Rightarrow> pystr \<Rightarrow> bytes option" where
  "signature_buffer H timestamp address recipient amount operation openfield =
     utf8_encode (repr_tuple (printable H) [timestamp, address, recipient, amount, operation, openfield])"

definition tx_id ::
  "hash_ext \<Rightarrow> pystr \<Rightarrow> pystr \<Rightarrow> pystr \<Rightarrow> pystr \<Rightarrow> pystr \<Rightarrow> pystr \<Rightarrow> pystr option" where
  "tx_id H timestamp address recipient amount operation openfield = do {
     b \<leftarrow> signature_buffer H timestamp address recipient amount operation openfield;
     Some (bytes_hex (blake2b H 32 b)) }"

definition signed_message :: "pystr \<Rightarrow> bytes option" where
  "signed_message txid_hex = fromhex txid_hex"

definition block_preimage :: "hash_ext \<Rightarrow> tx8 list \<Rightarrow> pystr \<Rightarrow> bytes option" where
  "block_preimage H txs previous_hash =
     utf8_encode (repr_tuples (printable H) (map tx8_list txs) @ previous_hash)"

definition block_hash :: "hash_ext \<Rightarrow> tx8 list \<Rightarrow> pystr \<Rightarrow> pystr option" where
  "block_hash H txs previous_hash = do {
     b \<leftarrow> block_preimage H txs previous_hash;
     Some (bytes_hex (sha224 H b)) }"

section \<open>Binary pre-images\<close>

definition V2_MAGIC :: byte where "V2_MAGIC = 178"
definition V2_VERSION :: byte where "V2_VERSION = 2"

definition v2_lp :: "bytes \<Rightarrow> nat \<Rightarrow> bytes option" where
  "v2_lp b width = do { n \<leftarrow> to_bytes_le width (int (length b)); Some (n @ b) }"

definition v2_opof :: "pystr option \<Rightarrow> pystr option \<Rightarrow> bytes option" where
  "v2_opof operation openfield = do {
     op_b \<leftarrow> (case operation of None \<Rightarrow> Some [] | Some s \<Rightarrow> utf8_encode s);
     of_b \<leftarrow> (case openfield of None \<Rightarrow> Some [] | Some s \<Rightarrow> utf8_encode s);
     x \<leftarrow> (if op_b \<noteq> [] then v2_lp op_b 4 else Some []);
     y \<leftarrow> (if of_b \<noteq> [] then v2_lp of_b 4 else Some []);
     Some (((if op_b \<noteq> [] then 1 else 0) OR (if of_b \<noteq> [] then 2 else 0)) # x @ y) }"

definition signature_buffer_v2 ::
  "int \<Rightarrow> pystr \<Rightarrow> pystr \<Rightarrow> int \<Rightarrow> pystr option \<Rightarrow> pystr option \<Rightarrow> bytes option" where
  "signature_buffer_v2 timestamp_cs address recipient amount_units operation openfield = do {
     ts \<leftarrow> to_bytes_le 8 timestamp_cs;
     am \<leftarrow> to_bytes_le 8 amount_units;
     ab \<leftarrow> utf8_encode address;
     a \<leftarrow> v2_lp ab 1;
     rb \<leftarrow> utf8_encode recipient;
     r \<leftarrow> v2_lp rb 1;
     x \<leftarrow> v2_opof operation openfield;
     Some ([V2_MAGIC, V2_VERSION] @ ts @ am @ a @ r @ x) }"

definition tx_id_v2 ::
  "hash_ext \<Rightarrow> int \<Rightarrow> pystr \<Rightarrow> pystr \<Rightarrow> int \<Rightarrow> pystr option \<Rightarrow> pystr option \<Rightarrow> pystr option" where
  "tx_id_v2 H timestamp_cs address recipient amount_units operation openfield = do {
     b \<leftarrow> signature_buffer_v2 timestamp_cs address recipient amount_units operation openfield;
     Some (bytes_hex (blake2b H 32 b)) }"

definition v2_ts_cs :: "pystr \<Rightarrow> int option" where
  "v2_ts_cs ts = do { d \<leftarrow> dec_parse ts; q \<leftarrow> dquantize d (- 2); scaled_int q 100 }"

definition v2_units :: "pystr \<Rightarrow> int option" where
  "v2_units amount = do { d \<leftarrow> dec_parse amount; q \<leftarrow> dquantize d (- 8); scaled_int q 100000000 }"

definition v2_tx_bytes :: "tx8 \<Rightarrow> bool \<Rightarrow> bytes option" where
  "v2_tx_bytes tx is_coinbase = do {
     cs \<leftarrow> v2_ts_cs (t_ts tx);
     ts \<leftarrow> to_bytes_le 8 cs;
     u \<leftarrow> v2_units (t_amount tx);
     am \<leftarrow> to_bytes_le 8 u;
     ab \<leftarrow> utf8_encode (t_addr tx);
     a \<leftarrow> v2_lp ab 1;
     rb \<leftarrow> utf8_encode (t_recip tx);
     r \<leftarrow> v2_lp rb 1;
     sb \<leftarrow> utf8_encode (t_sig tx);
     pb \<leftarrow> utf8_encode (t_pubkey tx);
     _ \<leftarrow> guard_opt (\<not> (is_coinbase \<and> (255 < length sb \<or> 255 < length pb)));
     s \<leftarrow> v2_lp sb (if is_coinbase then 1 else 2);
     p \<leftarrow> v2_lp pb (if is_coinbase then 1 else 2);
     x \<leftarrow> v2_opof (Some (t_op tx)) (Some (t_of tx));
     Some (ts @ am @ a @ r @ s @ p @ x) }"

fun v2_txs_bytes :: "tx8 list \<Rightarrow> bytes option" where
  "v2_txs_bytes [] = Some []"
| "v2_txs_bytes (tx # txs) = do {
     b \<leftarrow> v2_tx_bytes tx (txs = []);
     bs \<leftarrow> v2_txs_bytes txs;
     Some (b @ bs) }"

definition prev_bytes :: "pystr \<Rightarrow> bytes option" where
  "prev_bytes prev =
     (if length prev = 64 then
        (case fromhex prev of Some b \<Rightarrow> Some b | None \<Rightarrow> utf8_encode prev)
      else utf8_encode prev)"

definition block_preimage_v2 :: "tx8 list \<Rightarrow> pystr \<Rightarrow> bytes option" where
  "block_preimage_v2 txs previous_hash = do {
     n \<leftarrow> to_bytes_le 4 (int (length txs));
     bs \<leftarrow> v2_txs_bytes txs;
     p \<leftarrow> prev_bytes previous_hash;
     Some (n @ bs @ p) }"

definition block_hash_v2 :: "hash_ext \<Rightarrow> tx8 list \<Rightarrow> pystr \<Rightarrow> pystr option" where
  "block_hash_v2 H txs previous_hash = do {
     b \<leftarrow> block_preimage_v2 txs previous_hash;
     Some (bytes_hex (blake2b H 32 b)) }"

section \<open>Dispatch by height\<close>

definition at_fork :: "nat \<Rightarrow> nat option \<Rightarrow> bool" where
  "at_fork height fork_height = (case fork_height of None \<Rightarrow> False | Some f \<Rightarrow> f \<le> height)"

definition block_hash_at :: "hash_ext \<Rightarrow> nat \<Rightarrow> nat option \<Rightarrow> tx8 list \<Rightarrow> pystr \<Rightarrow> pystr option" where
  "block_hash_at H height fork_height txs previous_hash =
     (if at_fork height fork_height then block_hash_v2 H txs previous_hash
      else block_hash H txs previous_hash)"

definition tx_id_v2_s ::
  "hash_ext \<Rightarrow> pystr \<Rightarrow> pystr \<Rightarrow> pystr \<Rightarrow> pystr \<Rightarrow> pystr \<Rightarrow> pystr \<Rightarrow> pystr option" where
  "tx_id_v2_s H timestamp address recipient amount operation openfield = do {
     cs \<leftarrow> v2_ts_cs timestamp;
     u \<leftarrow> v2_units amount;
     tx_id_v2 H cs address recipient u (Some operation) (Some openfield) }"

definition tx_id_at ::
  "hash_ext \<Rightarrow> nat \<Rightarrow> nat option \<Rightarrow> pystr \<Rightarrow> pystr \<Rightarrow> pystr \<Rightarrow> pystr \<Rightarrow> pystr \<Rightarrow> pystr \<Rightarrow> pystr option" where
  "tx_id_at H height fork_height timestamp address recipient amount operation openfield =
     (if at_fork height fork_height
      then tx_id_v2_s H timestamp address recipient amount operation openfield
      else tx_id H timestamp address recipient amount operation openfield)"

section \<open>The textual forms are uniquely readable\<close>

text \<open>An encoding of items as text, joined by commas up to a closing bracket.\<close>

locale bracketed =
  fixes enc :: "'a \<Rightarrow> pystr" and ok :: "'a \<Rightarrow> bool" and stop :: nat
  assumes enc_prefix_free: "ok x \<Longrightarrow> ok y \<Longrightarrow> enc x @ r = enc y @ s \<Longrightarrow> x = y \<and> r = s"
    and enc_head: "ok x \<Longrightarrow> \<exists>c t. enc x = c # t \<and> c \<noteq> stop"
    and stop_not_comma: "stop \<noteq> 44"
begin

lemma join_Cons: "comma_join (map enc (x # xs)) @ stop # r =
    enc x @ (if xs = [] then stop # r else [44, 32] @ comma_join (map enc xs) @ stop # r)"
  by (cases xs) auto

lemma join_prefix_free:
  "list_all ok xs \<Longrightarrow> list_all ok ys \<Longrightarrow>
     comma_join (map enc xs) @ stop # r = comma_join (map enc ys) @ stop # s \<Longrightarrow> xs = ys \<and> r = s"
proof (induction xs arbitrary: ys)
  case Nil
  show ?case
  proof (cases ys)
    case (Cons y zs)
    then have "ok y" using Nil.prems by simp
    with Nil.prems(3) Cons enc_head [of y] show ?thesis by (auto simp: join_Cons simp del: list.map(2))
  qed (use Nil.prems in simp)
next
  case (Cons x xs)
  have x: "ok x" "list_all ok xs" using Cons.prems by simp_all
  show ?case
  proof (cases ys)
    case Nil
    with Cons.prems(3) enc_head [OF x(1)] show ?thesis by (auto simp: join_Cons simp del: list.map(2))
  next
    case (Cons y zs)
    then have y: "ok y" "list_all ok zs" using Cons.prems by simp_all
    have "x = y \<and> (if xs = [] then stop # r else [44, 32] @ comma_join (map enc xs) @ stop # r) =
        (if zs = [] then stop # s else [44, 32] @ comma_join (map enc zs) @ stop # s)"
      using enc_prefix_free [OF x(1) y(1)] Cons.prems(3) [unfolded Cons join_Cons] by blast
    then show ?thesis
      using Cons.IH [OF x(2) y(2)] stop_not_comma Cons by (auto split: if_splits)
  qed
qed

end

definition hexs :: "pystr \<Rightarrow> nat" where
  "hexs s = foldl (\<lambda>a c. a * 16 + the (hex_val c)) 0 s"

lemma hexs_hex_fixed: "n < 16 ^ w \<Longrightarrow> hexs (hex_fixed w n) = n"
proof (induction w arbitrary: n)
  case (Suc w)
  then have "n div 16 < 16 ^ w" by (simp add: less_mult_imp_div_less mult.commute)
  then show ?case using Suc.IH [of "n div 16"] by (simp add: hexs_def)
qed (simp add: hexs_def)

lemma length_hex_fixed [simp]: "length (hex_fixed w n) = w"
  by (induction w arbitrary: n) auto

fun read_char :: "pystr \<Rightarrow> (nat \<times> pystr) option" where
  "read_char [] = None"
| "read_char [c] = Some (c, [])"
| "read_char (c # k # r) =
     (if c \<noteq> 92 then Some (c, k # r)
      else if k = 116 then Some (9, r)
      else if k = 110 then Some (10, r)
      else if k = 114 then Some (13, r)
      else if k = 120 then Some (hexs (take 2 r), drop 2 r)
      else if k = 117 then Some (hexs (take 4 r), drop 4 r)
      else if k = 85 then Some (hexs (take 8 r), drop 8 r)
      else Some (k, r))"

lemma read_char_literal: "c \<noteq> 92 \<Longrightarrow> read_char (c # r) = Some (c, r)"
  by (cases r) auto

definition valid_str :: "pystr \<Rightarrow> bool" where
  "valid_str s \<longleftrightarrow> list_all (\<lambda>c. c < 1114112) s"

lemma read_repr_char:
  assumes "q = 39 \<or> q = 34" and "c < 1114112"
  shows "read_char (repr_char prt q c @ r) = Some (c, r)"
  using assms hexs_hex_fixed [of c 2] hexs_hex_fixed [of c 4] hexs_hex_fixed [of c 8]
  by (auto simp: repr_char_def read_char_literal simp del: hex_fixed.simps)

lemma repr_char_head: "q = 39 \<or> q = 34 \<Longrightarrow> \<exists>k t. repr_char prt q c = k # t \<and> k \<noteq> q"
  by (auto simp: repr_char_def)

lemma repr_body_prefix_free:
  assumes q: "q = 39 \<or> q = 34"
  shows "valid_str s \<Longrightarrow> valid_str t \<Longrightarrow>
    concat (map (repr_char prt q) s) @ q # r = concat (map (repr_char prt q) t) @ q # u \<Longrightarrow> s = t \<and> r = u"
proof (induction s arbitrary: t)
  case Nil
  then show ?case using repr_char_head [OF q, of prt "hd t"] by (cases t) auto
next
  case (Cons c s)
  show ?case
  proof (cases t)
    case Nil
    then show ?thesis using Cons.prems repr_char_head [OF q, of prt c] by auto
  next
    case (Cons d t')
    have "c < 1114112" "d < 1114112" "valid_str s" "valid_str t'"
      using Cons.prems Cons by (simp_all add: valid_str_def)
    then show ?thesis
      using Cons.prems(3) Cons Cons.IH [of t'] read_repr_char [OF q, of c prt] read_repr_char [OF q, of d prt]
      by (auto dest: arg_cong [of _ _ read_char])
  qed
qed

lemma py_repr_prefix_free:
  assumes "valid_str s" "valid_str t" "py_repr prt s @ r = py_repr prt t @ u"
  shows "s = t \<and> r = u"
proof -
  have "repr_quote s = repr_quote t" using assms(3) by (simp add: py_repr_def Let_def)
  moreover have "repr_quote s = 39 \<or> repr_quote s = 34" by (simp add: repr_quote_def)
  ultimately show ?thesis
    using assms repr_body_prefix_free [of "repr_quote s" s t prt r u] by (simp add: py_repr_def Let_def)
qed

interpretation strs: bracketed "py_repr prt" valid_str 41 for prt
proof
  fix x y r s
  show "valid_str x \<Longrightarrow> valid_str y \<Longrightarrow> py_repr prt x @ r = py_repr prt y @ s \<Longrightarrow> x = y \<and> r = s"
    by (rule py_repr_prefix_free)
  show "\<exists>c t. py_repr prt x = c # t \<and> c \<noteq> 41"
    by (auto simp: py_repr_def Let_def repr_quote_def)
qed simp

interpretation tuples: bracketed "repr_tuple prt" "list_all valid_str" 93 for prt
proof
  fix x y r s
  assume "list_all valid_str x" "list_all valid_str y" "repr_tuple prt x @ r = repr_tuple prt y @ s"
  then show "x = y \<and> r = s" using strs.join_prefix_free [of x y prt r s] by (simp add: repr_tuple_def)
qed (simp_all add: repr_tuple_def)

lemma repr_tuples_prefix_free:
  assumes "list_all (list_all valid_str) xs" "list_all (list_all valid_str) ys"
    and "repr_tuples prt xs @ r = repr_tuples prt ys @ s"
  shows "xs = ys \<and> r = s"
  using tuples.join_prefix_free [OF assms(1,2), of prt r s] assms(3) by (simp add: repr_tuples_def)

section \<open>The binary forms are uniquely readable\<close>

lemma to_bytes_le_prefix_free:
  assumes "to_bytes_le w m = Some b" "to_bytes_le w n = Some c" "b @ r = c @ s"
  shows "m = n \<and> r = s"
proof -
  have b: "b = le_bytes w (nat m)" "0 \<le> m" "m < 256 ^ w" and c: "c = le_bytes w (nat n)" "0 \<le> n" "n < 256 ^ w"
    using assms(1,2) by (auto simp: to_bytes_le_def split: if_splits)
  then have "nat m < 256 ^ w" "nat n < 256 ^ w" by (simp_all add: nat_less_iff)
  then show ?thesis using assms(3) b(1,2) c(1,2) le_bytes_inject [of "nat m" w "nat n"] by auto
qed

lemma v2_lp_prefix_free:
  assumes "v2_lp b w = Some x" "v2_lp c w = Some y" "x @ r = y @ s"
  shows "b = c \<and> r = s"
proof -
  obtain m n where m: "to_bytes_le w (int (length b)) = Some m" "x = m @ b"
    and n: "to_bytes_le w (int (length c)) = Some n" "y = n @ c"
    using assms(1,2) by (auto simp: v2_lp_def elim!: bind_SomeE)
  then show ?thesis using to_bytes_le_prefix_free [OF m(1) n(1), of "b @ r" "c @ s"] assms(3) by auto
qed

lemma v2_opof_prefix_free:
  assumes "v2_opof (Some p) (Some f) = Some x" "v2_opof (Some p') (Some f') = Some y" "x @ r = y @ s"
  shows "p = p' \<and> f = f' \<and> r = s"
proof -
  obtain a b u v where x: "utf8_encode p = Some a" "utf8_encode f = Some b"
      "(if a \<noteq> [] then v2_lp a 4 else Some []) = Some u" "(if b \<noteq> [] then v2_lp b 4 else Some []) = Some v"
      "x = ((if a \<noteq> [] then 1 else 0) OR (if b \<noteq> [] then 2 else 0)) # u @ v"
    using assms(1) unfolding v2_opof_def by (auto elim!: bind_SomeE)
  obtain a' b' u' v' where y: "utf8_encode p' = Some a'" "utf8_encode f' = Some b'"
      "(if a' \<noteq> [] then v2_lp a' 4 else Some []) = Some u'" "(if b' \<noteq> [] then v2_lp b' 4 else Some []) = Some v'"
      "y = ((if a' \<noteq> [] then 1 else 0) OR (if b' \<noteq> [] then 2 else 0)) # u' @ v'"
    using assms(2) unfolding v2_opof_def by (auto elim!: bind_SomeE)
  have flags: "(a = []) = (a' = [])" "(b = []) = (b' = [])"
    using assms(3) x(5) y(5) by (auto split: if_splits)
  have rest: "u @ (v @ r) = u' @ (v' @ s)" using assms(3) x(5) y(5) by simp
  have 1: "a = a' \<and> v @ r = v' @ s"
    using rest flags(1) x(3) y(3) v2_lp_prefix_free [of a 4 u a' u' "v @ r" "v' @ s"] by (auto split: if_splits)
  then have "b = b' \<and> r = s"
    using flags(2) x(4) y(4) v2_lp_prefix_free [of b 4 v b' v' r s] by (auto split: if_splits)
  then show ?thesis using 1 utf8_encode_inject x(1,2) y(1,2) by blast
qed

lemma signature_buffer_v2_cases:
  assumes "signature_buffer_v2 cs a r u p f = Some b"
  obtains t m ab x rb y z where "to_bytes_le 8 cs = Some t" "to_bytes_le 8 u = Some m"
    "utf8_encode a = Some ab" "v2_lp ab 1 = Some x" "utf8_encode r = Some rb" "v2_lp rb 1 = Some y"
    "v2_opof p f = Some z" "b = [V2_MAGIC, V2_VERSION] @ t @ m @ x @ y @ z"
  using assms unfolding signature_buffer_v2_def by (elim bind_SomeE) auto

definition v2_content :: "tx8 \<Rightarrow> int option \<times> int option \<times> pystr list" where
  "v2_content tx = (v2_ts_cs (t_ts tx), v2_units (t_amount tx),
     [t_addr tx, t_recip tx, t_sig tx, t_pubkey tx, t_op tx, t_of tx])"

lemma v2_tx_bytes_cases:
  assumes "v2_tx_bytes tx cb = Some x"
  obtains cs u ts am ab a rb r sb s pb p z where
    "v2_ts_cs (t_ts tx) = Some cs" "to_bytes_le 8 cs = Some ts" "v2_units (t_amount tx) = Some u"
    "to_bytes_le 8 u = Some am" "utf8_encode (t_addr tx) = Some ab" "v2_lp ab 1 = Some a"
    "utf8_encode (t_recip tx) = Some rb" "v2_lp rb 1 = Some r" "utf8_encode (t_sig tx) = Some sb"
    "v2_lp sb (if cb then 1 else 2) = Some s" "utf8_encode (t_pubkey tx) = Some pb"
    "v2_lp pb (if cb then 1 else 2) = Some p" "v2_opof (Some (t_op tx)) (Some (t_of tx)) = Some z"
    "x = ts @ am @ a @ r @ s @ p @ z"
  using assms unfolding v2_tx_bytes_def by (elim bind_SomeE) auto

lemma v2_tx_bytes_prefix_free:
  assumes "v2_tx_bytes tx cb = Some x" "v2_tx_bytes ty cb = Some y" "x @ r = y @ s"
  shows "v2_content tx = v2_content ty \<and> r = s"
proof -
  obtain c1 u1 t1 m1 ab1 a1 rb1 r1 sb1 s1 pb1 p1 z1 where X:
    "v2_ts_cs (t_ts tx) = Some c1" "to_bytes_le 8 c1 = Some t1" "v2_units (t_amount tx) = Some u1"
    "to_bytes_le 8 u1 = Some m1" "utf8_encode (t_addr tx) = Some ab1" "v2_lp ab1 1 = Some a1"
    "utf8_encode (t_recip tx) = Some rb1" "v2_lp rb1 1 = Some r1" "utf8_encode (t_sig tx) = Some sb1"
    "v2_lp sb1 (if cb then 1 else 2) = Some s1" "utf8_encode (t_pubkey tx) = Some pb1"
    "v2_lp pb1 (if cb then 1 else 2) = Some p1" "v2_opof (Some (t_op tx)) (Some (t_of tx)) = Some z1"
    "x = t1 @ m1 @ a1 @ r1 @ s1 @ p1 @ z1"
    using v2_tx_bytes_cases [OF assms(1)] .
  obtain c2 u2 t2 m2 ab2 a2 rb2 r2 sb2 s2 pb2 p2 z2 where Y:
    "v2_ts_cs (t_ts ty) = Some c2" "to_bytes_le 8 c2 = Some t2" "v2_units (t_amount ty) = Some u2"
    "to_bytes_le 8 u2 = Some m2" "utf8_encode (t_addr ty) = Some ab2" "v2_lp ab2 1 = Some a2"
    "utf8_encode (t_recip ty) = Some rb2" "v2_lp rb2 1 = Some r2" "utf8_encode (t_sig ty) = Some sb2"
    "v2_lp sb2 (if cb then 1 else 2) = Some s2" "utf8_encode (t_pubkey ty) = Some pb2"
    "v2_lp pb2 (if cb then 1 else 2) = Some p2" "v2_opof (Some (t_op ty)) (Some (t_of ty)) = Some z2"
    "y = t2 @ m2 @ a2 @ r2 @ s2 @ p2 @ z2"
    using v2_tx_bytes_cases [OF assms(2)] .
  have e0: "t1 @ m1 @ a1 @ r1 @ s1 @ p1 @ z1 @ r = t2 @ m2 @ a2 @ r2 @ s2 @ p2 @ z2 @ s"
    using assms(3) X(14) Y(14) by simp
  note e1 = to_bytes_le_prefix_free [OF X(2) Y(2) e0]
  note e2 = to_bytes_le_prefix_free [OF X(4) Y(4) conjunct2 [OF e1]]
  note e3 = v2_lp_prefix_free [OF X(6) Y(6) conjunct2 [OF e2]]
  note e4 = v2_lp_prefix_free [OF X(8) Y(8) conjunct2 [OF e3]]
  note e5 = v2_lp_prefix_free [OF X(10) Y(10) conjunct2 [OF e4]]
  note e6 = v2_lp_prefix_free [OF X(12) Y(12) conjunct2 [OF e5]]
  note e7 = v2_opof_prefix_free [OF X(13) Y(13) conjunct2 [OF e6]]
  show ?thesis
    using e1 e2 e3 e4 e5 e6 e7 X Y utf8_encode_inject by (auto simp: v2_content_def)
qed

lemma v2_txs_bytes_prefix_free:
  "length txs = length tys \<Longrightarrow> v2_txs_bytes txs = Some x \<Longrightarrow> v2_txs_bytes tys = Some y \<Longrightarrow> x @ r = y @ s \<Longrightarrow>
     map v2_content txs = map v2_content tys \<and> r = s"
proof (induction txs tys arbitrary: x y rule: list_induct2)
  case (Cons t ts u us)
  obtain a b where x: "v2_tx_bytes t (ts = []) = Some a" "v2_txs_bytes ts = Some b" "x = a @ b"
    using Cons.prems(1) by (auto elim!: bind_SomeE)
  obtain c d where y: "v2_tx_bytes u (us = []) = Some c" "v2_txs_bytes us = Some d" "y = c @ d"
    using Cons.prems(2) by (auto elim!: bind_SomeE)
  have "(ts = []) = (us = [])" using Cons.hyps by auto
  with x y have "v2_content t = v2_content u \<and> b @ r = d @ s"
    using v2_tx_bytes_prefix_free [of t "ts = []" a u c "b @ r" "d @ s"] Cons.prems(3) by simp
  then show ?case using Cons.IH [OF x(2) y(2)] by simp
qed simp

definition is_block_hash :: "pystr \<Rightarrow> bool" where
  "is_block_hash p \<longleftrightarrow> (\<exists>raw. p = bytes_hex raw \<and> (length raw = 28 \<or> length raw = 32))"

lemma prev_bytes_block_hash:
  assumes "p = bytes_hex raw" "length raw = 28 \<or> length raw = 32"
  shows "prev_bytes p = Some (if length raw = 32 then raw else map byte_of p)"
proof -
  have "\<forall>c\<in>set p. c < 128" using bytes_hex_ascii [of _ raw] assms(1) by force
  then show ?thesis using assms by (auto simp: prev_bytes_def fromhex_hex utf8_encode_ascii)
qed

lemma prev_bytes_inject:
  assumes "is_block_hash p" "is_block_hash q" "prev_bytes p = prev_bytes q"
  shows "p = q"
proof -
  obtain a b where a: "p = bytes_hex a" "length a = 28 \<or> length a = 32"
    and b: "q = bytes_hex b" "length b = 28 \<or> length b = 32"
    using assms(1,2) by (auto simp: is_block_hash_def)
  have "length a = length b \<and> (length a = 32 \<longrightarrow> a = b) \<and> (length a = 28 \<longrightarrow> map byte_of p = map byte_of q)"
    using assms(3) prev_bytes_block_hash [OF a] prev_bytes_block_hash [OF b] a b
    by (auto split: if_splits dest: arg_cong [of _ _ length])
  moreover have "p = q" if "map byte_of p = map byte_of q"
  proof -
    have "map unat (map byte_of p) = p" "map unat (map byte_of q) = q"
      using bytes_hex_ascii [of _ a] bytes_hex_ascii [of _ b] a(1) b(1) by (force intro!: map_idI)+
    then show ?thesis using that by metis
  qed
  ultimately show ?thesis using a b by auto
qed

section \<open>What signatures and hashes commit to\<close>

text \<open>
  C17: the bytes a legacy transaction signature covers determine the signed fields: two
  transactions with the same signing buffer have the same timestamp, sender, recipient, amount,
  operation and openfield, whatever quotes, escapes or separators the fields contain.
\<close>

theorem signature_buffer_inject:
  assumes "signature_buffer H ts a r am op f = Some b" "signature_buffer H ts' a' r' am' op' f' = Some b"
    and "list_all valid_str [ts, a, r, am, op, f]" "list_all valid_str [ts', a', r', am', op', f']"
  shows "ts = ts' \<and> a = a' \<and> r = r' \<and> am = am' \<and> op = op' \<and> f = f'"
proof -
  have "repr_tuple (printable H) [ts, a, r, am, op, f] = repr_tuple (printable H) [ts', a', r', am', op', f']"
    using assms(1,2) utf8_encode_inject by (auto simp: signature_buffer_def)
  then have "[ts, a, r, am, op, f] = [ts', a', r', am', op', f']"
    using tuples.enc_prefix_free [OF assms(3,4), of "printable H" "[]" "[]"] by simp
  then show ?thesis by simp
qed

definition wit_hash :: hash_ext where
  "wit_hash = \<lparr>blake2b = (\<lambda>n b. take n (b @ replicate n 0)), sha224 = take 28, printable = (\<lambda>_. True)\<rparr>"

theorem signature_buffer_inject_witness:
  "\<exists>b. signature_buffer wit_hash (lit ''1.00'') (lit ''a'') (lit ''b'') (lit ''0'') (lit ''it's'') [] = Some b
    \<and> list_all valid_str [lit ''1.00'', lit ''a'', lit ''b'', lit ''0'', lit ''it's'', []]
    \<and> (\<forall>f. valid_str f \<longrightarrow>
         signature_buffer wit_hash (lit ''1.00'') (lit ''a'') (lit ''b'') (lit ''0'') (lit ''it's'') f = Some b
         \<longrightarrow> f = [])"
proof -
  have v: "list_all valid_str [lit ''1.00'', lit ''a'', lit ''b'', lit ''0'', lit ''it's'', []]"
    by (simp add: valid_str_def lit_def)
  have "signature_buffer wit_hash (lit ''1.00'') (lit ''a'') (lit ''b'') (lit ''0'') (lit ''it's'') [] \<noteq> None"
    by code_simp
  then obtain b where
    b: "signature_buffer wit_hash (lit ''1.00'') (lit ''a'') (lit ''b'') (lit ''0'') (lit ''it's'') [] = Some b"
    by auto
  have "f = []" if "valid_str f" and
    e: "signature_buffer wit_hash (lit ''1.00'') (lit ''a'') (lit ''b'') (lit ''0'') (lit ''it's'') f = Some b" for f
  proof -
    have "list_all valid_str [lit ''1.00'', lit ''a'', lit ''b'', lit ''0'', lit ''it's'', f]"
      using v that(1) by (simp only: list.pred_inject simp_thms)
    then show ?thesis using signature_buffer_inject [OF e b _ v] by blast
  qed
  then show ?thesis using b v by blast
qed

text \<open>
  C18: the binary signing pre-image determines the centiseconds, the parties, the atomic units,
  the operation and the openfield, and is never a legacy pre-image.
\<close>

theorem signature_buffer_v2_inject:
  assumes "signature_buffer_v2 cs a r u (Some op) (Some f) = Some b"
  shows "(signature_buffer_v2 cs' a' r' u' (Some op') (Some f') = Some b \<longrightarrow>
      cs = cs' \<and> a = a' \<and> r = r' \<and> u = u' \<and> op = op' \<and> f = f')
    \<and> signature_buffer H ts'' a'' r'' am'' op'' f'' \<noteq> Some b"
proof (rule conjI, rule impI)
  obtain t m ab x rb y z where X: "to_bytes_le 8 cs = Some t" "to_bytes_le 8 u = Some m"
      "utf8_encode a = Some ab" "v2_lp ab 1 = Some x" "utf8_encode r = Some rb" "v2_lp rb 1 = Some y"
      "v2_opof (Some op) (Some f) = Some z" "b = [V2_MAGIC, V2_VERSION] @ t @ m @ x @ y @ z"
    using signature_buffer_v2_cases [OF assms] .
  show "cs = cs' \<and> a = a' \<and> r = r' \<and> u = u' \<and> op = op' \<and> f = f'"
    if e: "signature_buffer_v2 cs' a' r' u' (Some op') (Some f') = Some b"
  proof -
    obtain t' m' ab' x' rb' y' z' where Y: "to_bytes_le 8 cs' = Some t'" "to_bytes_le 8 u' = Some m'"
        "utf8_encode a' = Some ab'" "v2_lp ab' 1 = Some x'" "utf8_encode r' = Some rb'" "v2_lp rb' 1 = Some y'"
        "v2_opof (Some op') (Some f') = Some z'" "b = [V2_MAGIC, V2_VERSION] @ t' @ m' @ x' @ y' @ z'"
      using signature_buffer_v2_cases [OF e] .
    have e0: "t @ m @ x @ y @ z @ [] = t' @ m' @ x' @ y' @ z' @ []" using X(8) Y(8) by simp
    note e1 = to_bytes_le_prefix_free [OF X(1) Y(1) e0]
    note e2 = to_bytes_le_prefix_free [OF X(2) Y(2) conjunct2 [OF e1]]
    note e3 = v2_lp_prefix_free [OF X(4) Y(4) conjunct2 [OF e2]]
    note e4 = v2_lp_prefix_free [OF X(6) Y(6) conjunct2 [OF e3]]
    note e5 = v2_opof_prefix_free [OF X(7) Y(7) conjunct2 [OF e4]]
    show ?thesis using e1 e2 e3 e4 e5 X Y utf8_encode_inject by auto
  qed
  show "signature_buffer H ts'' a'' r'' am'' op'' f'' \<noteq> Some b"
    using X(8) by (auto simp: signature_buffer_def repr_tuple_def utf8_char_def byte_of_def V2_MAGIC_def
        elim!: bind_SomeE)
qed

theorem signature_buffer_v2_inject_witness:
  "\<exists>b. signature_buffer_v2 100 (lit ''a'') (lit ''b'') 5 (Some (lit ''op'')) (Some []) = Some b \<and>
     signature_buffer_v2 101 (lit ''a'') (lit ''b'') 5 (Some (lit ''op'')) (Some []) \<noteq> Some b"
proof -
  have "signature_buffer_v2 100 (lit ''a'') (lit ''b'') 5 (Some (lit ''op'')) (Some []) \<noteq> None" by code_simp
  then obtain b where
    b: "signature_buffer_v2 100 (lit ''a'') (lit ''b'') 5 (Some (lit ''op'')) (Some []) = Some b" by auto
  have "signature_buffer_v2 101 (lit ''a'') (lit ''b'') 5 (Some (lit ''op'')) (Some []) \<noteq> Some b"
  proof
    assume "signature_buffer_v2 101 (lit ''a'') (lit ''b'') 5 (Some (lit ''op'')) (Some []) = Some b"
    then have "100 = (101 :: int)" using signature_buffer_v2_inject [OF b] by blast
    then show False by simp
  qed
  then show ?thesis using b by blast
qed

text \<open>The byte string a block hash is taken of, in the encoding of the block's height.\<close>

definition block_preimage_at :: "hash_ext \<Rightarrow> nat \<Rightarrow> nat option \<Rightarrow> tx8 list \<Rightarrow> pystr \<Rightarrow> bytes option" where
  "block_preimage_at H height fh txs p =
     (if at_fork height fh then block_preimage_v2 txs p else block_preimage H txs p)"

lemma block_preimage_v2_inject:
  assumes "block_preimage_v2 txs p = Some b" "block_preimage_v2 tys q = Some b" "is_block_hash p" "is_block_hash q"
  shows "map v2_content txs = map v2_content tys \<and> p = q"
proof -
  obtain n x u where X: "to_bytes_le 4 (int (length txs)) = Some n" "v2_txs_bytes txs = Some x"
      "prev_bytes p = Some u" "b = n @ x @ u"
    using assms(1) unfolding block_preimage_v2_def by (elim bind_SomeE) auto
  obtain m y v where Y: "to_bytes_le 4 (int (length tys)) = Some m" "v2_txs_bytes tys = Some y"
      "prev_bytes q = Some v" "b = m @ y @ v"
    using assms(2) unfolding block_preimage_v2_def by (elim bind_SomeE) auto
  have "length txs = length tys \<and> x @ u = y @ v"
    using to_bytes_le_prefix_free [OF X(1) Y(1), of "x @ u" "y @ v"] X(4) Y(4) by simp
  then have "map v2_content txs = map v2_content tys \<and> u = v"
    using v2_txs_bytes_prefix_free [OF _ X(2) Y(2)] by blast
  then show ?thesis using prev_bytes_inject [OF assms(3,4)] X(3) Y(3) by simp
qed

lemma block_preimage_inject:
  assumes "block_preimage H txs p = Some b" "block_preimage H tys q = Some b"
    and "list_all (\<lambda>t. list_all valid_str (tx8_list t)) (txs @ tys)"
  shows "map v2_content txs = map v2_content tys \<and> p = q"
proof -
  have "repr_tuples (printable H) (map tx8_list txs) @ p = repr_tuples (printable H) (map tx8_list tys) @ q"
    using assms(1,2) utf8_encode_inject by (auto simp: block_preimage_def)
  then have "map tx8_list txs = map tx8_list tys \<and> p = q"
    using assms(3) by (intro repr_tuples_prefix_free) (auto simp: list_all_iff)
  moreover have "tx8_list t = tx8_list t' \<Longrightarrow> v2_content t = v2_content t'" for t t'
    by (simp add: tx8_list_def v2_content_def)
  ultimately show ?thesis by (auto simp: list_eq_iff_nth_eq)
qed

text \<open>
  C16: a block hash commits to the whole block.  Two blocks of the same height with the same hash
  have the same parent and the same transactions (in the binary form, with times and amounts compared
  as centiseconds and atomic units), unless the hash function collides on their two pre-images.
\<close>

theorem block_hash_commits:
  assumes "block_hash_at H height fh txs p = Some d" "block_hash_at H height fh tys q = Some d"
    and "block_preimage_at H height fh txs p = Some b" "block_preimage_at H height fh tys q = Some c"
    and no_collision: "sha224 H b = sha224 H c \<or> blake2b H 32 b = blake2b H 32 c \<Longrightarrow> b = c"
    and "list_all (\<lambda>t. list_all valid_str (tx8_list t)) (txs @ tys)" "is_block_hash p" "is_block_hash q"
  shows "map v2_content txs = map v2_content tys \<and> p = q"
proof (cases "at_fork height fh")
  case True
  then have "bytes_hex (blake2b H 32 b) = bytes_hex (blake2b H 32 c)"
    using assms(1-4) by (simp add: block_hash_at_def block_hash_v2_def block_preimage_at_def)
  then have "b = c" using no_collision bytes_hex_inject by blast
  then have "block_preimage_v2 txs p = Some b" "block_preimage_v2 tys q = Some b"
    using True assms(3,4) by (simp_all add: block_preimage_at_def)
  then show ?thesis using assms(7,8) by (rule block_preimage_v2_inject)
next
  case False
  then have "bytes_hex (sha224 H b) = bytes_hex (sha224 H c)"
    using assms(1-4) by (simp add: block_hash_at_def block_hash_def block_preimage_at_def)
  then have "b = c" using no_collision bytes_hex_inject by blast
  then have "block_preimage H txs p = Some b" "block_preimage H tys q = Some b"
    using False assms(3,4) by (simp_all add: block_preimage_at_def)
  then show ?thesis using assms(6) by (rule block_preimage_inject)
qed

definition wit_tx8 :: "string \<Rightarrow> tx8" where
  "wit_tx8 am = \<lparr>t_ts = lit ''1.00'', t_addr = lit ''a'', t_recip = lit ''b'', t_amount = lit am,
     t_sig = lit ''s'', t_pubkey = lit ''k'', t_op = lit ''0'', t_of = lit ''x''\<rparr>"

theorem block_hash_commits_witness:
  "\<exists>d. block_hash_at wit_hash 9 (Some 5) [wit_tx8 ''2.5''] (bytes_hex (replicate 28 7)) = Some d
    \<and> block_hash_at wit_hash 9 (Some 5) [wit_tx8 ''2.50''] (bytes_hex (replicate 28 7)) = Some d
    \<and> map v2_content [wit_tx8 ''2.5''] = map v2_content [wit_tx8 ''2.50'']"
proof -
  let ?p = "bytes_hex (replicate 28 7)"
  have b: "block_preimage_at wit_hash 9 (Some 5) [wit_tx8 ''2.5''] ?p \<noteq> None" by code_simp
  then obtain b where b: "block_preimage_at wit_hash 9 (Some 5) [wit_tx8 ''2.5''] ?p = Some b" by auto
  have e: "block_preimage_at wit_hash 9 (Some 5) [wit_tx8 ''2.50''] ?p =
      block_preimage_at wit_hash 9 (Some 5) [wit_tx8 ''2.5''] ?p"
  proof -
    have "v2_units (lit ''2.50'') = v2_units (lit ''2.5'')" by code_simp
    moreover have "(5 :: nat) \<le> 9" by simp
    ultimately show ?thesis
      by (simp only: if_True block_preimage_at_def at_fork_def block_preimage_v2_def v2_txs_bytes.simps
          v2_tx_bytes_def wit_tx8_def tx8.simps list.size option.case)
  qed
  have c: "block_preimage_at wit_hash 9 (Some 5) [wit_tx8 ''2.50''] ?p = Some b" using b e by simp
  have "block_hash_at wit_hash 9 (Some 5) txs ?p =
      map_option (\<lambda>x. bytes_hex (blake2b wit_hash 32 x)) (block_preimage_at wit_hash 9 (Some 5) txs ?p)" for txs
    by (cases "block_preimage_v2 txs ?p")
      (simp_all add: block_hash_at_def block_hash_v2_def block_preimage_at_def at_fork_def)
  then have d: "block_hash_at wit_hash 9 (Some 5) [wit_tx8 ''2.5''] ?p = Some (bytes_hex (blake2b wit_hash 32 b))"
    "block_hash_at wit_hash 9 (Some 5) [wit_tx8 ''2.50''] ?p = Some (bytes_hex (blake2b wit_hash 32 b))"
    by (simp_all only: b c option.map)
  have v: "list_all (\<lambda>t. list_all valid_str (tx8_list t)) ([wit_tx8 ''2.5''] @ [wit_tx8 ''2.50''])" by code_simp
  have h: "is_block_hash ?p"
    unfolding is_block_hash_def by (rule exI [of _ "replicate 28 7"]) (simp only: length_replicate simp_thms)
  show ?thesis using block_hash_commits [OF d b c refl v h h] d by blast
qed

end
