(* ===== verification/Fork.thy ===== *)
theory Fork
  imports PyText
begin

text \<open>
  \<^verbatim>\<open>fork.py\<close>: scheduling of the hf2 hard fork from the signals miners leave in coinbase
  openfields, the persisted lock-in, and the version filter.  The signal reader is an argument; the
  sidecar file is the option of the dictionary it holds (None: missing or unreadable).
\<close>

definition FORK2_SIGNAL :: pystr where "FORK2_SIGNAL = lit ''hf2''"
definition FORK2_WINDOW :: nat where "FORK2_WINDOW = 1000"
definition FORK2_BOUNDARY :: nat where "FORK2_BOUNDARY = 1000"
definition FORK2_BURY :: nat where "FORK2_BURY = 30"

section \<open>Activation height\<close>

definition has_fork_signal :: "pystr \<Rightarrow> bool" where
  "has_fork_signal openfield \<longleftrightarrow> openfield \<noteq> [] \<and> sublist FORK2_SIGNAL openfield"

definition next_fork_boundary :: "nat \<Rightarrow> nat \<Rightarrow> nat" where
  "next_fork_boundary height boundary = (height div boundary + 1) * boundary"

fun fork_scan :: "(nat \<Rightarrow> bool) \<Rightarrow> nat \<Rightarrow> nat \<Rightarrow> nat list \<Rightarrow> nat option" where
  "fork_scan read_signal window run [] = None"
| "fork_scan read_signal window run (h # hs) =
     (if read_signal h then
        (if window \<le> run + 1 then Some h else fork_scan read_signal window (run + 1) hs)
      else fork_scan read_signal window 0 hs)"

definition dynamic_fork_height ::
  "(nat \<Rightarrow> bool) \<Rightarrow> nat option \<Rightarrow> nat \<Rightarrow> nat \<Rightarrow> nat \<Rightarrow> nat \<Rightarrow> nat option" where
  "dynamic_fork_height read_signal tip window boundary bury start_h =
     (case tip of
        None \<Rightarrow> None
      | Some t \<Rightarrow>
          if t < window then None
          else map_option (\<lambda>lock_in. next_fork_boundary (lock_in + bury) boundary)
                 (fork_scan read_signal window 0 [max 1 start_h..<t + 1]))"

definition lockin_at_tip ::
  "(nat \<Rightarrow> bool) \<Rightarrow> nat option \<Rightarrow> nat \<Rightarrow> nat \<Rightarrow> nat \<Rightarrow> nat option" where
  "lockin_at_tip read_signal tip window boundary bury =
     (case tip of
        None \<Rightarrow> None
      | Some t \<Rightarrow>
          if t < window then None
          else if list_all read_signal [t - window + 1..<t + 1]
          then Some (next_fork_boundary (t + bury) boundary) else None)"

definition fork_signal_reader :: "(nat \<Rightarrow> pystr option) \<Rightarrow> nat \<Rightarrow> bool" where
  "fork_signal_reader last_openfield height =
     (case last_openfield height of None \<Rightarrow> False | Some f \<Rightarrow> has_fork_signal f)"

fun signal_run :: "(nat \<Rightarrow> bool) \<Rightarrow> nat \<Rightarrow> nat \<Rightarrow> nat" where
  "signal_run read_signal 0 h = 0"
| "signal_run read_signal (Suc left) h =
     (if 1 \<le> h \<and> read_signal h then Suc (signal_run read_signal left (h - 1)) else 0)"

record fork_view =
  v_tip :: "nat option"
  v_window :: nat
  v_run :: nat
  v_locked :: bool
  v_height :: "nat option"
  v_active :: bool

definition fork_status :: "(nat \<Rightarrow> bool) \<Rightarrow> nat option \<Rightarrow> nat \<Rightarrow> nat \<Rightarrow> nat \<Rightarrow> fork_view" where
  "fork_status read_signal tip window boundary bury =
     (let fh = dynamic_fork_height read_signal tip window boundary bury 1 in
      \<lparr>v_tip = tip, v_window = window,
       v_run = (case tip of None \<Rightarrow> 0 | Some t \<Rightarrow> signal_run read_signal window t),
       v_locked = (fh \<noteq> None), v_height = fh,
       v_active = (case (fh, tip) of (Some f, Some t) \<Rightarrow> f \<le> t | _ \<Rightarrow> False)\<rparr>)"

section \<open>The persisted lock-in\<close>

type_synonym sidecar = "(pystr \<rightharpoonup> int) option"

definition load_locked_height :: "sidecar \<Rightarrow> pystr \<Rightarrow> int option" where
  "load_locked_height file key = (case file of None \<Rightarrow> None | Some data \<Rightarrow> data key)"

text \<open>\<^verbatim>\<open>writable\<close> is whether writing the temporary file and replacing the sidecar succeeds.\<close>

definition save_locked_height :: "bool \<Rightarrow> sidecar \<Rightarrow> pystr \<Rightarrow> int option \<Rightarrow> sidecar" where
  "save_locked_height writable file key height =
     (case height of
        None \<Rightarrow> file
      | Some h \<Rightarrow>
          let data = (case file of None \<Rightarrow> Map.empty | Some d \<Rightarrow> d) in
          if data key \<noteq> None then file
          else if writable then Some (data(key \<mapsto> h)) else file)"

section \<open>The Fork object\<close>

definition POW_FORK :: nat where "POW_FORK = 1450000"
definition POW_FORK_TESTNET :: nat where "POW_FORK_TESTNET = 894170"
definition REWARD_MAX :: rat where "REWARD_MAX = 6"

definition versions_remove :: "pystr list" where
  "versions_remove = [lit ''mainnet0020'', lit ''mainnet0019'', lit ''mainnet0018'', lit ''mainnet0017'']"

text \<open>\<^verbatim>\<open>for v in allow: if v in versions_remove: allow.remove(v)\<close>.  The loop walks the list it shrinks by
  index, so the position moves on by one after every element, removed or not.\<close>

function limit_loop :: "nat \<Rightarrow> pystr list \<Rightarrow> pystr list" where
  "limit_loop i allow =
     (if length allow \<le> i then allow
      else if allow ! i \<in> set versions_remove then limit_loop (i + 1) (remove1 (allow ! i) allow)
      else limit_loop (i + 1) allow)"
  by pat_completeness auto
termination by (relation "measure (\<lambda>(i, allow). length allow - i)") (auto simp: length_remove1)

declare limit_loop.simps [simp del]

definition limit_version :: "pystr list \<Rightarrow> pystr list" where
  "limit_version allow = limit_loop 0 allow"

record fork_state =
  FORK_REWARD :: "rat option"
  PASSED :: bool
  FORK_REWARD_TESTNET :: "rat option"
  PASSED_TESTNET :: bool

definition check_postfork_reward :: "(nat \<Rightarrow> rat option) \<Rightarrow> fork_state \<Rightarrow> fork_state \<times> bool" where
  "check_postfork_reward reward_at s =
     (let s' = (case reward_at (POW_FORK + 1) of
                  None \<Rightarrow> s\<lparr>PASSED := True\<rparr>
                | Some r \<Rightarrow> s\<lparr>FORK_REWARD := Some r, PASSED := r < REWARD_MAX\<rparr>)
      in (s', PASSED s'))"

definition check_postfork_reward_testnet :: "(nat \<Rightarrow> rat option) \<Rightarrow> fork_state \<Rightarrow> fork_state \<times> bool" where
  "check_postfork_reward_testnet reward_at s =
     (let s' = (case reward_at (POW_FORK_TESTNET + 1) of
                  None \<Rightarrow> s\<lparr>PASSED_TESTNET := True\<rparr>
                | Some r \<Rightarrow> s\<lparr>FORK_REWARD_TESTNET := Some r, PASSED_TESTNET := r < REWARD_MAX\<rparr>)
      in (s', PASSED_TESTNET s'))"

section \<open>Lock-in is the first full window\<close>

definition window_closes :: "(nat \<Rightarrow> bool) \<Rightarrow> nat \<Rightarrow> nat \<Rightarrow> nat \<Rightarrow> bool" where
  "window_closes rs start window h \<longleftrightarrow> start + window \<le> h + 1 \<and> (\<forall>i. h < i + window \<and> i \<le> h \<longrightarrow> rs i)"

lemma next_fork_boundary_bounds:
  assumes "0 < boundary"
  shows "height < next_fork_boundary height boundary"
    "next_fork_boundary height boundary \<le> height + boundary"
    "boundary dvd next_fork_boundary height boundary"
proof -
  have "height mod boundary < boundary" using assms by simp
  moreover have "height div boundary * boundary + height mod boundary = height" by simp
  ultimately show "height < next_fork_boundary height boundary"
    "next_fork_boundary height boundary \<le> height + boundary"
    "boundary dvd next_fork_boundary height boundary"
    unfolding next_fork_boundary_def add_mult_distrib by (linarith | simp)+
qed

text \<open>The scan at height h: \<^verbatim>\<open>run\<close> counts the signalled blocks directly below h, and no window
  has closed before.\<close>

definition scan_inv :: "(nat \<Rightarrow> bool) \<Rightarrow> nat \<Rightarrow> nat \<Rightarrow> nat \<Rightarrow> nat \<Rightarrow> bool" where
  "scan_inv rs start window h run \<longleftrightarrow>
     start + run \<le> h \<and> run < window \<and> (\<forall>i. h \<le> i + run \<and> i < h \<longrightarrow> rs i) \<and>
     (start + run < h \<longrightarrow> \<not> rs (h - run - 1)) \<and> (\<forall>j<h. \<not> window_closes rs start window j)"

lemma scan_inv_closes:
  assumes "scan_inv rs start window h run"
  shows "window_closes rs start window h \<longleftrightarrow> rs h \<and> window \<le> run + 1"
proof
  assume w: "window_closes rs start window h"
  have "rs h" using w assms by (auto simp: window_closes_def scan_inv_def)
  moreover have "window \<le> run + 1"
  proof (rule ccontr)
    assume n: "\<not> window \<le> run + 1"
    then have "start + run < h" using w by (auto simp: window_closes_def)
    then have "\<not> rs (h - run - 1)" "h < (h - run - 1) + window" using assms n by (auto simp: scan_inv_def)
    then show False using w by (auto simp: window_closes_def)
  qed
  ultimately show "rs h \<and> window \<le> run + 1" by simp
next
  assume r: "rs h \<and> window \<le> run + 1"
  then have w: "window = run + 1" using assms by (simp add: scan_inv_def)
  have "rs i" if "h < i + window" "i \<le> h" for i
    using that r w assms by (cases "i = h") (auto simp: scan_inv_def)
  then show "window_closes rs start window h"
    using w assms by (auto simp: window_closes_def scan_inv_def)
qed

lemma scan_inv_step:
  assumes "scan_inv rs start window h run" and "\<not> window_closes rs start window h" and "0 < window"
  shows "scan_inv rs start window (h + 1) (if rs h then run + 1 else 0)"
  using assms scan_inv_closes [OF assms(1)]
  by (auto simp: scan_inv_def less_Suc_eq le_Suc_eq Suc_diff_le)

lemma fork_scan_spec:
  assumes "scan_inv rs start window h run" and "0 < window"
  shows "fork_scan rs window run [h..<e] = Some l \<longleftrightarrow>
    h \<le> l \<and> l < e \<and> window_closes rs start window l \<and> (\<forall>j<l. \<not> window_closes rs start window j)"
  using assms(1)
proof (induction "e - h" arbitrary: h run)
  case 0
  then show ?case by (auto simp: scan_inv_def)
next
  case (Suc n)
  then have e: "[h..<e] = h # [h + 1..<e]" by (simp add: upt_conv_Cons)
  show ?case
  proof (cases "window_closes rs start window h")
    case True
    then have "fork_scan rs window run [h..<e] = Some h"
      using scan_inv_closes [OF Suc.prems] by (simp add: e)
    moreover have "\<forall>j<h. \<not> window_closes rs start window j" using Suc.prems by (simp add: scan_inv_def)
    ultimately show ?thesis using True Suc.hyps(2) by (auto simp: le_less)
  next
    case False
    have "fork_scan rs window run [h..<e] = fork_scan rs window (if rs h then run + 1 else 0) [h + 1..<e]"
      using False scan_inv_closes [OF Suc.prems] by (auto simp: e)
    then show ?thesis
      using Suc.hyps(1) [OF _ scan_inv_step [OF Suc.prems False assms(2)]] Suc.hyps(2) False
      by (auto simp: Suc_le_eq le_less)
  qed
qed

lemma scan_inv_start: "0 < window \<Longrightarrow> scan_inv rs start window start 0"
  by (auto simp: scan_inv_def window_closes_def)

lemma dynamic_fork_height_iff:
  assumes "0 < window"
  shows "dynamic_fork_height rs (Some tip) window boundary bury start = Some f \<longleftrightarrow>
    (\<exists>l\<le>tip. window_closes rs (max 1 start) window l \<and> (\<forall>j<l. \<not> window_closes rs (max 1 start) window j)
       \<and> f = next_fork_boundary (l + bury) boundary)"
proof -
  have l: "max 1 start \<le> l \<and> window \<le> l" if "window_closes rs (max 1 start) window l" for l
  proof -
    have "max 1 start + window \<le> l + 1" using that by (simp only: window_closes_def)
    then show ?thesis using assms max.cobounded1 [of 1 start] by linarith
  qed
  show ?thesis
  proof (cases "tip < window")
    case True
    then have "\<not> window_closes rs (max 1 start) window l" if "l \<le> tip" for l
      using l [of l] that by linarith
    then show ?thesis using True by (simp add: dynamic_fork_height_def) blast
  next
    case False
    then have "dynamic_fork_height rs (Some tip) window boundary bury start = Some f \<longleftrightarrow>
        (\<exists>l. fork_scan rs window 0 [max 1 start..<tip + 1] = Some l \<and> f = next_fork_boundary (l + bury) boundary)"
      by (auto simp: dynamic_fork_height_def)
    also have "\<dots> \<longleftrightarrow> (\<exists>l\<le>tip. window_closes rs (max 1 start) window l \<and>
        (\<forall>j<l. \<not> window_closes rs (max 1 start) window j) \<and> f = next_fork_boundary (l + bury) boundary)"
      unfolding fork_scan_spec [OF scan_inv_start [OF assms] assms] less_Suc_eq_le Suc_eq_plus1 [symmetric]
      using l by blast
    finally show ?thesis .
  qed
qed

lemma lockin_at_tip_iff:
  assumes "0 < window"
  shows "lockin_at_tip rs (Some t) window boundary bury =
    (if window_closes rs 1 window t then Some (next_fork_boundary (t + bury) boundary) else None)"
proof -
  have "list_all rs [t - window + 1..<t + 1] \<longleftrightarrow> (\<forall>i. t < i + window \<and> i \<le> t \<longrightarrow> rs i)" if "window \<le> t"
  proof -
    have "i \<in> set [t - window + 1..<t + 1] \<longleftrightarrow> t < i + window \<and> i \<le> t" for i
      unfolding set_upt atLeastLessThan_iff using that by linarith
    then show ?thesis unfolding list_all_iff by blast
  qed
  then show ?thesis using assms by (auto simp: lockin_at_tip_def window_closes_def)
qed

lemma find_upt_first:
  "find P [0..<n] = Some l \<longleftrightarrow> l < n \<and> P l \<and> (\<forall>j<l. \<not> P j)"
  by (auto simp: find_Some_iff)

text \<open>
  C13: the fork activates exactly when the chain closes its first window of consecutively
  signalled blocks: the activation height is defined if and only if such a window exists at
  or below the tip, and it is the next boundary above the end of the earliest one plus the burial depth.
\<close>

theorem fork_height_is_first_window:
  assumes "0 < window" and "0 < boundary"
  shows "dynamic_fork_height rs (Some tip) window boundary bury start = Some f \<longleftrightarrow>
    (\<exists>l\<le>tip. window_closes rs (max 1 start) window l \<and> (\<forall>j<l. \<not> window_closes rs (max 1 start) window j)
       \<and> f = next_fork_boundary (l + bury) boundary \<and> l + bury < f \<and> f \<le> l + bury + boundary \<and> boundary dvd f)"
  using next_fork_boundary_bounds [OF assms(2)] by (auto simp: dynamic_fork_height_iff [OF assms(1)])

theorem fork_height_is_first_window_witness:
  "dynamic_fork_height (\<lambda>h. h \<in> {2, 4, 5, 6, 8}) (Some 9) 3 10 1 1 = Some 10 \<and>
   (\<exists>l\<le>9. window_closes (\<lambda>h. h \<in> {2, 4, 5, 6, 8}) (max 1 1) 3 l \<and> l + 1 < 10)"
proof -
  have d: "dynamic_fork_height (\<lambda>h. h \<in> {2, 4, 5, 6, 8}) (Some 9) 3 10 1 1 = Some 10" by code_simp
  show ?thesis using fork_height_is_first_window [of 3 10 "\<lambda>h. h \<in> {2, 4, 5, 6, 8}" 9 1 1 10] d by auto
qed

text \<open>
  C14: the activation height does not depend on the tip at which it is computed: once a node at
  tip t finds height f, every node whose chain agrees up to t finds f at every later tip, whatever is
  signalled after t.
\<close>

theorem fork_height_tip_independent:
  assumes "dynamic_fork_height rs (Some t) window boundary bury start = Some f"
    and "0 < window" and "t \<le> t'" and "\<forall>h\<le>t. rs' h = rs h"
  shows "dynamic_fork_height rs' (Some t') window boundary bury start = Some f"
proof -
  obtain l where l: "l \<le> t" "window_closes rs (max 1 start) window l"
    "\<forall>j<l. \<not> window_closes rs (max 1 start) window j" "f = next_fork_boundary (l + bury) boundary"
    using assms(1) unfolding dynamic_fork_height_iff [OF assms(2)] by blast
  have "window_closes rs' (max 1 start) window j = window_closes rs (max 1 start) window j" if "j \<le> t" for j
    using that assms(4) by (auto simp: window_closes_def)
  then show ?thesis
    unfolding dynamic_fork_height_iff [OF assms(2)] using l assms(3) by (intro exI [of _ l]) auto
qed

theorem fork_height_tip_independent_witness:
  "dynamic_fork_height (\<lambda>h. h = 4 \<or> h = 5 \<or> h = 6 \<or> h = 8) (Some 60) 3 10 1 1 = Some 10"
proof -
  have "dynamic_fork_height (\<lambda>h. h \<in> {4, 5, 6}) (Some 7) 3 10 1 1 = Some 10" by code_simp
  then show ?thesis by (rule fork_height_tip_independent) auto
qed

text \<open>
  C15: the constant-cost check at the tip agrees with the full scan: scanning the whole chain gives
  the answer of the first tip at which the check fired, and none if it never did.
\<close>

theorem lockin_agrees_with_scan:
  assumes "0 < window"
  shows "dynamic_fork_height rs (Some tip) window boundary bury 1 =
    (case find (\<lambda>t. lockin_at_tip rs (Some t) window boundary bury \<noteq> None) [0..<tip + 1] of
       None \<Rightarrow> None | Some t \<Rightarrow> lockin_at_tip rs (Some t) window boundary bury)"
proof -
  define P where "P t \<longleftrightarrow> lockin_at_tip rs (Some t) window boundary bury \<noteq> None" for t
  have P: "P t \<longleftrightarrow> window_closes rs 1 window t" for t by (simp add: P_def lockin_at_tip_iff [OF assms])
  note iff = dynamic_fork_height_iff [OF assms, of rs tip boundary bury 1]
  show ?thesis
  proof (cases "find P [0..<tip + 1]")
    case None
    then have "\<not> window_closes rs 1 window t" if "t \<le> tip" for t
      using that by (simp only: find_None_iff P [symmetric] set_upt) simp
    then have "dynamic_fork_height rs (Some tip) window boundary bury 1 \<noteq> Some f" for f
      unfolding iff max.idem by blast
    then show ?thesis using None unfolding P_def by (metis option.exhaust option.simps(4))
  next
    case (Some t)
    then have t: "t < tip + 1" "window_closes rs 1 window t" "\<forall>j<t. \<not> window_closes rs 1 window j"
      unfolding find_upt_first P by blast+
    then have "dynamic_fork_height rs (Some tip) window boundary bury 1 = Some (next_fork_boundary (t + bury) boundary)"
      unfolding iff max.idem by (intro exI [of _ t]) auto
    then show ?thesis using Some t(2) unfolding P_def by (simp only: lockin_at_tip_iff [OF assms] option.simps if_True)
  qed
qed

theorem lockin_agrees_with_scan_witness:
  "dynamic_fork_height (\<lambda>h. h \<in> {4, 5, 6}) (Some 7) 3 10 1 1 =
     lockin_at_tip (\<lambda>h. h \<in> {4, 5, 6}) (Some 6) 3 10 1"
proof -
  have "find (\<lambda>t. lockin_at_tip (\<lambda>h. h \<in> {4, 5, 6}) (Some t) 3 10 1 \<noteq> None) [0..<7 + 1] = Some 6" by code_simp
  then show ?thesis
    using lockin_agrees_with_scan [of 3 "\<lambda>h. h \<in> {4, 5, 6}" 7 10 1] by simp
qed

text \<open>A stored lock-in height is never overwritten.\<close>

lemma save_keeps_locked:
  "load_locked_height file key = Some h \<Longrightarrow>
     load_locked_height (save_locked_height w file key' v) key = Some h"
  by (auto simp: load_locked_height_def save_locked_height_def Let_def split: option.splits)

lemma load_save_fresh:
  "load_locked_height file key = None \<Longrightarrow>
     load_locked_height (save_locked_height True file key (Some h)) key = Some h"
  by (auto simp: load_locked_height_def save_locked_height_def Let_def split: option.splits)

lemma limit_loop_keeps: "v \<in> set allow \<Longrightarrow> v \<notin> set versions_remove \<Longrightarrow> v \<in> set (limit_loop i allow)"
proof (induction i allow rule: limit_loop.induct)
  case (1 i allow)
  show ?case
  proof (cases "length allow \<le> i")
    case False
    then show ?thesis
      using 1 by (subst limit_loop.simps) (auto, metis in_set_remove1)
  qed (use 1 in \<open>simp add: limit_loop.simps\<close>)
qed


end
