(* ===== verification/ForkResolution.thy ===== *)
theory ForkResolution
  imports PyText
begin

text \<open>
  \<^verbatim>\<open>fork_resolution.py\<close>: how a node decides, from tri-state probes of a peer, whether its chain has
  diverged, where, and what to do about it.  A probe is a \<^typ>\<open>bool option\<close>: None is "no answer".
  The peer behind a link is given by its replies; heights are integers.
\<close>

datatype verdict_state = BEHIND | SYNCED | REORG | DEAD_FORK | UNKNOWN | TIE_WIN

definition LINEAR_PROBES :: nat where "LINEAR_PROBES = 6"
definition MAX_PROBE_DEPTH :: int where "MAX_PROBE_DEPTH = 720"
definition FETCH_CAP_BLOCKS :: nat where "FETCH_CAP_BLOCKS = 1000"
definition VERDICT_TTL_S :: rat where "VERDICT_TTL_S = 60"
definition MIN_ANSWERS_DEEP :: nat where "MIN_ANSWERS_DEEP = 2"
definition MAX_PROBE_PEERS :: nat where "MAX_PROBE_PEERS = 8"

section \<open>Decisions\<close>

datatype side = Ours | Theirs

definition tie_winner :: "pystr option \<Rightarrow> pystr option \<Rightarrow> side" where
  "tie_winner ours theirs =
     (case (ours, theirs) of
        (Some a, Some b) \<Rightarrow>
          if a = [] \<or> b = [] \<or> a = b then Ours else if a < b then Ours else Theirs
      | _ \<Rightarrow> Ours)"

definition agrees :: "(int \<Rightarrow> pystr option) \<Rightarrow> (int \<Rightarrow> pystr \<Rightarrow> bool option) \<Rightarrow> int \<Rightarrow> bool option" where
  "agrees our_hash_at knows h =
     (case our_hash_at h of None \<Rightarrow> None | Some oh \<Rightarrow> if oh = [] then None else knows h oh)"

text \<open>The linear walk returns (Inl) or falls through (Inr) with the height it reached and the
  number of probes made.\<close>

fun linear_walk :: "(int \<Rightarrow> bool option) \<Rightarrow> int \<Rightarrow> nat \<Rightarrow> int \<Rightarrow> nat \<Rightarrow> (int option \<times> nat) + (int \<times> nat)" where
  "linear_walk ag floor_h 0 hi probes = Inr (hi, probes)"
| "linear_walk ag floor_h (Suc n) hi probes =
     (let h = hi - 1 in
      if h < floor_h then Inl (Some (floor_h - 1), probes)
      else case ag h of
        None \<Rightarrow> Inl (None, probes + 1)
      | Some True \<Rightarrow> Inl (Some h, probes + 1)
      | Some False \<Rightarrow> linear_walk ag floor_h n h (probes + 1))"

function binary_search :: "(int \<Rightarrow> bool option) \<Rightarrow> int \<Rightarrow> int \<Rightarrow> nat \<Rightarrow> int option \<times> nat" where
  "binary_search ag lo hi probes =
     (if hi - lo > 1 then
        (let mid = (lo + hi) div 2 in
         case ag mid of
           None \<Rightarrow> (None, probes + 1)
         | Some True \<Rightarrow> binary_search ag mid hi (probes + 1)
         | Some False \<Rightarrow> binary_search ag lo mid (probes + 1))
      else (Some lo, probes))"
  by pat_completeness auto
termination by (relation "measure (\<lambda>(ag, lo, hi, p). nat (hi - lo))") auto

declare binary_search.simps [simp del]

definition find_ancestor :: "(int \<Rightarrow> bool option) \<Rightarrow> int \<Rightarrow> int \<Rightarrow> nat \<Rightarrow> int option \<times> nat" where
  "find_ancestor ag tip floor_h lin_n =
     (case ag tip of
        None \<Rightarrow> (None, 1)
      | Some True \<Rightarrow> (Some tip, 1)
      | Some False \<Rightarrow>
          (case linear_walk ag floor_h lin_n tip 1 of
             Inl r \<Rightarrow> r
           | Inr (hi, probes) \<Rightarrow>
               if hi \<le> floor_h then (Some (floor_h - 1), probes)
               else (case ag floor_h of
                       None \<Rightarrow> (None, probes + 1)
                     | Some False \<Rightarrow> (Some (floor_h - 1), probes + 1)
                     | Some True \<Rightarrow> binary_search ag floor_h hi (probes + 1))))"

definition find_common_ancestor ::
  "(int \<Rightarrow> pystr option) \<Rightarrow> int \<Rightarrow> (int \<Rightarrow> pystr \<Rightarrow> bool option) \<Rightarrow> int \<Rightarrow> nat \<Rightarrow> int option \<times> nat" where
  "find_common_ancestor our_hash_at tip knows floor_h lin_n =
     find_ancestor (agrees our_hash_at knows) tip floor_h lin_n"

fun count_answers :: "('p \<Rightarrow> bool option) \<Rightarrow> 'p list \<Rightarrow> nat \<Rightarrow> nat \<Rightarrow> nat \<times> nat" where
  "count_answers knows [] answers disagree = (answers, disagree)"
| "count_answers knows (p # ps) answers disagree =
     (case knows p of
        None \<Rightarrow> count_answers knows ps answers disagree
      | Some r \<Rightarrow> count_answers knows ps (answers + 1) (if \<not> r then disagree + 1 else disagree))"

definition majority_disagrees :: "'p list \<Rightarrow> ('p \<Rightarrow> bool option) \<Rightarrow> nat \<Rightarrow> bool option \<times> nat \<times> nat" where
  "majority_disagrees peers knows min_answers =
     (let (answers, disagree) = count_answers knows peers 0 0 in
      if answers < min_answers then (None, answers, disagree)
      else (Some (disagree * 2 > answers), answers, disagree))"

definition classify :: "int option \<Rightarrow> int \<Rightarrow> int \<Rightarrow> (int \<Rightarrow> bool) \<Rightarrow> verdict_state" where
  "classify ancestor tip peer_height floor_ok =
     (case ancestor of
        None \<Rightarrow> UNKNOWN
      | Some a \<Rightarrow>
          if tip \<le> a then (if tip < peer_height then BEHIND else SYNCED)
          else if peer_height < tip then SYNCED
          else if \<not> floor_ok a then DEAD_FORK
          else REORG)"

section \<open>The link\<close>

datatype reply = RFail | RNull | RInt int | RStr pystr | ROther

definition link_knows :: "reply \<Rightarrow> int \<Rightarrow> bool option" where
  "link_knows r height =
     (case r of
        RFail \<Rightarrow> None
      | RNull \<Rightarrow> Some False
      | RInt i \<Rightarrow> Some (i = height)
      | RStr s \<Rightarrow>
          if s = [] \<or> s = lit ''None'' then Some False
          else (case py_int s of None \<Rightarrow> None | Some i \<Rightarrow> Some (i = height))
      | ROther \<Rightarrow> None)"

record 'b link =
  l_alive :: bool
  l_reply :: "pystr \<Rightarrow> reply"
  l_blocks_after :: "nat \<Rightarrow> int \<Rightarrow> pystr \<Rightarrow> 'b list list option"
  l_hash_at :: "nat \<Rightarrow> int \<Rightarrow> pystr option"

record verdict =
  vd_state :: verdict_state
  vd_ancestor :: "int option"
  vd_tip :: int
  vd_peer_height :: "int option"
  vd_probes :: nat

definition permitted :: "(int \<Rightarrow> bool) \<Rightarrow> (int \<Rightarrow> bool) option \<Rightarrow> int \<Rightarrow> bool" where
  "permitted floor_ok deep_ok a =
     (if floor_ok a then True else case deep_ok of None \<Rightarrow> False | Some d \<Rightarrow> d a)"

definition measure_fork ::
  "(int \<Rightarrow> pystr option) \<Rightarrow> int \<Rightarrow> 'b link \<Rightarrow> int option \<Rightarrow> (int \<Rightarrow> bool) \<Rightarrow> (int \<Rightarrow> bool) option \<Rightarrow> verdict" where
  "measure_fork our_hash_at tip link peer_height floor_ok deep_ok =
     (let floor_h = max 1 (tip - MAX_PROBE_DEPTH);
          vd = (\<lambda>st anc pr. \<lparr>vd_state = st, vd_ancestor = anc, vd_tip = tip, vd_peer_height = peer_height,
                             vd_probes = pr\<rparr>)
      in case peer_height of
        None \<Rightarrow> vd SYNCED None 0
      | Some ph \<Rightarrow>
          if ph < tip then vd SYNCED None 0
          else if \<not> l_alive link then vd UNKNOWN None 0
          else let (ancestor, probes) =
                 find_common_ancestor our_hash_at tip (\<lambda>h oh. link_knows (l_reply link oh) h) floor_h LINEAR_PROBES
               in case ancestor of
                 None \<Rightarrow> vd UNKNOWN None probes
               | Some a \<Rightarrow>
                   if a < floor_h then vd DEAD_FORK (Some a) probes
                   else vd (classify (Some a) tip ph (permitted floor_ok deep_ok)) (Some a) probes)"

section \<open>Possession\<close>

text \<open>One batch: the blocks appended until an empty (malformed) one or the cap.  True: the loop over the
  batch ended normally.\<close>

fun take_batch :: "nat \<Rightarrow> 'b list list \<Rightarrow> 'b list list \<Rightarrow> 'b list list \<times> bool" where
  "take_batch cap held [] = (held, True)"
| "take_batch cap held (blk # bs) =
     (if blk = [] then (held, False)
      else if cap \<le> length held + 1 then (held @ [blk], False)
      else take_batch cap (held @ [blk]) bs)"

lemma take_batch_length: "take_batch cap held bs = (held', c) \<Longrightarrow> length held \<le> length held'"
  by (induction bs arbitrary: held) (auto split: if_splits, fastforce)

lemma take_batch_grows: "take_batch cap held bs = (held', True) \<Longrightarrow> length held' = length held + length bs"
  by (induction bs arbitrary: held) (auto split: if_splits)

text \<open>\<^verbatim>\<open>k\<close> counts the rounds, \<^verbatim>\<open>in_budget k\<close> is whether the wall-clock budget still lasts then.\<close>

function fetch_loop ::
  "'b link \<Rightarrow> nat \<Rightarrow> (nat \<Rightarrow> bool) \<Rightarrow> int option \<Rightarrow> nat \<Rightarrow> 'b list list \<Rightarrow> int \<Rightarrow> pystr \<Rightarrow> 'b list list option \<times> bool" where
  "fetch_loop link cap in_budget stop_height k held cur_h cur_hash =
     (if length held < cap \<and> in_budget k then
        (case l_blocks_after link k cur_h cur_hash of
           None \<Rightarrow> if k = 0 then (None, False) else (Some held, False)
         | Some batch \<Rightarrow>
             if batch = [] then (Some held, True)
             else let (held', ok) = take_batch cap held batch;
                      cur_h' = cur_h + int (length held' - length held)
                  in if \<not> ok then (Some held', False)
                     else if (case stop_height of None \<Rightarrow> False | Some s \<Rightarrow> s \<le> cur_h') then (Some held', True)
                     else case l_hash_at link k cur_h' of
                       None \<Rightarrow> (Some held', False)
                     | Some nh \<Rightarrow>
                         if nh = [] then (Some held', False)
                         else fetch_loop link cap in_budget stop_height (k + 1) held' cur_h' nh)
      else (Some held, False))"
  by pat_completeness auto
termination
  by (relation "measure (\<lambda>(link, cap, b, s, k, held, h, hs). cap - length held)")
    (auto dest!: take_batch_grows [OF sym] simp: length_greater_0_conv [symmetric] simp del: length_greater_0_conv)

declare fetch_loop.simps [simp del]

definition fetch_branch ::
  "'b link \<Rightarrow> int \<Rightarrow> pystr \<Rightarrow> nat \<Rightarrow> (nat \<Rightarrow> bool) \<Rightarrow> int option \<Rightarrow> 'b list list option \<times> bool" where
  "fetch_branch link ancestor ancestor_hash cap in_budget stop_height =
     fetch_loop link cap in_budget stop_height 0 [] ancestor ancestor_hash"

section \<open>The ancestor search returns evidence\<close>

text \<open>What a result \<^verbatim>\<open>a\<close> means: the peer has our block at \<^verbatim>\<open>a\<close> (unless \<^verbatim>\<open>a\<close> is below the searched range) and
  answered that it lacks our block at \<^verbatim>\<open>a + 1\<close> (unless \<^verbatim>\<open>a\<close> is our tip).\<close>

definition evidence :: "(int \<Rightarrow> bool option) \<Rightarrow> int \<Rightarrow> int \<Rightarrow> int \<Rightarrow> bool" where
  "evidence ag floor_h tip a \<longleftrightarrow>
     floor_h - 1 \<le> a \<and> a \<le> tip \<and> (floor_h \<le> a \<longrightarrow> ag a = Some True) \<and> (a < tip \<longrightarrow> ag (a + 1) = Some False)"

definition silent :: "(int \<Rightarrow> bool option) \<Rightarrow> int \<Rightarrow> int \<Rightarrow> bool" where
  "silent ag floor_h tip \<longleftrightarrow> (\<exists>h. floor_h \<le> h \<and> h \<le> tip \<and> ag h = None)"

lemma linear_walk_spec:
  "floor_h \<le> hi \<Longrightarrow> hi \<le> tip \<Longrightarrow> ag hi = Some False \<Longrightarrow>
   (case linear_walk ag floor_h n hi p of
      Inl (Some a, q) \<Rightarrow> evidence ag floor_h tip a \<and> q \<le> p + n
    | Inl (None, q) \<Rightarrow> silent ag floor_h tip \<and> q \<le> p + n
    | Inr (h, q) \<Rightarrow> floor_h \<le> h \<and> h \<le> hi \<and> ag h = Some False \<and> q \<le> p + n)"
proof (induction n arbitrary: hi p)
  case (Suc n)
  show ?case
  proof (cases "hi - 1 < floor_h")
    case True
    then have "hi = floor_h" using Suc.prems(1) by simp
    then show ?thesis using Suc.prems by (simp add: evidence_def)
  next
    case False
    show ?thesis
    proof (cases "ag (hi - 1)")
      case None
      then show ?thesis using False Suc.prems by (auto simp: silent_def intro!: exI [of _ "hi - 1"])
    next
      case (Some r)
      then show ?thesis
        using False Suc.prems Suc.IH [of "hi - 1" "p + 1"]
        by (cases r) (auto simp: evidence_def split: sum.splits option.splits prod.splits)
    qed
  qed
qed simp

lemma binary_search_spec:
  "lo < hi \<Longrightarrow> ag lo = Some True \<Longrightarrow> ag hi = Some False \<Longrightarrow>
   (case binary_search ag lo hi p of
      (Some a, q) \<Rightarrow> lo \<le> a \<and> a < hi \<and> ag a = Some True \<and> ag (a + 1) = Some False
    | (None, q) \<Rightarrow> \<exists>h. lo < h \<and> h < hi \<and> ag h = None)"
proof (induction ag lo hi p rule: binary_search.induct)
  case (1 ag lo hi p)
  define mid where "mid = (lo + hi) div 2"
  show ?case
  proof (cases "hi - lo > 1")
    case True
    then have m: "lo < mid" "mid < hi" by (auto simp: mid_def)
    have step: "binary_search ag lo hi p = (case ag mid of None \<Rightarrow> (None, p + 1)
        | Some True \<Rightarrow> binary_search ag mid hi (p + 1) | Some False \<Rightarrow> binary_search ag lo mid (p + 1))"
      unfolding mid_def using True by (subst binary_search.simps) (simp add: Let_def)
    show ?thesis
    proof (cases "ag mid")
      case None
      then show ?thesis using m by (auto simp: step)
    next
      case (Some r)
      show ?thesis
      proof (cases r)
        case r: True
        have "case binary_search ag mid hi (p + 1) of
            (Some a, q) \<Rightarrow> mid \<le> a \<and> a < hi \<and> ag a = Some True \<and> ag (a + 1) = Some False
          | (None, q) \<Rightarrow> \<exists>h. mid < h \<and> h < hi \<and> ag h = None"
          using 1(1) [OF True mid_def, of True] Some r m 1(5) by simp
        then show ?thesis using Some r m by (auto simp: step split: prod.splits option.splits intro: less_trans)
      next
        case r: False
        have "case binary_search ag lo mid (p + 1) of
            (Some a, q) \<Rightarrow> lo \<le> a \<and> a < mid \<and> ag a = Some True \<and> ag (a + 1) = Some False
          | (None, q) \<Rightarrow> \<exists>h. lo < h \<and> h < mid \<and> ag h = None"
          using 1(2) [OF True mid_def, of False] Some r m 1(4) by simp
        then show ?thesis using Some r m by (auto simp: step split: prod.splits option.splits intro: less_trans)
      qed
    qed
  next
    case False
    then have "hi = lo + 1" using 1(3) by simp
    then show ?thesis using 1 by (subst binary_search.simps) simp
  qed
qed

lemma binary_search_probes:
  "hi - lo \<le> 2 ^ n \<Longrightarrow> snd (binary_search ag lo hi p) \<le> p + n"
proof (induction n arbitrary: lo hi p)
  case 0
  then show ?case by (subst binary_search.simps) simp
next
  case (Suc n)
  have "hi - (lo + hi) div 2 \<le> 2 ^ n" "(lo + hi) div 2 - lo \<le> 2 ^ n" using Suc.prems by auto
  then have "snd (binary_search ag ((lo + hi) div 2) hi (p + 1)) \<le> p + 1 + n"
    "snd (binary_search ag lo ((lo + hi) div 2) (p + 1)) \<le> p + 1 + n" using Suc.IH by blast+
  then show ?case by (subst binary_search.simps) (auto simp: Let_def split: option.split bool.split)
qed

lemma find_ancestor_spec:
  assumes "floor_h \<le> tip"
  shows "case find_ancestor ag tip floor_h n of
      (Some a, q) \<Rightarrow> evidence ag floor_h tip a
    | (None, q) \<Rightarrow> silent ag floor_h tip"
proof (cases "ag tip")
  case None
  then show ?thesis using assms by (auto simp: find_ancestor_def silent_def)
next
  case (Some r)
  show ?thesis
  proof (cases r)
    case True
    then show ?thesis using Some assms by (simp add: find_ancestor_def evidence_def)
  next
    case False
    note lw = linear_walk_spec [OF assms order_refl, where ag = ag and n = n and p = 1]
    show ?thesis
    proof (cases "linear_walk ag floor_h n tip 1")
      case (Inl x)
      then show ?thesis using lw Some False by (cases x) (auto simp: find_ancestor_def split: option.splits)
    next
      case (Inr x)
      obtain h q where x: "x = (h, q)" by (cases x)
      have h: "floor_h \<le> h" "h \<le> tip" "ag h = Some False" using lw Inr Some False by (auto simp: x)
      show ?thesis
      proof (cases "h \<le> floor_h")
        case True
        then show ?thesis using h Inr Some False by (auto simp: find_ancestor_def evidence_def x)
      next
        case hf: False
        have fa: "find_ancestor ag tip floor_h n = (case ag floor_h of None \<Rightarrow> (None, q + 1)
            | Some False \<Rightarrow> (Some (floor_h - 1), q + 1) | Some True \<Rightarrow> binary_search ag floor_h h (q + 1))"
          using hf Inr Some False by (simp add: find_ancestor_def x)
        show ?thesis
        proof (cases "ag floor_h")
          case None
          then show ?thesis using assms by (auto simp: fa silent_def)
        next
          case bottom: (Some b)
          show ?thesis
          proof (cases b)
            case True
            then show ?thesis
              using bottom hf h binary_search_spec [of floor_h h ag "q + 1"]
              by (auto simp: fa evidence_def silent_def split: option.splits prod.splits)
                (meson less_imp_le less_le_trans)
          next
            case False
            then show ?thesis using bottom assms by (simp add: fa evidence_def)
          qed
        qed
      qed
    qed
  qed
qed

lemma find_ancestor_probes:
  assumes "tip - floor_h \<le> 2 ^ k" and "floor_h \<le> tip"
  shows "snd (find_ancestor ag tip floor_h n) \<le> 2 + n + k"
proof (cases "ag tip = Some False")
  case True
  note lw = linear_walk_spec [where ag = ag and n = n and p = 1, OF assms(2) order_refl True]
  show ?thesis
  proof (cases "linear_walk ag floor_h n tip 1")
    case (Inl x)
    then show ?thesis using lw True by (cases x) (auto simp: find_ancestor_def split: option.splits)
  next
    case (Inr x)
    obtain h q where x: "x = (h, q)" by (cases x)
    have "h \<le> tip" "q \<le> 1 + n" using lw Inr by (auto simp: x)
    then have "h - floor_h \<le> 2 ^ k" using assms(1) by linarith
    then have "snd (binary_search ag floor_h h (q + 1)) \<le> q + 1 + k" by (rule binary_search_probes)
    with \<open>q \<le> 1 + n\<close> show ?thesis
      using True Inr by (auto simp: find_ancestor_def x split: option.split bool.split)
  qed
qed (auto simp: find_ancestor_def split: option.split bool.split)

text \<open>
  C11: an ancestor is only ever reported on the peer's own positive answers: the peer holds our block at the
  reported height and answered that it lacks our next one; and the search gives up only when some probe got
  no answer.  This holds for arbitrary, inconsistent peers.
\<close>

theorem ancestor_is_evidence:
  assumes "floor_h \<le> tip"
  shows "case find_common_ancestor ours tip knows floor_h n of
      (Some a, probes) \<Rightarrow>
        floor_h - 1 \<le> a \<and> a \<le> tip
        \<and> (floor_h \<le> a \<longrightarrow> agrees ours knows a = Some True)
        \<and> (a < tip \<longrightarrow> agrees ours knows (a + 1) = Some False)
    | (None, probes) \<Rightarrow> \<exists>h. floor_h \<le> h \<and> h \<le> tip \<and> agrees ours knows h = None"
  using find_ancestor_spec [OF assms, of "agrees ours knows" n]
  unfolding find_common_ancestor_def evidence_def silent_def .

theorem ancestor_is_evidence_witness:
  "agrees (\<lambda>h. Some [1]) (\<lambda>h _. Some (h \<le> 14)) 14 = Some True \<and>
   find_common_ancestor (\<lambda>h. Some [1]) 40 (\<lambda>h _. Some (h \<le> 14)) 1 6 = (Some 14, 13)"
proof -
  have r: "find_common_ancestor (\<lambda>h. Some [1]) 40 (\<lambda>h _. Some (h \<le> 14)) 1 6 = (Some 14, 13)" by code_simp
  show ?thesis using ancestor_is_evidence [of 1 40 "\<lambda>h. Some [1]" "\<lambda>h _. Some (h \<le> 14)" 6] r by simp
qed

text \<open>
  C12: against a peer that answers every probe from a chain sharing ours up to height A, the search
  returns exactly A (clipped to the searched range) within a logarithmic number of probes.
\<close>

theorem ancestor_exact:
  assumes "floor_h \<le> tip" and "\<forall>h. floor_h \<le> h \<and> h \<le> tip \<longrightarrow> agrees ours knows h = Some (h \<le> A)"
    and "tip - floor_h \<le> 2 ^ k"
  shows "\<exists>probes\<le>2 + n + k. find_common_ancestor ours tip knows floor_h n = (Some (max (floor_h - 1) (min tip A)), probes)"
proof -
  obtain res probes where r: "find_ancestor (agrees ours knows) tip floor_h n = (res, probes)" by fastforce
  have "probes \<le> 2 + n + k" using find_ancestor_probes [OF assms(3,1), of "agrees ours knows" n] r by simp
  moreover have "res = Some (max (floor_h - 1) (min tip A))"
  proof (cases res)
    case None
    then show ?thesis using find_ancestor_spec [OF assms(1), of "agrees ours knows" n] r assms(2)
      by (auto simp: silent_def)
  next
    case (Some a)
    then have e: "evidence (agrees ours knows) floor_h tip a"
      using find_ancestor_spec [OF assms(1), of "agrees ours knows" n] r by simp
    have "a \<le> A" if "floor_h \<le> a" using e that assms(2) by (auto simp: evidence_def)
    moreover have "A \<le> a" if "a < tip"
    proof -
      have "floor_h \<le> a + 1" "a + 1 \<le> tip" "agrees ours knows (a + 1) = Some False"
        using e that by (auto simp: evidence_def)
      then have "\<not> a + 1 \<le> A" using assms(2) by auto
      then show ?thesis by simp
    qed
    moreover have "floor_h - 1 \<le> a" "a \<le> tip" using e by (auto simp: evidence_def)
    ultimately show ?thesis
      using assms(1) Some by (cases "floor_h \<le> a"; cases "a < tip") (auto simp: max_def min_def)
  qed
  ultimately show ?thesis using r by (auto simp: find_common_ancestor_def)
qed

theorem ancestor_exact_witness:
  "\<exists>probes\<le>18. find_common_ancestor (\<lambda>h. Some [1]) 2000 (\<lambda>h _. Some (h \<le> 1500)) 1280 6 = (Some 1500, probes)"
proof -
  have "\<forall>h. 1280 \<le> h \<and> h \<le> 2000 \<longrightarrow> agrees (\<lambda>h. Some [1]) (\<lambda>h _. Some (h \<le> 1500)) h = Some (h \<le> 1500)"
    by (simp add: agrees_def)
  from ancestor_exact [OF _ this, of 10 6] show ?thesis by simp
qed

text \<open>
  C10: a measurement recommends a reorganisation only with a peer at least as long as our chain, a
  permitted ancestor at most 720 blocks below our tip at which the peer serves our block, and the peer's
  answer that it lacks our next one.  No answer never leads to a rollback.
\<close>

theorem reorg_needs_evidence:
  assumes "vd_state (measure_fork ours tip link ph floor_ok deep_ok) = REORG" and "1 \<le> tip"
  shows "\<exists>a p. vd_ancestor (measure_fork ours tip link ph floor_ok deep_ok) = Some a \<and> ph = Some p \<and> tip \<le> p
    \<and> l_alive link \<and> 1 \<le> a \<and> tip - MAX_PROBE_DEPTH \<le> a \<and> a < tip
    \<and> (floor_ok a \<or> (\<exists>d. deep_ok = Some d \<and> d a))
    \<and> agrees ours (\<lambda>h oh. link_knows (l_reply link oh) h) a = Some True
    \<and> agrees ours (\<lambda>h oh. link_knows (l_reply link oh) h) (a + 1) = Some False"
proof -
  define kn where "kn = (\<lambda>h oh. link_knows (l_reply link oh) h)"
  define fl where "fl = max 1 (tip - MAX_PROBE_DEPTH)"
  obtain res pr where r: "find_common_ancestor ours tip kn fl LINEAR_PROBES = (res, pr)" by fastforce
  have fl: "fl \<le> tip" using assms(2) by (simp add: fl_def MAX_PROBE_DEPTH_def)
  obtain p a where p: "ph = Some p" "tip \<le> p" "l_alive link" and a: "res = Some a" "fl \<le> a"
    and c: "classify (Some a) tip p (permitted floor_ok deep_ok) = REORG"
    and anc: "vd_ancestor (measure_fork ours tip link ph floor_ok deep_ok) = Some a"
    using assms(1) r unfolding measure_fork_def kn_def [symmetric] fl_def [symmetric]
    by (auto simp: Let_def split: option.splits if_splits)
  have "a < tip" "floor_ok a \<or> (\<exists>d. deep_ok = Some d \<and> d a)"
    using c by (auto simp: classify_def permitted_def split: if_splits option.splits)
  moreover have "evidence (agrees ours kn) fl tip a"
    using find_ancestor_spec [OF fl, of "agrees ours kn" LINEAR_PROBES] r a
    by (simp add: find_common_ancestor_def)
  ultimately show ?thesis
    using p a anc unfolding kn_def [symmetric] by (auto simp: evidence_def fl_def)
qed

definition wit_link :: "unit link" where
  "wit_link = \<lparr>l_alive = True, l_reply = (\<lambda>oh. if hd oh \<le> 7 then RInt (int (hd oh)) else RNull),
     l_blocks_after = (\<lambda>_ _ _. None), l_hash_at = (\<lambda>_ _. None)\<rparr>"

theorem reorg_needs_evidence_witness:
  "vd_ancestor (measure_fork (\<lambda>h. Some [nat h]) 9 wit_link (Some 12) (\<lambda>_. True) None) = Some 7 \<and>
   agrees (\<lambda>h. Some [nat h]) (\<lambda>h oh. link_knows (l_reply wit_link oh) h) 8 = Some False"
proof -
  have s: "vd_state (measure_fork (\<lambda>h. Some [nat h]) 9 wit_link (Some 12) (\<lambda>_. True) None) = REORG" by code_simp
  have "vd_ancestor (measure_fork (\<lambda>h. Some [nat h]) 9 wit_link (Some 12) (\<lambda>_. True) None) = Some 7" by code_simp
  then show ?thesis using reorg_needs_evidence [OF s] by auto
qed

section \<open>Ties, majorities and possession\<close>

text \<open>
  C25: a same-height fork is decided the same way by both sides: of two different first divergent
  blocks, exactly one side finds that the other's branch wins.
\<close>

theorem tie_exactly_one_reorgs:
  assumes "a \<noteq> []" and "b \<noteq> []" and "a \<noteq> b"
  shows "(tie_winner (Some a) (Some b) = Theirs) \<noteq> (tie_winner (Some b) (Some a) = Theirs)"
  using assms by (cases "a < b") (auto simp: tie_winner_def)

theorem tie_exactly_one_reorgs_witness:
  "(tie_winner (Some (lit ''0a'')) (Some (lit ''1f'')) = Theirs) \<noteq> (tie_winner (Some (lit ''1f'')) (Some (lit ''0a'')) = Theirs)"
  by (rule tie_exactly_one_reorgs) (simp_all add: lit_def)

lemma count_answers_eq:
  "count_answers knows ps a d =
     (a + length (filter (\<lambda>p. knows p \<noteq> None) ps), d + length (filter (\<lambda>p. knows p = Some False) ps))"
  by (induction ps arbitrary: a d) (auto split: option.split)

text \<open>
  C26: corroboration for a deep reorganisation is a strict majority of the peers that answered, never
  fewer than the required number, and peers that do not answer have no influence.
\<close>

theorem majority_is_strict:
  "majority_disagrees peers knows m =
     (let answers = length (filter (\<lambda>p. knows p \<noteq> None) peers);
          disagree = length (filter (\<lambda>p. knows p = Some False) peers);
          agree = length (filter (\<lambda>p. knows p = Some True) peers)
      in (if answers < m then None else Some (agree < disagree), answers, disagree))
   \<and> majority_disagrees peers knows m = majority_disagrees (filter (\<lambda>p. knows p \<noteq> None) peers) knows m"
proof -
  have split: "length (filter (\<lambda>p. knows p \<noteq> None) peers) =
      length (filter (\<lambda>p. knows p = Some True) peers) + length (filter (\<lambda>p. knows p = Some False) peers)"
  proof (induction peers)
    case (Cons p ps)
    then show ?case by (cases "knows p"; cases "the (knows p)") auto
  qed simp
  have "filter (\<lambda>p. knows p = Some False) (filter (\<lambda>p. knows p \<noteq> None) peers) =
      filter (\<lambda>p. knows p = Some False) peers" by (auto intro!: filter_cong)
  then show ?thesis using split by (auto simp: majority_disagrees_def count_answers_eq Let_def)
qed

lemma take_batch_ok:
  "take_batch cap held bs = (held', c) \<Longrightarrow> [] \<notin> set held \<Longrightarrow> length held < cap \<Longrightarrow>
     [] \<notin> set held' \<and> length held' \<le> cap \<and> (\<exists>n. held' = held @ take n bs)"
proof (induction bs arbitrary: held)
  case (Cons b bs)
  show ?case
  proof (cases "b = [] \<or> cap \<le> length held + 1")
    case True
    then show ?thesis using Cons.prems
      by (auto split: if_splits intro: exI [of _ 0] exI [of _ 1])
  next
    case False
    then have "take_batch cap (held @ [b]) bs = (held', c)" using Cons.prems(1) by simp
    then have *: "[] \<notin> set held' \<and> length held' \<le> cap \<and> (\<exists>n. held' = (held @ [b]) @ take n bs)"
      using Cons.IH [of "held @ [b]"] Cons.prems False by auto
    then obtain n where "held' = held @ take (Suc n) (b # bs)" by auto
    then show ?thesis using * by blast
  qed
qed (auto intro: exI [of _ 0])

lemma fetch_loop_ok:
  "fetch_loop link cap bud stop k held h hs = (Some res, c) \<Longrightarrow> [] \<notin> set held \<Longrightarrow> length held \<le> cap \<Longrightarrow>
     [] \<notin> set res \<and> length res \<le> cap \<and> (\<exists>ext. res = held @ ext)"
proof (induction link cap bud stop k held h hs rule: fetch_loop.induct)
  case (1 link cap bud stop k held h hs)
  note E = fetch_loop.simps [of link cap bud stop k held h hs]
  show ?case
  proof (cases "length held < cap \<and> bud k")
    case False
    then show ?thesis using 1(2-4) by (auto simp: E)
  next
    case go: True
    show ?thesis
    proof (cases "l_blocks_after link k h hs")
      case None
      then show ?thesis using 1(2-4) go by (auto simp: E split: if_splits)
    next
      case (Some batch)
      obtain held' ok where tb: "take_batch cap held batch = (held', ok)" by fastforce
      have t: "[] \<notin> set held' \<and> length held' \<le> cap \<and> (\<exists>n. held' = held @ take n batch)"
        using take_batch_ok [OF tb 1(3)] go by auto
      show ?thesis
      proof (cases "\<exists>nh. batch \<noteq> [] \<and> ok \<and> nh \<noteq> [] \<and> l_hash_at link k (h + int (length held' - length held)) = Some nh
          \<and> \<not> (case stop of None \<Rightarrow> False | Some s \<Rightarrow> s \<le> h + int (length held' - length held))")
        case True
        then obtain nh where nh: "batch \<noteq> []" "ok" "nh \<noteq> []"
          "l_hash_at link k (h + int (length held' - length held)) = Some nh"
          "\<not> (case stop of None \<Rightarrow> False | Some s \<Rightarrow> s \<le> h + int (length held' - length held))" by blast
        then have "fetch_loop link cap bud stop (k + 1) held' (h + int (length held' - length held)) nh = (Some res, c)"
          using 1(2) go Some tb by (simp add: E Let_def)
        then show ?thesis using 1(1) go Some nh tb t by (fastforce simp: Let_def)
      next
        case False
        then have "res = held \<or> res = held'"
          using 1(2) go Some tb
          by (auto simp: E Let_def split: if_splits option.splits)
        then show ?thesis using t 1(3,4) by auto
      qed
    qed
  qed
qed

text \<open>
  C27: whatever a peer serves, fetching a branch ends, never holds more blocks than the cap, and never
  holds a malformed (empty) block.
\<close>

theorem fetch_branch_bounded:
  assumes "fetch_branch link a h cap bud stop = (Some blocks, c)"
  shows "length blocks \<le> cap \<and> [] \<notin> set blocks"
  using fetch_loop_ok [of link cap bud stop 0 "[]" a h blocks c] assms by (simp add: fetch_branch_def)

theorem fetch_branch_bounded_witness:
  "length [[()], [()]] \<le> (2 :: nat) \<and>
   fetch_branch (wit_link\<lparr>l_blocks_after := (\<lambda>_ _ _. Some [[()], [()], [()]])\<rparr>) 5 [] 2 (\<lambda>_. True) None = (Some [[()], [()]], False)"
proof -
  have f: "fetch_branch (wit_link\<lparr>l_blocks_after := (\<lambda>_ _ _. Some [[()], [()], [()]])\<rparr>) 5 [] 2 (\<lambda>_. True) None =
      (Some [[()], [()]], False)" by code_simp
  from fetch_branch_bounded [OF f] f show ?thesis by simp
qed

section \<open>Peers to probe, cached verdicts\<close>

definition rsplit_colon :: "pystr \<Rightarrow> (pystr \<times> pystr) option" where
  "rsplit_colon s =
     (let b = rev (takeWhile (\<lambda>c. c \<noteq> 58) (rev s)) in
      if length b = length s then None else Some (take (length s - length b - 1) s, b))"

definition pool_entries :: "pystr list \<Rightarrow> (pystr \<times> int) list" where
  "pool_entries conns =
     List.map_filter (\<lambda>e. do { (ip, pt) \<leftarrow> rsplit_colon e; n \<leftarrow> py_int pt; Some (ip, n) }) conns"

definition add_peer :: "nat \<Rightarrow> pystr \<Rightarrow> int \<Rightarrow> (pystr \<times> int) list \<Rightarrow> (pystr \<times> int) list" where
  "add_peer limit ip port out =
     (if ip \<noteq> [] \<and> ip \<notin> fst ` set out \<and> length out < limit then out @ [(ip, port)] else out)"

definition candidate_peers ::
  "int \<Rightarrow> (pystr \<times> int) list \<Rightarrow> pystr list \<Rightarrow> pystr \<Rightarrow> int option \<Rightarrow> int \<Rightarrow> nat \<Rightarrow> (pystr \<times> int) list" where
  "candidate_peers default_port opinions conns first_ip first_port min_height limit =
     (let pool = pool_entries conns;
          pool_port = (case map_of pool first_ip of None \<Rightarrow> default_port | Some p \<Rightarrow> p);
          port0 = (case first_port of Some p \<Rightarrow> (if p \<noteq> 0 then p else pool_port) | None \<Rightarrow> pool_port);
          out0 = (if first_ip \<noteq> [] then add_peer limit first_ip port0 [] else []);
          out1 = fold (\<lambda>(ip, port) out.
                   if min_height \<le> (case map_of opinions ip of None \<Rightarrow> 0 | Some h \<Rightarrow> h) \<or> ip = first_ip
                   then add_peer limit ip port out else out) pool out0
      in fold (\<lambda>(ip, h) out. if min_height \<le> h then add_peer limit ip default_port out else out) opinions out1)"

definition peers_ok :: "nat \<Rightarrow> (pystr \<times> int) list \<Rightarrow> bool" where
  "peers_ok limit out \<longleftrightarrow> distinct (map fst out) \<and> length out \<le> limit \<and> [] \<notin> fst ` set out"

lemma add_peer_ok: "peers_ok limit out \<Longrightarrow> peers_ok limit (add_peer limit ip port out)"
  by (auto simp: peers_ok_def add_peer_def)

lemma fold_peers_ok:
  "peers_ok limit out \<Longrightarrow> (\<And>x y. peers_ok limit y \<Longrightarrow> peers_ok limit (f x y)) \<Longrightarrow> peers_ok limit (fold f xs out)"
  by (induction xs arbitrary: out) auto

text \<open>The peers polled are bounded in number and pairwise different hosts.\<close>

lemma candidate_peers_ok: "peers_ok limit (candidate_peers dp op conns ip port mh limit)"
proof -
  have "peers_ok limit []" by (simp add: peers_ok_def)
  then show ?thesis
    unfolding candidate_peers_def Let_def by (intro fold_peers_ok) (auto intro: add_peer_ok)
qed

type_synonym 'k verdict_cache = "'k \<rightharpoonup> verdict \<times> rat"

definition cache_get :: "'k verdict_cache \<Rightarrow> 'k \<Rightarrow> rat \<Rightarrow> verdict option" where
  "cache_get cache key now =
     (case cache key of None \<Rightarrow> None | Some (v, expiry) \<Rightarrow> if now < expiry then Some v else None)"

definition cache_put :: "'k verdict_cache \<Rightarrow> 'k \<Rightarrow> verdict \<Rightarrow> rat \<Rightarrow> rat \<Rightarrow> 'k verdict_cache" where
  "cache_put cache key v ttl now =
     (\<lambda>k. case cache k of None \<Rightarrow> None | Some e \<Rightarrow> if snd e \<le> now then None else Some e)(key \<mapsto> (v, now + ttl))"

definition invalidate :: "'k verdict_cache \<Rightarrow> 'k verdict_cache" where
  "invalidate cache = Map.empty"

lemma cache_get_put:
  "t \<le> now \<Longrightarrow> cache_get (cache_put cache key v ttl t) k now =
     (if k = key then (if now < t + ttl then Some v else None) else cache_get cache k now)"
  by (auto simp: cache_get_def cache_put_def split: option.split)

lemma cache_get_invalidate [simp]: "cache_get (invalidate cache) k now = None"
  by (simp add: cache_get_def invalidate_def)

end
