(* ===== verification/PyDict.thy ===== *)
theory PyDict
  imports PyText "HOL-Library.AList"
begin

text \<open>
  Python dictionaries and counters.  A dict is an association list in insertion order with distinct
  keys: assignment replaces in place or appends (\<^const>\<open>AList.update\<close>), pop removes
  (\<^const>\<open>AList.delete\<close>).  Counter and \<^verbatim>\<open>max(d, key=d.get)\<close> are modelled as the tally of
  weighted votes and the first key of greatest value.
\<close>

type_synonym ('k, 'v) dict = "('k \<times> 'v) list"

abbreviation dict_ok :: "('k, 'v) dict \<Rightarrow> bool" where
  "dict_ok d \<equiv> distinct (map fst d)"

abbreviation (input) dict_set :: "'k \<Rightarrow> 'v \<Rightarrow> ('k, 'v) dict \<Rightarrow> ('k, 'v) dict" where
  "dict_set \<equiv> AList.update"

abbreviation (input) dict_pop :: "'k \<Rightarrow> ('k, 'v) dict \<Rightarrow> ('k, 'v) dict" where
  "dict_pop \<equiv> AList.delete"

definition dict_get :: "('k, 'v) dict \<Rightarrow> 'k \<Rightarrow> 'v \<Rightarrow> 'v" where
  "dict_get d k v = (case map_of d k of None \<Rightarrow> v | Some x \<Rightarrow> x)"

definition dict_has :: "('k, 'v) dict \<Rightarrow> 'k \<Rightarrow> bool" where
  "dict_has d k \<longleftrightarrow> map_of d k \<noteq> None"

definition dict_update :: "('k, 'v) dict \<Rightarrow> ('k, 'v) dict \<Rightarrow> ('k, 'v) dict" where
  "dict_update d e = fold (\<lambda>(k, v) a. dict_set k v a) e d"

lemma dict_Nil [simp]: "dict_get [] k v = v" "\<not> dict_has [] k"
  by (simp_all add: dict_get_def dict_has_def)

lemma dict_get_set [simp]: "dict_get (AList.update k v d) k' x = (if k = k' then v else dict_get d k' x)"
  by (simp add: dict_get_def update_conv')

lemma dict_has_set [simp]: "dict_has (AList.update k v d) k' \<longleftrightarrow> k = k' \<or> dict_has d k'"
  by (simp add: dict_has_def update_conv')

lemma dict_has_iff: "dict_has d k \<longleftrightarrow> k \<in> fst ` set d"
  by (simp add: dict_has_def map_of_eq_None_iff)

lemma dict_ok_set [simp]: "dict_ok d \<Longrightarrow> dict_ok (AList.update k v d)"
  by (rule distinct_update)

lemma dict_ok_pop [simp]: "dict_ok d \<Longrightarrow> dict_ok (AList.delete k d)"
  by (simp add: distinct_delete)

lemma dict_ok_update [simp]: "dict_ok d \<Longrightarrow> dict_ok (dict_update d e)"
  unfolding dict_update_def by (induction e arbitrary: d) auto

lemma set_dict_set: "set (AList.update k v d) \<subseteq> insert (k, v) (set d)"
  by (induction d) auto

lemma set_dict_pop: "set (AList.delete k d) \<subseteq> set d"
  by (auto simp: AList.delete_eq)

lemma dict_get_cases: "dict_get d k v = v \<or> (k, dict_get d k v) \<in> set d"
  by (auto simp: dict_get_def split: option.splits dest: map_of_SomeD)

section \<open>Votes\<close>

definition tally :: "('k \<times> int) list \<Rightarrow> ('k, int) dict" where
  "tally votes = fold (\<lambda>(k, w) t. dict_set k (dict_get t k 0 + w) t) votes []"

fun best :: "'k \<times> int \<Rightarrow> ('k \<times> int) list \<Rightarrow> 'k \<times> int" where
  "best b [] = b"
| "best b (x # xs) = best (if snd b < snd x then x else b) xs"

definition max_key :: "('k, int) dict \<Rightarrow> 'k option" where
  "max_key t = (case t of [] \<Rightarrow> None | x # xs \<Rightarrow> Some (fst (best x xs)))"

definition most_common :: "'k list \<Rightarrow> 'k option" where
  "most_common xs = max_key (tally (map (\<lambda>x. (x, 1)) xs))"

definition vote_sum :: "('k \<times> int) list \<Rightarrow> 'k \<Rightarrow> int" where
  "vote_sum votes k = sum_list (map snd (filter (\<lambda>v. fst v = k) votes))"

lemma vote_sum_Nil [simp]: "vote_sum [] k = 0"
  by (simp add: vote_sum_def)

lemma vote_sum_Cons [simp]: "vote_sum (v # vs) k = (if fst v = k then snd v else 0) + vote_sum vs k"
  by (simp add: vote_sum_def)

lemma tally_fold:
  "dict_get (fold (\<lambda>(k, w) t. AList.update k (dict_get t k 0 + w) t) votes t) k 0 = dict_get t k 0 + vote_sum votes k
   \<and> (dict_has (fold (\<lambda>(k, w) t. AList.update k (dict_get t k 0 + w) t) votes t) k \<longleftrightarrow>
        dict_has t k \<or> k \<in> fst ` set votes)
   \<and> (dict_ok t \<longrightarrow> dict_ok (fold (\<lambda>(k, w) t. AList.update k (dict_get t k 0 + w) t) votes t))"
proof (induction votes arbitrary: t)
  case (Cons v vs)
  show ?case using Cons.IH [of "AList.update (fst v) (dict_get t (fst v) 0 + snd v) t"]
    by (cases v) auto
qed simp

lemma tally_get: "dict_get (tally votes) k 0 = vote_sum votes k"
  using tally_fold [of votes "[]" k] by (simp add: tally_def)

lemma tally_has: "dict_has (tally votes) k \<longleftrightarrow> k \<in> fst ` set votes"
  using tally_fold [of votes "[]" k] by (simp add: tally_def)

lemma tally_ok: "dict_ok (tally votes)"
  using tally_fold [of votes "[]" undefined] by (simp add: tally_def)

lemma best_in: "best b xs \<in> set (b # xs)"
proof (induction xs arbitrary: b)
  case (Cons x xs)
  show ?case using Cons.IH [of x] Cons.IH [of b] by auto
qed simp

lemma best_max: "x \<in> set (b # xs) \<Longrightarrow> snd x \<le> snd (best b xs)"
proof (induction xs arbitrary: b x)
  case (Cons y ys)
  have B: "snd (if snd b < snd y then y else b) \<le> snd (best (if snd b < snd y then y else b) ys)"
    by (rule Cons.IH) simp
  show ?case
  proof (cases "x \<in> set ys")
    case True
    then show ?thesis using Cons.IH [of x "if snd b < snd y then y else b"] by simp
  next
    case False
    then have "x = b \<or> x = y" using Cons.prems by auto
    then have "snd x \<le> snd (if snd b < snd y then y else b)" by auto
    then show ?thesis using B by simp
  qed
qed simp

lemma map_of_dict_ok: "dict_ok d \<Longrightarrow> (k, v) \<in> set d \<Longrightarrow> dict_get d k x = v"
  by (simp add: dict_get_def)

text \<open>The winner of a vote is one of the candidates and no candidate has more votes.\<close>

lemma max_key_tally:
  assumes "max_key (tally votes) = Some k"
  shows "k \<in> fst ` set votes" and "k' \<in> fst ` set votes \<Longrightarrow> vote_sum votes k' \<le> vote_sum votes k"
proof -
  obtain x xs where T: "tally votes = x # xs" and K: "k = fst (best x xs)"
    using assms by (cases "tally votes") (auto simp: max_key_def)
  have In: "best x xs \<in> set (tally votes)" using best_in [of x xs] by (simp only: T)
  then have "dict_has (tally votes) k" unfolding dict_has_iff K by blast
  then show "k \<in> fst ` set votes" by (simp add: tally_has)
  have V: "snd (best x xs) = vote_sum votes k"
    using map_of_dict_ok [OF tally_ok, of k "snd (best x xs)" votes 0] In by (simp add: K tally_get)
  assume "k' \<in> fst ` set votes"
  then obtain v where In': "(k', v) \<in> set (tally votes)"
    using tally_has [of votes k'] by (auto simp: dict_has_iff)
  have "v = vote_sum votes k'" using map_of_dict_ok [OF tally_ok In', of 0] by (simp add: tally_get)
  moreover have "v \<le> snd (best x xs)" using best_max [of "(k', v)" x xs] In' by (simp add: T)
  ultimately show "vote_sum votes k' \<le> vote_sum votes k" by (simp add: V)
qed

lemma max_key_None [simp]: "max_key (tally votes) = None \<longleftrightarrow> votes = []"
proof
  assume "max_key (tally votes) = None"
  then have "tally votes = []" by (simp add: max_key_def split: list.splits)
  then have "\<And>k. k \<notin> fst ` set votes" using tally_has [of votes] by (simp add: dict_has_def)
  then show "votes = []" by (cases votes) auto
qed (simp add: tally_def max_key_def)

lemma vote_sum_count: "vote_sum (map (\<lambda>x. (x, 1)) xs) k = int (count_list xs k)"
  by (induction xs) auto

lemma most_common_mode:
  assumes "most_common xs = Some k"
  shows "k \<in> set xs" and "count_list xs k' \<le> count_list xs k"
proof -
  note M = max_key_tally [OF assms [unfolded most_common_def]]
  show "k \<in> set xs" using M(1) by force
  show "count_list xs k' \<le> count_list xs k"
  proof (cases "k' \<in> set xs")
    case True
    then have "k' \<in> fst ` set (map (\<lambda>x. (x, 1::int)) xs)" by force
    then show ?thesis using M(2) [of k'] by (simp add: vote_sum_count)
  next
    case False
    then show ?thesis by (simp add: count_list_0_iff)
  qed
qed

end
