(* ===== verification/Peers.thy ===== *)
theory Peers
  imports PyDict
begin

text \<open>
  The peers manager: access control (\<^verbatim>\<open>src/peers_access.py\<close>), reputation
  (\<^verbatim>\<open>src/peers_reputation.py\<close>), consensus heights (\<^verbatim>\<open>src/peers_consensus.py\<close>) and the outbound pool
  (\<^verbatim>\<open>src/peers_pool.py\<close>).  Every operation is a function on one state record; each runs under the
  manager's lock in the source, so a history of the manager is a sequence of these functions.

  Python lists that two attributes share are kept in a store: the constructor makes the
  manager's ban list and the configuration's one object, so both attributes hold the same reference.
\<close>

record peers_cfg =
  c_port :: int
  c_node_ip :: pystr
  c_own :: "pystr list"             \<comment> \<open>what \<open>own_addresses()\<close> finds on this machine\<close>
  c_allowed :: "pystr list"
  c_version_allow :: "pystr list"
  c_accept_peers :: bool
  c_regnet :: bool
  c_testnet :: bool
  c_version :: pystr
  c_nodes_ban_reset :: int
  c_ban_threshold :: int
  c_whitelist :: "pystr list"
  c_peerfile :: pystr
  c_suggested_peerfile :: pystr
  c_banlist :: nat                  \<comment> \<open>reference into the store of lists\<close>

record peers =
  p_cfg :: peers_cfg
  p_lists :: "nat \<Rightarrow> pystr list"
  p_banlist :: nat
  p_warning_list :: "pystr list"
  p_warning_counts :: "(pystr, int) dict"
  p_opinion :: "(pystr, int) dict"
  p_consensus :: "int option"
  p_percentage :: rat
  p_tried :: "(pystr, nat \<times> rat) dict"
  p_peer_dict :: "(pystr, pystr) dict"
  p_mainnet :: "(pystr, pystr) dict"
  p_pool :: "pystr list"
  p_pool_set :: "pystr set"
  p_c_class :: "(pystr, pystr) dict"
  p_reputation :: "(pystr, int) dict"
  p_inbound :: "pystr set"
  p_updated :: bool
  p_reset_time :: rat
  p_startup :: rat
  p_files :: "pystr \<rightharpoonup> (pystr, pystr) dict option"   \<comment> \<open>peer files; \<open>Some None\<close>: not parsable\<close>

definition init_peers :: "peers_cfg \<Rightarrow> (nat \<Rightarrow> pystr list) \<Rightarrow> rat \<Rightarrow> (pystr \<rightharpoonup> (pystr, pystr) dict option) \<Rightarrow> peers" where
  "init_peers cfg store now files =
     \<lparr>p_cfg = cfg, p_lists = store, p_banlist = c_banlist cfg, p_warning_list = [], p_warning_counts = [],
      p_opinion = [], p_consensus = None, p_percentage = 0, p_tried = [], p_peer_dict = [], p_mainnet = [],
      p_pool = [], p_pool_set = {}, p_c_class = [], p_reputation = [], p_inbound = {}, p_updated = False,
      p_reset_time = now, p_startup = now, p_files = files\<rparr>"

abbreviation banlist :: "peers \<Rightarrow> pystr list" where
  "banlist p \<equiv> p_lists p (p_banlist p)"

definition ban_append :: "pystr \<Rightarrow> peers \<Rightarrow> peers" where
  "ban_append ip p = p\<lparr>p_lists := (p_lists p)(p_banlist p := banlist p @ [ip])\<rparr>"

definition localhost :: pystr where
  "localhost = lit ''127.0.0.1''"

section \<open>Access control\<close>

definition store_mainnet :: "pystr \<Rightarrow> pystr \<Rightarrow> peers \<Rightarrow> peers" where
  "store_mainnet ip version p = p\<lparr>p_mainnet := dict_set ip version (p_mainnet p)\<rparr>"

definition forget_mainnet :: "pystr \<Rightarrow> peers \<Rightarrow> peers" where
  "forget_mainnet ip p = p\<lparr>p_mainnet := dict_pop ip (p_mainnet p)\<rparr>"

definition version_allowed :: "peers \<Rightarrow> pystr \<Rightarrow> pystr list \<Rightarrow> bool" where
  "version_allowed p ip version_allow =
     (case map_of (p_mainnet p) ip of None \<Rightarrow> True | Some v \<Rightarrow> v \<in> set version_allow)"

definition unban :: "pystr \<Rightarrow> peers \<Rightarrow> peers" where
  "unban ip p =
     (if dict_has (p_warning_counts p) ip
      then p\<lparr>p_warning_counts := dict_pop ip (p_warning_counts p),
             p_warning_list := filter (\<lambda>x. x \<noteq> ip) (p_warning_list p)\<rparr>
      else p)"

definition is_whitelisted :: "peers \<Rightarrow> pystr \<Rightarrow> bool" where
  "is_whitelisted p ip \<longleftrightarrow> ip \<in> set (c_whitelist (p_cfg p)) \<or> ip = localhost"

definition is_banned :: "peers \<Rightarrow> pystr \<Rightarrow> bool" where
  "is_banned p ip \<longleftrightarrow> ip \<in> set (banlist p)"

text \<open>The result is None for a whitelisted peer, where the method falls off its end.\<close>

definition warning :: "pystr \<Rightarrow> nat \<Rightarrow> peers \<Rightarrow> bool option \<times> peers" where
  "warning ip n p =
     (if ip \<notin> set (c_whitelist (p_cfg p)) then
        (let cur = dict_get (p_warning_counts p) ip 0 + int n;
             p1 = p\<lparr>p_warning_counts := dict_set ip cur (p_warning_counts p),
                    p_warning_list := p_warning_list p @ replicate n ip\<rparr>;
             thr = c_ban_threshold (p_cfg p);
             p2 = (if thr \<le> cur \<and> ip \<notin> set (banlist p1) then ban_append ip p1 else p1)
         in (Some (thr \<le> cur), p2))
      else (None, p))"

definition is_allowed :: "peers \<Rightarrow> pystr \<Rightarrow> pystr \<Rightarrow> bool" where
  "is_allowed p ip command =
     (if command = lit ''block'' \<and> is_whitelisted p ip then True
      else if command = lit ''portget'' then True
      else if command \<in> {lit ''stop'', lit ''addpeers''} then ip = localhost
      else ip \<in> set (c_allowed (p_cfg p)) \<or> lit ''any'' \<in> set (c_allowed (p_cfg p)))"

section \<open>Reputation\<close>

definition REP_MIN :: int where "REP_MIN = -100"
definition REP_MAX :: int where "REP_MAX = 100"
definition REP_BAN_BELOW :: int where "REP_BAN_BELOW = -50"
definition PENALTY_INVALID_BLOCK :: int where "PENALTY_INVALID_BLOCK = 40"
definition PENALTY_HEIGHT_LIE :: int where "PENALTY_HEIGHT_LIE = 20"
definition PENALTY_TIMEOUT :: int where "PENALTY_TIMEOUT = 5"
definition REWARD_VALID_BLOCK :: int where "REWARD_VALID_BLOCK = 5"

lemmas rep_consts = REP_MIN_def REP_MAX_def REP_BAN_BELOW_def

definition clamp_score :: "int \<Rightarrow> int \<Rightarrow> int" where
  "clamp_score current delta = max REP_MIN (min REP_MAX (current + delta))"

definition weighted_tip :: "(pystr, int) dict \<Rightarrow> (pystr \<Rightarrow> int) \<Rightarrow> int" where
  "weighted_tip opinions weight_of =
     (case max_key (tally (map (\<lambda>(ip, height). (height, weight_of ip)) opinions)) of
        None \<Rightarrow> 0 | Some h \<Rightarrow> h)"

definition reputation :: "peers \<Rightarrow> pystr \<Rightarrow> int" where
  "reputation p ip = dict_get (p_reputation p) ip 0"

definition penalize :: "pystr \<Rightarrow> int \<Rightarrow> peers \<Rightarrow> bool \<times> peers" where
  "penalize ip points p =
     (if is_whitelisted p ip then (False, p)
      else let score = clamp_score (reputation p ip) (- \<bar>points\<bar>);
               p1 = p\<lparr>p_reputation := dict_set ip score (p_reputation p)\<rparr>;
               banned = (score \<le> REP_BAN_BELOW \<and> ip \<notin> set (banlist p1))
           in (banned, if banned then ban_append ip p1 else p1))"

definition reward :: "pystr \<Rightarrow> int \<Rightarrow> peers \<Rightarrow> peers" where
  "reward ip points p =
     (if is_whitelisted p ip then p
      else p\<lparr>p_reputation := dict_set ip (clamp_score (reputation p ip) \<bar>points\<bar>) (p_reputation p)\<rparr>)"

definition reputation_weight :: "peers \<Rightarrow> pystr \<Rightarrow> int" where
  "reputation_weight p ip = max 1 (reputation p ip - REP_MIN + 1)"

definition consensus_reputation_weighted :: "peers \<Rightarrow> int" where
  "consensus_reputation_weighted p = weighted_tip (p_opinion p) (reputation_weight p)"

definition reputable_count :: "peers \<Rightarrow> nat" where
  "reputable_count p = length (filter (\<lambda>s. 0 < s) (map snd (p_reputation p)))"

section \<open>Consensus heights\<close>

definition consensus_most_common :: "peers \<Rightarrow> int" where
  "consensus_most_common p = (case most_common (map snd (p_opinion p)) of None \<Rightarrow> 0 | Some h \<Rightarrow> h)"

definition consensus_max :: "peers \<Rightarrow> int" where
  "consensus_max p = (case map snd (p_opinion p) of [] \<Rightarrow> 0 | h # hs \<Rightarrow> fold max hs h)"

definition consensus_size :: "peers \<Rightarrow> nat" where
  "consensus_size p = length (p_opinion p)"

text \<open>The source divides two doubles and multiplies by 100.  The quotient of two list lengths is
  compared with 50 and 75 only, and for fewer than \<open>2^40\<close> peers the rounded product is on the same side of
  both as the exact one, so the model keeps the exact value.\<close>

definition percentage_in :: "int \<Rightarrow> int list \<Rightarrow> rat" where
  "percentage_in individual whole = of_nat (count_list whole individual) / of_nat (length whole) * 100"

definition record_opinion :: "pystr \<Rightarrow> int \<Rightarrow> peers \<Rightarrow> peers" where
  "record_opinion ip height p =
     (let op = dict_set ip height (p_opinion p)
      in p\<lparr>p_opinion := op, p_consensus := most_common (map snd op),
           p_percentage := percentage_in (dict_get op ip 0) (map snd op)\<rparr>)"

definition consensus_add :: "pystr \<Rightarrow> int \<Rightarrow> int \<Rightarrow> peers \<Rightarrow> peers" where
  "consensus_add ip height last_block p =
     (if \<not> dict_has (p_opinion p) ip \<and> height < last_block - 720 then p
      else let p1 = record_opinion ip height p;
               agreed = (case p_consensus p1 of None \<Rightarrow> 0 | Some h \<Rightarrow> h)
           in if agreed + 30 < height \<and> 50 < p_percentage p1 \<and> 10 < length (p_opinion p1)
              then snd (warning ip 10 (snd (penalize ip PENALTY_HEIGHT_LIE p1)))
              else p1)"

definition consensus_remove :: "pystr \<Rightarrow> peers \<Rightarrow> peers" where
  "consensus_remove ip p = (if dict_has (p_opinion p) ip then p\<lparr>p_opinion := dict_pop ip (p_opinion p)\<rparr> else p)"

section \<open>Outbound pool\<close>

definition host_port :: "pystr \<Rightarrow> int \<Rightarrow> pystr" where
  "host_port host port = host @ lit '':'' @ int_str port"

definition del_try :: "pystr \<Rightarrow> peers \<Rightarrow> peers" where
  "del_try hp p = p\<lparr>p_tried := dict_pop hp (p_tried p)\<rparr>"

definition append_client :: "pystr \<Rightarrow> peers \<Rightarrow> peers" where
  "append_client client p =
     del_try client (p\<lparr>p_pool := p_pool p @ [client], p_pool_set := insert client (p_pool_set p)\<rparr>)"

text \<open>None: \<^verbatim>\<open>list.remove\<close> raises because the set and the list disagree.\<close>

definition remove_client :: "pystr \<Rightarrow> peers \<Rightarrow> peers option" where
  "remove_client client p =
     (if client \<in> p_pool_set p then
        (if client \<in> set (p_pool p)
         then Some (p\<lparr>p_pool := remove1 client (p_pool p), p_pool_set := p_pool_set p - {client}\<rparr>)
         else None)
      else Some p)"

fun join_dots :: "pystr list \<Rightarrow> pystr" where
  "join_dots [] = []"
| "join_dots [x] = x"
| "join_dots (x # y # xs) = x @ 46 # join_dots (y # xs)"

definition c_class :: "pystr \<Rightarrow> pystr" where
  "c_class host = join_dots (butlast (py_split 46 host))"

definition host_part :: "pystr \<Rightarrow> pystr" where
  "host_part ip_port =
     (if 58 \<in> set ip_port then rev (tl (dropWhile (\<lambda>c. c \<noteq> 58) (rev ip_port))) else ip_port)"

definition class_members :: "peers \<Rightarrow> pystr \<Rightarrow> nat" where
  "class_members p cc = card {e \<in> p_pool_set p. c_class (host_part e) = cc}"

definition can_connect_to :: "rat \<Rightarrow> pystr \<Rightarrow> int \<Rightarrow> peers \<Rightarrow> bool \<times> peers" where
  "can_connect_to now host port p =
     (let cfg = p_cfg p; hp = host_port host port in
      if host \<in> set (banlist p) then (False, p)
      else if port = c_port cfg \<and> (host = c_node_ip cfg \<or> host \<in> set (c_own cfg)) then (False, p)
      else if hp \<in> p_pool_set p then (False, p)
      else if now < snd (dict_get (p_tried p) hp (0, 0)) then (False, p)
      else if is_whitelisted p host then (True, p)
      else let p1 = (if dict_has (p_c_class p) host then p
                     else p\<lparr>p_c_class := dict_set host (c_class host) (p_c_class p)\<rparr>);
               cc = dict_get (p_c_class p1) host []
           in (\<not> 2 \<le> class_members p1 cc, p1))"

definition try_delay :: "nat \<Rightarrow> rat" where
  "try_delay tries = (if tries = 0 then 30 else if tries = 1 then 60 else if tries = 2 then 120 else 300)"

definition add_try :: "rat \<Rightarrow> pystr \<Rightarrow> int \<Rightarrow> peers \<Rightarrow> peers" where
  "add_try now host port p =
     (let hp = host_port host port; tries = fst (dict_get (p_tried p) hp (0, 0))
      in p\<lparr>p_tried := dict_set hp (min (tries + 1) 3, now + try_delay tries) (p_tried p)\<rparr>)"

definition reset_tried :: "rat \<Rightarrow> bool \<Rightarrow> peers \<Rightarrow> peers" where
  "reset_tried now aggressive p =
     (if aggressive then p\<lparr>p_tried := []\<rparr>
      else p\<lparr>p_tried := filter (\<lambda>(client, data). snd data \<le> now + 60) (p_tried p)\<rparr>)"

section \<open>The contract of an operation\<close>

text \<open>What holds in every state: the two ban lists are one object, scores are within their bounds and none
  is kept for a whitelisted peer, every member of the lookup set is in the pool list, and the cache of
  network prefixes is right.\<close>

definition peers_inv :: "peers \<Rightarrow> bool" where
  "peers_inv p \<longleftrightarrow>
     p_banlist p = c_banlist (p_cfg p) \<and>
     dict_ok (p_reputation p) \<and> dict_ok (p_opinion p) \<and>
     (\<forall>(ip, s) \<in> set (p_reputation p). REP_MIN \<le> s \<and> s \<le> REP_MAX \<and> \<not> is_whitelisted p ip) \<and>
     p_pool_set p \<subseteq> set (p_pool p) \<and>
     (\<forall>(h, c) \<in> set (p_c_class p). c = c_class h)"

definition whitelisted_bans :: "peers \<Rightarrow> pystr set" where
  "whitelisted_bans p = set (banlist p) \<inter> set (c_whitelist (p_cfg p))"

definition unproven :: "peers \<Rightarrow> bool" where
  "unproven p \<longleftrightarrow> (\<forall>(ip, s) \<in> set (p_reputation p). s \<le> 0)"

locale peer_op =
  fixes act :: "peers \<Rightarrow> peers"
  assumes keeps_inv: "peers_inv p \<Longrightarrow> peers_inv (act p)"
    and keeps_cfg: "p_cfg (act p) = p_cfg p"
    and bans_grow: "peers_inv p \<Longrightarrow> set (banlist p) \<subseteq> set (banlist (act p))"
    and whitelist_immune: "peers_inv p \<Longrightarrow> whitelisted_bans (act p) = whitelisted_bans p"
begin

lemma iterate:
  "peers_inv p \<Longrightarrow>
     peers_inv ((act ^^ n) p) \<and> set (banlist p) \<subseteq> set (banlist ((act ^^ n) p)) \<and>
     whitelisted_bans ((act ^^ n) p) = whitelisted_bans p"
  using keeps_inv bans_grow whitelist_immune by (induction n) (fastforce)+

end

locale unproving_op = peer_op +
  assumes keeps_unproven: "unproven p \<Longrightarrow> unproven (act p)"

text \<open>Operations that leave the ban list, the scores, the opinions, the pool and the prefix cache alone.\<close>

definition same_core :: "peers \<Rightarrow> peers \<Rightarrow> bool" where
  "same_core p q \<longleftrightarrow> p_cfg q = p_cfg p \<and> p_lists q = p_lists p \<and> p_banlist q = p_banlist p \<and>
     p_reputation q = p_reputation p \<and> p_opinion q = p_opinion p \<and> p_pool q = p_pool p \<and>
     p_pool_set q = p_pool_set p \<and> p_c_class q = p_c_class p"

lemma same_core_op: "(\<And>p. same_core p (act p)) \<Longrightarrow> unproving_op act"
  by unfold_locales
    (auto simp: same_core_def peers_inv_def whitelisted_bans_def unproven_def is_whitelisted_def)

lemma ban_append_simps [simp]:
  "p_cfg (ban_append ip p) = p_cfg p" "p_banlist (ban_append ip p) = p_banlist p"
  "p_lists (ban_append ip p) = (p_lists p)(p_banlist p := banlist p @ [ip])"
  "p_reputation (ban_append ip p) = p_reputation p" "p_opinion (ban_append ip p) = p_opinion p"
  "p_pool (ban_append ip p) = p_pool p" "p_pool_set (ban_append ip p) = p_pool_set p"
  "p_c_class (ban_append ip p) = p_c_class p" "is_whitelisted (ban_append ip p) x = is_whitelisted p x"
  by (simp_all add: ban_append_def is_whitelisted_def)

lemma clamp_bounds [simp]: "REP_MIN \<le> clamp_score s d" "clamp_score s d \<le> REP_MAX"
  by (simp_all add: clamp_score_def rep_consts)

interpretation sm: unproving_op "store_mainnet ip v" for ip v
  by (rule same_core_op) (simp add: same_core_def store_mainnet_def)

interpretation fm: unproving_op "forget_mainnet ip" for ip
  by (rule same_core_op) (simp add: same_core_def forget_mainnet_def)

interpretation ub: unproving_op "unban ip" for ip
  by (rule same_core_op) (simp add: same_core_def unban_def)

interpretation dt: unproving_op "del_try hp" for hp
  by (rule same_core_op) (simp add: same_core_def del_try_def)

interpretation at: unproving_op "add_try now host port" for now host port
  by (rule same_core_op) (simp add: same_core_def add_try_def Let_def)

interpretation rt: unproving_op "reset_tried now aggressive" for now aggressive
  by (rule same_core_op) (simp add: same_core_def reset_tried_def)

interpretation wa: unproving_op "\<lambda>p. snd (warning ip n p)" for ip n
  by unfold_locales
    (auto simp: warning_def Let_def peers_inv_def whitelisted_bans_def unproven_def is_whitelisted_def)

lemma set_update_D: "x \<in> set (AList.update k v d) \<Longrightarrow> x = (k, v) \<or> x \<in> set d"
  using set_dict_set by fast

lemma clamp_nonpos: "s \<le> 0 \<Longrightarrow> d \<le> 0 \<Longrightarrow> clamp_score s d \<le> 0"
  by (simp add: clamp_score_def rep_consts)

lemma unproven_reputation: "unproven p \<Longrightarrow> reputation p ip \<le> 0"
  using dict_get_cases [of "p_reputation p" ip 0] by (auto simp: unproven_def reputation_def)

lemma penalize_unproven: "unproven p \<Longrightarrow> unproven (snd (penalize ip points p))"
  using clamp_nonpos [OF unproven_reputation, of p "- \<bar>points\<bar>" ip]
  by (auto simp: penalize_def Let_def unproven_def dest!: set_update_D)

lemma score_update_inv:
  assumes "peers_inv p" and "\<not> is_whitelisted p ip"
  shows "peers_inv (p\<lparr>p_reputation := AList.update ip (clamp_score s d) (p_reputation p)\<rparr>)"
  using assms by (auto simp: peers_inv_def is_whitelisted_def dest!: set_update_D)

lemma ban_append_inv: "peers_inv (ban_append ip p) \<longleftrightarrow> peers_inv p"
  by (simp add: peers_inv_def)

lemma penalize_whitelisted: "is_whitelisted p ip \<Longrightarrow> penalize ip points p = (False, p)"
  by (simp add: penalize_def)

lemma penalize_inv: "peers_inv p \<Longrightarrow> peers_inv (snd (penalize ip points p))"
  by (cases "is_whitelisted p ip") (simp_all add: penalize_def Let_def ban_append_inv score_update_inv)

lemma penalize_bans:
  "p_cfg (snd (penalize ip points p)) = p_cfg p"
  "p_banlist (snd (penalize ip points p)) = p_banlist p"
  "set (p_lists (snd (penalize ip points p)) (p_banlist p)) =
     set (banlist p) \<union> (if \<not> is_whitelisted p ip \<and> clamp_score (reputation p ip) (- \<bar>points\<bar>) \<le> REP_BAN_BELOW
                       then {ip} else {})"
  by (auto simp: penalize_def Let_def)

lemma penalize_op: "peer_op (\<lambda>p. snd (penalize ip points p))"
  by (unfold_locales, goal_cases)
    (auto simp: penalize_inv penalize_bans whitelisted_bans_def is_whitelisted_def)

interpretation pe: unproving_op "\<lambda>p. snd (penalize ip points p)" for ip points
  by (intro unproving_op.intro penalize_op unproving_op_axioms.intro penalize_unproven)

interpretation re: peer_op "reward ip points" for ip points
  by unfold_locales
    (auto simp: reward_def peers_inv_def whitelisted_bans_def is_whitelisted_def dest!: set_update_D)

text \<open>The same contract as a relation between the states before and after, which composes.\<close>

definition op_step :: "peers \<Rightarrow> peers \<Rightarrow> bool" where
  "op_step p q \<longleftrightarrow> p_cfg q = p_cfg p \<and> (unproven p \<longrightarrow> unproven q) \<and>
     (peers_inv p \<longrightarrow> peers_inv q \<and> set (banlist p) \<subseteq> set (banlist q) \<and> whitelisted_bans q = whitelisted_bans p)"

lemma unproving_op_iff: "unproving_op act \<longleftrightarrow> (\<forall>p. op_step p (act p))"
  unfolding op_step_def unproving_op_def unproving_op_axioms_def peer_op_def by blast

lemma op_step_refl [simp]: "op_step p p"
  by (simp add: op_step_def)

lemma op_step_trans: "op_step p q \<Longrightarrow> op_step q r \<Longrightarrow> op_step p r"
  unfolding op_step_def by simp blast

lemma unproving_op_comp: "unproving_op f \<Longrightarrow> unproving_op g \<Longrightarrow> unproving_op (\<lambda>p. g (f p))"
  unfolding unproving_op_iff using op_step_trans by blast

lemma unproving_op_if: "unproving_op f \<Longrightarrow> unproving_op g \<Longrightarrow> unproving_op (\<lambda>p. if b p then f p else g p)"
  by (simp add: unproving_op_iff)

lemma unproving_op_id: "unproving_op (\<lambda>p. p)"
  by (rule same_core_op) (simp add: same_core_def)

interpretation ro: unproving_op "record_opinion ip height" for ip height
  by unfold_locales
    (auto simp: record_opinion_def Let_def peers_inv_def whitelisted_bans_def unproven_def is_whitelisted_def)

interpretation ca: unproving_op "consensus_add ip height last_block" for ip height last_block
  unfolding consensus_add_def Let_def
  by (intro unproving_op_if unproving_op_id
      unproving_op_comp [OF ro.unproving_op_axioms unproving_op_if
        [OF unproving_op_comp [OF pe.unproving_op_axioms wa.unproving_op_axioms] unproving_op_id]])

interpretation cr: unproving_op "consensus_remove ip" for ip
  by unfold_locales
    (auto simp: consensus_remove_def peers_inv_def whitelisted_bans_def unproven_def is_whitelisted_def
      dest: distinct_delete)

interpretation ac: unproving_op "append_client client" for client
  by unfold_locales
    (auto simp: append_client_def del_try_def peers_inv_def whitelisted_bans_def unproven_def is_whitelisted_def)

interpretation cc: unproving_op "\<lambda>p. snd (can_connect_to now host port p)" for now host port
  by unfold_locales
    (auto simp: can_connect_to_def Let_def peers_inv_def whitelisted_bans_def unproven_def is_whitelisted_def
      dest!: set_update_D)

text \<open>The pool list and its lookup set never disagree in the way that makes a removal raise.\<close>

lemma remove_client_total: "peers_inv p \<Longrightarrow> \<exists>q. remove_client client p = Some q"
  by (auto simp: remove_client_def peers_inv_def)

lemma remove1_keeps: "A \<subseteq> set xs \<Longrightarrow> A - {c} \<subseteq> set (remove1 c xs)"
  using in_set_remove1 [of _ c xs] by fast

definition remove_client_or_stay :: "pystr \<Rightarrow> peers \<Rightarrow> peers" where
  "remove_client_or_stay client p = (case remove_client client p of None \<Rightarrow> p | Some q \<Rightarrow> q)"

interpretation rc: unproving_op "remove_client_or_stay client" for client
proof (unfold_locales, goal_cases)
  case (1 p)
  then show ?case
    using remove1_keeps [of "p_pool_set p" "p_pool p" client]
    by (simp add: remove_client_or_stay_def remove_client_def peers_inv_def is_whitelisted_def)
qed (auto simp: remove_client_or_stay_def remove_client_def peers_inv_def whitelisted_bans_def unproven_def
      is_whitelisted_def)

section \<open>The weighted tip\<close>

definition supporters :: "peers \<Rightarrow> int \<Rightarrow> pystr list" where
  "supporters p h = map fst (filter (\<lambda>(ip, height). height = h) (p_opinion p))"

definition support :: "peers \<Rightarrow> int \<Rightarrow> int" where
  "support p h = sum_list (map (reputation_weight p) (supporters p h))"

lemma support_vote_sum:
  "vote_sum (map (\<lambda>(ip, height). (height, reputation_weight p ip)) (p_opinion p)) h = support p h"
proof -
  have "vote_sum (map (\<lambda>(ip, height). (height, reputation_weight p ip)) op) h =
        sum_list (map (reputation_weight p) (map fst (filter (\<lambda>(ip, height). height = h) op)))" for op
    by (induction op) auto
  then show ?thesis by (simp add: support_def supporters_def)
qed

lemma supporters_empty: "h \<notin> snd ` set (p_opinion p) \<Longrightarrow> supporters p h = []"
  by (force simp: supporters_def filter_empty_conv)

lemma weight_bounds:
  assumes "peers_inv p"
  shows "1 \<le> reputation_weight p ip" and "reputation_weight p ip \<le> 201"
proof -
  have "reputation p ip \<le> 100" using dict_get_cases [of "p_reputation p" ip 0] assms
    by (auto simp: reputation_def peers_inv_def rep_consts)
  then show "1 \<le> reputation_weight p ip" "reputation_weight p ip \<le> 201"
    by (simp_all add: reputation_weight_def rep_consts)
qed

lemma sum_weights_bounds:
  assumes "\<And>x. x \<in> set xs \<Longrightarrow> a \<le> w x \<and> w x \<le> (b :: int)"
  shows "a * int (length xs) \<le> sum_list (map w xs) \<and> sum_list (map w xs) \<le> b * int (length xs)"
  using assms by (induction xs) (fastforce simp: algebra_simps)+

lemma weighted_tip_max:
  assumes "p_opinion p \<noteq> []"
  shows "consensus_reputation_weighted p \<in> snd ` set (p_opinion p)"
    and "support p h \<le> support p (consensus_reputation_weighted p) \<or> supporters p h = []"
proof -
  let ?v = "map (\<lambda>(ip, height). (height, reputation_weight p ip)) (p_opinion p)"
  obtain k where K: "max_key (tally ?v) = Some k" using assms by (cases "max_key (tally ?v)") auto
  have E: "consensus_reputation_weighted p = k"
    by (simp add: consensus_reputation_weighted_def weighted_tip_def K)
  have D: "fst ` set ?v = snd ` set (p_opinion p)" by force
  show "consensus_reputation_weighted p \<in> snd ` set (p_opinion p)"
    using max_key_tally(1) [OF K] by (simp only: E D)
  show "support p h \<le> support p (consensus_reputation_weighted p) \<or> supporters p h = []"
    using max_key_tally(2) [OF K, of h] supporters_empty [of h p] by (simp only: E D support_vote_sum) blast
qed

lemma weighted_tip_facts:
  assumes "peers_inv p" and "p_opinion p \<noteq> []"
  defines "tip \<equiv> consensus_reputation_weighted p"
  shows "supporters p tip \<noteq> []"
    and "support p h \<le> support p tip"
    and "length (supporters p h) \<le> 201 * length (supporters p tip)"
    and "(\<forall>ip \<in> fst ` set (p_opinion p). reputation p ip = r) \<Longrightarrow> length (supporters p h) \<le> length (supporters p tip)"
proof -
  have "tip \<in> snd ` set (p_opinion p)" unfolding tip_def by (rule weighted_tip_max(1) [OF assms(2)])
  then show NE: "supporters p tip \<noteq> []" by (force simp: supporters_def filter_empty_conv)
  have B: "int (length (supporters p x)) \<le> support p x" "support p x \<le> 201 * int (length (supporters p x))" for x
    using sum_weights_bounds [of "supporters p x" 1 "reputation_weight p" 201] weight_bounds [OF assms(1)]
    by (simp_all add: support_def)
  show S: "support p h \<le> support p tip"
  proof (cases "supporters p h = []")
    case True
    then show ?thesis using B(1) [of tip] by (simp add: support_def)
  next
    case False
    then show ?thesis using weighted_tip_max(2) [OF assms(2), of h] by (simp add: tip_def)
  qed
  show "length (supporters p h) \<le> 201 * length (supporters p tip)" using S B(1) [of h] B(2) [of tip] by linarith
  assume R: "\<forall>ip \<in> fst ` set (p_opinion p). reputation p ip = r"
  define w where "w = max 1 (r - REP_MIN + 1)"
  have W: "support p x = w * int (length (supporters p x))" for x
    using sum_weights_bounds [of "supporters p x" w "reputation_weight p" w] R
    by (force simp: support_def supporters_def reputation_weight_def w_def)
  have "0 < w" by (simp add: w_def)
  then show "length (supporters p h) \<le> length (supporters p tip)" using S by (simp add: W)
qed

text \<open>
  C33: the tip the node syncs to is a height some peer reported and carries the greatest total weight;
  no peer weighs more than 201 times another, so a height wins only if at most 201 times as many peers back any
  other; and with equal reputations it is a plurality of the peers.
\<close>

theorem weighted_tip_sound:
  assumes "peers_inv p" and "p_opinion p \<noteq> []"
  shows "supporters p (consensus_reputation_weighted p) \<noteq> [] \<and>
         support p h \<le> support p (consensus_reputation_weighted p) \<and>
         length (supporters p h) \<le> 201 * length (supporters p (consensus_reputation_weighted p)) \<and>
         ((\<forall>ip \<in> fst ` set (p_opinion p). reputation p ip = r) \<longrightarrow>
            length (supporters p h) \<le> length (supporters p (consensus_reputation_weighted p)))"
  using weighted_tip_facts(1) [OF assms] weighted_tip_facts(2) [OF assms] weighted_tip_facts(3) [OF assms]
    weighted_tip_facts(4) [OF assms] by blast

definition wit_cfg :: peers_cfg where
  "wit_cfg = \<lparr>c_port = 5658, c_node_ip = lit ''127.0.0.1'', c_own = [], c_allowed = [], c_version_allow = [],
     c_accept_peers = True, c_regnet = False, c_testnet = False, c_version = lit ''mainnet0021'',
     c_nodes_ban_reset = 5, c_ban_threshold = 30, c_whitelist = [lit ''9.9.9.9''],
     c_peerfile = lit ''peers.txt'', c_suggested_peerfile = lit ''suggested_peers.txt'', c_banlist = 0\<rparr>"

definition wit_peers :: peers where
  "wit_peers = record_opinion (lit ''b'') 900 (record_opinion (lit ''a'') 100
     (reward (lit ''a'') 5 (init_peers wit_cfg (\<lambda>_. []) 0 (\<lambda>_. None))))"

lemma wit_peers_inv: "peers_inv wit_peers"
  unfolding wit_peers_def
  by (intro ro.keeps_inv re.keeps_inv) (simp add: peers_inv_def init_peers_def wit_cfg_def)

theorem weighted_tip_sound_witness:
  "peers_inv wit_peers \<and> p_opinion wit_peers \<noteq> [] \<and> consensus_reputation_weighted wit_peers = 100 \<and>
   support wit_peers 900 \<le> support wit_peers (consensus_reputation_weighted wit_peers)"
proof -
  have O: "p_opinion wit_peers \<noteq> []" and T: "consensus_reputation_weighted wit_peers = 100" by code_simp+
  show ?thesis using weighted_tip_sound [OF wit_peers_inv O, of 900 0] wit_peers_inv O T by blast
qed

end
