(* ===== verification/PeersLoop.thy ===== *)
theory PeersLoop
  imports Peers
begin

text \<open>
  The maintenance side of the peers manager: peer files and gossip (\<^verbatim>\<open>src/peers_storage.py\<close>), the
  maintenance loop and discovery (\<^verbatim>\<open>src/peershandler.py\<close>), and the rollback gate that reads the manager
  (\<^verbatim>\<open>rollback_allowed\<close>, \<^verbatim>\<open>checkpoint_set\<close> of \<^verbatim>\<open>src/essentials.py\<close>).  The network is an
  argument: \<open>probe cands strict\<close> is the list of candidates a round of probes found connectible, in the
  order the probes completed.  A pass of the loop reads one clock value and one shuffle.
\<close>

type_synonym probe = "(pystr \<times> pystr) list \<Rightarrow> bool \<Rightarrow> (pystr \<times> pystr) list"

definition OUTBOUND_RECOVERY_FLOOR :: nat where "OUTBOUND_RECOVERY_FLOOR = 4"
definition PEERS_ANNOUNCE_MAX :: nat where "PEERS_ANNOUNCE_MAX = 50"
definition INBOUND_CANDIDATES_MAX :: nat where "INBOUND_CANDIDATES_MAX = 500"

section \<open>Peer files\<close>

definition peers_get :: "pystr \<Rightarrow> peers \<Rightarrow> (pystr, pystr) dict \<times> peers" where
  "peers_get file p =
     (let f = (if file = [] then c_peerfile (p_cfg p) else file) in
      case p_files p f of
        None \<Rightarrow> ([], p\<lparr>p_files := (p_files p)(f \<mapsto> Some [])\<rparr>)
      | Some None \<Rightarrow> ([], p)
      | Some (Some d) \<Rightarrow> (d, p))"

definition peers_test :: "probe \<Rightarrow> pystr \<Rightarrow> (pystr, pystr) dict \<Rightarrow> bool \<Rightarrow> peers \<Rightarrow> peers" where
  "peers_test probe file peerdict strict p0 =
     (let p = p0\<lparr>p_updated := False\<rparr>;
          pairs = (case p_files p file of Some (Some d) \<Rightarrow> d | _ \<Rightarrow> []);
          p1 = (if p_files p file = Some None
                then p\<lparr>p_files := (p_files p)(file @ lit ''.corrupt'' \<mapsto> None)\<rparr> else p);
          to_test = filter (\<lambda>(ip, port). \<not> dict_has pairs ip) peerdict
      in if to_test = [] then p1
         else let good = probe to_test strict
              in if good = [] then p1
                 else p1\<lparr>p_updated := True, p_files := (p_files p1)(file \<mapsto> Some (dict_update pairs good))\<rparr>)"

definition dict_validate :: "pystr \<Rightarrow> pystr" where
  "dict_validate s = (if 1 < count_list s 125 then takeWhile (\<lambda>c. c \<noteq> 125) s @ [125] else s)"

definition add_new :: "(pystr \<times> pystr) list \<Rightarrow> (pystr, pystr) dict \<times> nat \<Rightarrow> (pystr, pystr) dict \<times> nat" where
  "add_new good = fold (\<lambda>(ip, port) (d, n). if dict_has d ip then (d, n) else (dict_set ip port d, n + 1)) good"

text \<open>The JSON reader is an argument; None is the exception it raises, which is logged and raised again.\<close>

definition peersync ::
  "(pystr \<Rightarrow> (pystr, pystr) dict option) \<Rightarrow> probe \<Rightarrow> bool \<Rightarrow> pystr \<Rightarrow> peers \<Rightarrow> (int \<times> peers) option" where
  "peersync json_loads probe locked subdata p =
     (if \<not> c_accept_peers (p_cfg p) then Some (-1, p)
      else if locked then Some (-1, p)
      else do {
        data \<leftarrow> json_loads (dict_validate subdata);
        let fresh = filter (\<lambda>(ip, port). \<not> dict_has (p_peer_dict p) ip) data;
        let (d, n) = add_new (if fresh = [] then [] else probe fresh False) (p_peer_dict p, 0);
        Some (int n, p\<lparr>p_peer_dict := d\<rparr>) })"

section \<open>Net type, isolation, discovery\<close>

definition contains :: "pystr \<Rightarrow> pystr \<Rightarrow> bool" where
  "contains needle s \<longleftrightarrow> list_ex (\<lambda>i. take (length needle) (drop i s) = needle) [0..<length s + 1]"

definition is_testnet :: "peers_cfg \<Rightarrow> bool" where
  "is_testnet cfg =
     (if c_regnet cfg then False else if c_testnet cfg then True else contains (lit ''testnet'') (c_version cfg))"

definition is_regnet :: "peers_cfg \<Rightarrow> bool" where
  "is_regnet cfg = (if c_regnet cfg then True else contains (lit ''regnet'') (c_version cfg))"

definition outbound_count :: "peers \<Rightarrow> nat" where
  "outbound_count p = length (p_pool p)"

definition is_isolated :: "peers \<Rightarrow> bool" where
  "is_isolated p \<longleftrightarrow> outbound_count p \<le> OUTBOUND_RECOVERY_FLOOR"

definition order_by_recency :: "peers \<Rightarrow> (pystr, pystr) dict \<Rightarrow> (pystr, pystr) dict" where
  "order_by_recency p ps =
     filter (\<lambda>(ip, port). dict_has (p_mainnet p) ip) ps @ filter (\<lambda>(ip, port). \<not> dict_has (p_mainnet p) ip) ps"

definition own_public_address :: "peers_cfg \<Rightarrow> (pystr \<times> pystr) option" where
  "own_public_address cfg =
     (if c_node_ip cfg \<in> {[], lit ''127.0.0.1'', lit ''localhost'', lit ''0.0.0.0''} then None
      else Some (c_node_ip cfg, int_str (c_port cfg)))"

text \<open>The gossiped map; the caller prints it as JSON.\<close>

definition peers_to_announce ::
  "((pystr, pystr) dict \<Rightarrow> (pystr, pystr) dict) \<Rightarrow> peers \<Rightarrow> (pystr, pystr) dict" where
  "peers_to_announce shuffle p =
     (let sample = take PEERS_ANNOUNCE_MAX (shuffle (p_peer_dict p)) in
      case own_public_address (p_cfg p) of
        None \<Rightarrow> sample
      | Some (ip, port) \<Rightarrow> dict_set ip port sample)"

definition record_inbound_peer :: "pystr \<Rightarrow> peers \<Rightarrow> peers" where
  "record_inbound_peer ip p =
     (if ip = [] \<or> ip = c_node_ip (p_cfg p) \<or> ip \<in> set (c_own (p_cfg p)) then p
      else if dict_has (p_peer_dict p) ip \<or> ip \<in> set (banlist p) \<or> INBOUND_CANDIDATES_MAX \<le> card (p_inbound p) then p
      else p\<lparr>p_inbound := insert ip (p_inbound p)\<rparr>)"

definition drain_inbound_candidates ::
  "(pystr set \<Rightarrow> pystr list) \<Rightarrow> peers \<Rightarrow> (pystr, pystr) dict \<times> peers" where
  "drain_inbound_candidates list_of p =
     (let port = int_str (if is_testnet (p_cfg p) then 2829 else c_port (p_cfg p))
      in (map (\<lambda>ip. (ip, port)) (list_of (p_inbound p)), p\<lparr>p_inbound := {}\<rparr>))"

section \<open>The maintenance loop\<close>

record loop_env =
  e_now :: rat
  e_shuffle :: "(pystr, pystr) dict \<Rightarrow> (pystr, pystr) dict"
  e_threads :: "nat \<Rightarrow> bool"     \<comment> \<open>the thread limit test for the i-th host\<close>
  e_probe :: probe
  e_list_of :: "pystr set \<Rightarrow> pystr list"

text \<open>The dial pass.  The flag is False when a port is not a number, which ends the whole loop.\<close>

fun dial :: "loop_env \<Rightarrow> nat \<Rightarrow> (pystr \<times> pystr) list \<Rightarrow> peers \<Rightarrow> (pystr \<times> int) list \<Rightarrow> bool \<times> peers \<times> (pystr \<times> int) list" where
  "dial env i [] p dials = (True, p, dials)"
| "dial env i ((host, v) # hs) p dials =
     (case py_int v of
        None \<Rightarrow> (False, p, dials)
      | Some v' \<Rightarrow>
          let port = (if is_testnet (p_cfg p) then 2829 else v') in
          if e_threads env i then
            (let (ok, p1) = can_connect_to (e_now env) host port p in
             if ok then dial env (i + 1) hs (add_try (e_now env) host port p1) (dials @ [(host, port)])
             else dial env (i + 1) hs p1 dials)
          else dial env (i + 1) hs p dials)"

definition ban_reset :: "peers \<Rightarrow> peers" where
  "ban_reset p =
     p\<lparr>p_lists := (p_lists p)(p_banlist p := p_lists p (c_banlist (p_cfg p))),
       p_warning_list := [], p_warning_counts := []\<rparr>"

definition join_file :: "pystr \<Rightarrow> peers \<Rightarrow> peers" where
  "join_file file p = (let (d, p1) = peers_get file p in p1\<lparr>p_peer_dict := dict_update (p_peer_dict p1) d\<rparr>)"

definition starved_reset :: "rat \<Rightarrow> peers \<Rightarrow> peers" where
  "starved_reset now p =
     (if int (outbound_count p) < c_nodes_ban_reset (p_cfg p) \<and> 15 < now - p_startup p then ban_reset p else p)"

definition history_reset :: "rat \<Rightarrow> peers \<Rightarrow> peers" where
  "history_reset now p = (if outbound_count p < 10 then reset_tried now False p else p)"

definition crowded_reset :: "rat \<Rightarrow> peers \<Rightarrow> peers" where
  "crowded_reset now p =
     (if c_nodes_ban_reset (p_cfg p) \<le> int (length (banlist p)) \<and> outbound_count p \<le> length (banlist p)
         \<and> 600 < now - p_reset_time p
      then (reset_tried now False (ban_reset p))\<lparr>p_reset_time := now\<rparr> else p)"

definition discover :: "loop_env \<Rightarrow> peers \<Rightarrow> peers" where
  "discover env p =
     (let (inbound, p1) = drain_inbound_candidates (e_list_of env) p; sf = c_suggested_peerfile (p_cfg p) in
      if inbound = [] then p1 else join_file sf (peers_test (e_probe env) sf inbound True p1))"

definition after_dial :: "loop_env \<Rightarrow> peers \<Rightarrow> peers" where
  "after_dial env p =
     (let now = e_now env; sf = c_suggested_peerfile (p_cfg p); pf = c_peerfile (p_cfg p);
          p1 = (if length (p_peer_dict p) < 6 \<and> 30 < now - p_startup p then join_file sf p else p);
          p2 = crowded_reset now (history_reset now (starved_reset now p1));
          p3 = discover env (join_file pf p2);
          p4 = peers_test (e_probe env) sf (p_peer_dict p3) False p3
      in peers_test (e_probe env) pf (p_peer_dict p4) True p4)"

definition client_loop :: "loop_env \<Rightarrow> peers \<Rightarrow> peers \<times> (pystr \<times> int) list" where
  "client_loop env p =
     (let isolated = is_isolated p;
          p1 = (if isolated \<and> p_peer_dict p \<noteq> [] then reset_tried (e_now env) True p else p);
          shuffled = e_shuffle env (p_peer_dict p1);
          current = (if isolated then order_by_recency p1 shuffled else shuffled);
          (ok, p2, dials) = dial env 0 current p1 []
      in (if ok then after_dial env p2 else p2, dials))"

section \<open>The rollback gate\<close>

record rollback_cfg =
  r_consensus :: bool
  r_min_peers :: int
  r_threshold :: rat
  r_min_reputable :: int

definition rollback_allowed :: "int \<Rightarrow> rollback_cfg \<Rightarrow> peers option \<Rightarrow> int \<Rightarrow> bool" where
  "rollback_allowed checkpoint cfg peers target =
     (if checkpoint \<le> target then True
      else if \<not> r_consensus cfg then False
      else case peers of
        None \<Rightarrow> False
      | Some p \<Rightarrow> r_min_peers cfg \<le> int (consensus_size p) \<and> r_threshold cfg \<le> p_percentage p
                  \<and> r_min_reputable cfg \<le> int (reputable_count p))"

definition round_down :: "int \<Rightarrow> int \<Rightarrow> int option" where
  "round_down number order = (if order = 0 then None else Some (number div order * order))"

definition checkpoint_set :: "int \<Rightarrow> int \<Rightarrow> int option" where
  "checkpoint_set rollback_depth last_block =
     (let limit = (if last_block < 1450000 then 1000 else rollback_depth)
      in map_option (\<lambda>r. r - limit) (round_down last_block limit))"

section \<open>Contracts of the maintenance operations\<close>

lemma same_core_trans: "same_core p q \<Longrightarrow> same_core q r \<Longrightarrow> same_core p r"
  by (simp add: same_core_def)

lemma same_core_refl [simp]: "same_core p p"
  by (simp add: same_core_def)

lemma same_core_peers_get: "same_core p (snd (peers_get file p))"
  by (simp add: peers_get_def same_core_def Let_def split: option.splits)

lemma same_core_join: "same_core p (join_file file p)"
  using same_core_peers_get [of p "file"] by (simp add: join_file_def same_core_def split_beta)

lemma same_core_test: "same_core p (peers_test probe file d strict p)"
  by (simp add: peers_test_def same_core_def Let_def)

lemma same_core_discover: "same_core p (discover env p)"
proof -
  have "same_core p (snd (drain_inbound_candidates (e_list_of env) p))"
    by (simp add: drain_inbound_candidates_def same_core_def Let_def)
  then show ?thesis
    unfolding discover_def Let_def split_beta
    by (auto intro: same_core_trans [OF same_core_trans [OF _ same_core_test] same_core_join])
qed

interpretation rip: unproving_op "record_inbound_peer ip" for ip
  by (rule same_core_op) (simp add: same_core_def record_inbound_peer_def)

interpretation jf: unproving_op "join_file fl" for fl
  by (rule same_core_op) (rule same_core_join)

interpretation di: unproving_op "discover env" for env
  by (rule same_core_op) (rule same_core_discover)

text \<open>The ban list and the configured ban list are one object: assigning one to the other
  changes nothing, and the reset only forgets warnings.\<close>

lemma ban_reset_noop: "peers_inv p \<Longrightarrow> ban_reset p = p\<lparr>p_warning_list := [], p_warning_counts := []\<rparr>"
  by (simp add: ban_reset_def peers_inv_def)

interpretation br: unproving_op ban_reset
proof -
  have "peers_inv (ban_reset p) \<and> set (banlist p) \<subseteq> set (banlist (ban_reset p)) \<and>
        whitelisted_bans (ban_reset p) = whitelisted_bans p" if "peers_inv p" for p
    using that unfolding ban_reset_noop [OF that]
    by (simp add: peers_inv_def whitelisted_bans_def is_whitelisted_def)
  then show "unproving_op ban_reset"
    by (simp add: unproving_op_iff op_step_def) (simp add: ban_reset_def unproven_def)
qed

interpretation ti: unproving_op "\<lambda>p. p\<lparr>p_reset_time := t\<rparr>" for t
  by (rule same_core_op) (simp add: same_core_def)

interpretation sr: unproving_op "starved_reset now" for now
  unfolding starved_reset_def by (intro unproving_op_if br.unproving_op_axioms unproving_op_id)

interpretation hr: unproving_op "history_reset now" for now
  unfolding history_reset_def by (intro unproving_op_if rt.unproving_op_axioms unproving_op_id)

interpretation cd: unproving_op "crowded_reset now" for now
  unfolding crowded_reset_def
  by (intro unproving_op_if unproving_op_id unproving_op_comp
      [OF unproving_op_comp [OF br.unproving_op_axioms rt.unproving_op_axioms] ti.unproving_op_axioms])

lemma tests_op: "unproving_op (\<lambda>p. peers_test probe (f p) (d p) strict p)"
  by (rule same_core_op) (rule same_core_test)

lemma join_if_op: "unproving_op (\<lambda>p. if b p then join_file (f p) p else p)"
  by (rule same_core_op) (simp add: same_core_join)

lemma after_dial_op: "unproving_op (after_dial env)"
proof -
  have J: "unproving_op (\<lambda>p. join_file (c_peerfile (p_cfg p)) p)"
    by (rule same_core_op) (rule same_core_join)
  define a where "a = (\<lambda>p. if length (p_peer_dict p) < 6 \<and> 30 < e_now env - p_startup p
                            then join_file (c_suggested_peerfile (p_cfg p)) p else p)"
  define b where "b = (\<lambda>p. crowded_reset (e_now env) (history_reset (e_now env) (starved_reset (e_now env) p)))"
  define c where "c = (\<lambda>p. discover env (join_file (c_peerfile (p_cfg p)) p))"
  define d where "d = (\<lambda>p. peers_test (e_probe env) (c_suggested_peerfile (p_cfg p)) (p_peer_dict p) False p)"
  define e where "e = (\<lambda>p. peers_test (e_probe env) (c_peerfile (p_cfg p)) (p_peer_dict p) True p)"
  have A: "unproving_op a" unfolding a_def by (rule join_if_op)
  have B: "unproving_op b" unfolding b_def
    by (intro unproving_op_comp [OF unproving_op_comp [OF sr.unproving_op_axioms hr.unproving_op_axioms]
          cd.unproving_op_axioms])
  have C: "unproving_op c" unfolding c_def by (rule unproving_op_comp [OF J di.unproving_op_axioms])
  have D: "unproving_op d" unfolding d_def by (rule tests_op)
  have E: "unproving_op e" unfolding e_def by (rule tests_op)
  have "p_cfg (peers_test probe fl dd strict p) = p_cfg p" for probe fl dd strict p
    using same_core_test [of p probe fl dd strict] by (simp add: same_core_def)
  then have "after_dial env = (\<lambda>p. e (d (c (b (a p)))))"
    by (simp add: fun_eq_iff after_dial_def Let_def a_def b_def c_def d_def e_def jf.keeps_cfg di.keeps_cfg
        sr.keeps_cfg hr.keeps_cfg cd.keeps_cfg)
  then show ?thesis using unproving_op_comp [OF unproving_op_comp [OF unproving_op_comp [OF unproving_op_comp
        [OF A B] C] D] E] by simp
qed

lemma dial_step: "op_step p (fst (snd (dial env i hs p dials)))"
proof (induction env i hs p dials rule: dial.induct)
  case (2 env i host v hs p dials)
  show ?case
  proof (cases "py_int v")
    case (Some v')
    define port where "port = (if is_testnet (p_cfg p) then 2829 else v')"
    obtain ok p1 where C: "can_connect_to (e_now env) host port p = (ok, p1)" by fastforce
    have S1: "op_step p p1"
      using cc.unproving_op_axioms [of "e_now env" host port, unfolded unproving_op_iff] C by (metis snd_conv)
    have S2: "op_step p (add_try (e_now env) host port p1)"
      using op_step_trans [OF S1] at.unproving_op_axioms [unfolded unproving_op_iff] by blast
    note IH = 2 [OF Some port_def]
    show ?thesis
      using Some C S1 S2 IH(1) [OF _ C [symmetric] refl] IH(2) [OF _ C [symmetric] refl] IH(3)
      by (auto simp: port_def [symmetric] intro: op_step_trans)
  qed simp
qed simp

interpretation cl: unproving_op "\<lambda>p. fst (client_loop env p)" for env
proof -
  have "op_step p (fst (client_loop env p))" for p
  proof -
    define p1 where "p1 = (if is_isolated p \<and> p_peer_dict p \<noteq> [] then reset_tried (e_now env) True p else p)"
    define cur where "cur = (if is_isolated p then order_by_recency p1 (e_shuffle env (p_peer_dict p1))
                             else e_shuffle env (p_peer_dict p1))"
    obtain ok p2 dials where D: "dial env 0 cur p1 [] = (ok, p2, dials)" by (cases "dial env 0 cur p1 []") auto
    have "op_step p p1"
      using rt.unproving_op_axioms [unfolded unproving_op_iff] by (simp add: p1_def)
    moreover have "op_step p1 p2" using dial_step [of p1 env 0 cur "[]"] D by simp
    moreover have "op_step p2 (after_dial env p2)" using after_dial_op [unfolded unproving_op_iff] by blast
    moreover have "fst (client_loop env p) = (if ok then after_dial env p2 else p2)"
      unfolding client_loop_def Let_def p1_def [symmetric] cur_def [symmetric] D by simp
    ultimately show ?thesis using op_step_trans by metis
  qed
  then show "unproving_op (\<lambda>p. fst (client_loop env p))" by (simp add: unproving_op_iff)
qed

section \<open>Histories\<close>

datatype peer_event =
    StoreMainnet pystr pystr | ForgetMainnet pystr | Unban pystr | Warning pystr nat
  | Penalize pystr int | Reward pystr int
  | ConsensusAdd pystr int int | ConsensusRemove pystr
  | AppendClient pystr | RemoveClient pystr | CanConnect rat pystr int | AddTry rat pystr int | ResetTried rat bool
  | RecordInbound pystr | PeerSync "pystr \<Rightarrow> (pystr, pystr) dict option" probe bool pystr | ClientLoop loop_env

text \<open>One locked operation of some thread.  A raise of the JSON reader inside the gossip handler leaves the
  state as it was; None is a raise that should never happen.\<close>

fun peer_exec :: "peer_event \<Rightarrow> peers \<Rightarrow> peers option" where
  "peer_exec (StoreMainnet ip v) p = Some (store_mainnet ip v p)"
| "peer_exec (ForgetMainnet ip) p = Some (forget_mainnet ip p)"
| "peer_exec (Unban ip) p = Some (unban ip p)"
| "peer_exec (Warning ip n) p = Some (snd (warning ip n p))"
| "peer_exec (Penalize ip pts) p = Some (snd (penalize ip pts p))"
| "peer_exec (Reward ip pts) p = Some (reward ip pts p)"
| "peer_exec (ConsensusAdd ip h tip) p = Some (consensus_add ip h tip p)"
| "peer_exec (ConsensusRemove ip) p = Some (consensus_remove ip p)"
| "peer_exec (AppendClient c) p = Some (append_client c p)"
| "peer_exec (RemoveClient c) p = remove_client c p"
| "peer_exec (CanConnect now host port) p = Some (snd (can_connect_to now host port p))"
| "peer_exec (AddTry now host port) p = Some (add_try now host port p)"
| "peer_exec (ResetTried now aggressive) p = Some (reset_tried now aggressive p)"
| "peer_exec (RecordInbound ip) p = Some (record_inbound_peer ip p)"
| "peer_exec (PeerSync js probe locked data) p =
     Some (case peersync js probe locked data p of None \<Rightarrow> p | Some (n, q) \<Rightarrow> q)"
| "peer_exec (ClientLoop env) p = Some (fst (client_loop env p))"

fun is_reward :: "peer_event \<Rightarrow> bool" where
  "is_reward (Reward ip pts) = True"
| "is_reward _ = False"

inductive history :: "peers \<Rightarrow> peer_event list \<Rightarrow> peers \<Rightarrow> bool" where
  start: "history p [] p"
| step: "history p es q \<Longrightarrow> peer_exec e q = Some r \<Longrightarrow> history p (es @ [e]) r"

inductive_cases history_snocE: "history p (es @ [e]) r"

lemma peersync_step: "op_step p (case peersync js probe locked data p of None \<Rightarrow> p | Some (n, q) \<Rightarrow> q)"
proof -
  have "same_core p q" if "peersync js probe locked data p = Some (n, q)" for n q
    using that by (auto simp: peersync_def Let_def same_core_def split: if_splits option.splits bind_splits prod.splits)
  then have "op_step p q" if "peersync js probe locked data p = Some (n, q)" for n q
    using that by (simp add: op_step_def same_core_def peers_inv_def whitelisted_bans_def unproven_def is_whitelisted_def)
  then show ?thesis by (simp split: option.splits)
qed

lemma remove_step: "remove_client c p = Some q \<Longrightarrow> op_step p q"
  using rc.unproving_op_axioms [of c, unfolded unproving_op_iff, rule_format, of p]
  by (simp add: remove_client_or_stay_def)

lemmas op_steps = sm.unproving_op_axioms fm.unproving_op_axioms ub.unproving_op_axioms wa.unproving_op_axioms
  pe.unproving_op_axioms ca.unproving_op_axioms cr.unproving_op_axioms ac.unproving_op_axioms
  cc.unproving_op_axioms at.unproving_op_axioms rt.unproving_op_axioms rip.unproving_op_axioms cl.unproving_op_axioms

lemma exec_step: "peer_exec e p = Some q \<Longrightarrow> \<not> is_reward e \<Longrightarrow> op_step p q"
  by (cases e) (auto simp: peersync_step remove_step intro: op_steps [unfolded unproving_op_iff, rule_format])

lemma exec_inv:
  assumes "peer_exec e p = Some q" and "peers_inv p"
  shows "peers_inv q \<and> p_cfg q = p_cfg p \<and> set (banlist p) \<subseteq> set (banlist q) \<and>
         whitelisted_bans q = whitelisted_bans p"
proof (cases "is_reward e")
  case True
  then obtain ip pts where "q = reward ip pts p" using assms(1) by (cases e) auto
  then show ?thesis using re.keeps_inv re.keeps_cfg re.bans_grow re.whitelist_immune assms(2) by simp
next
  case False
  then show ?thesis using exec_step [OF assms(1)] assms(2) by (simp add: op_step_def)
qed

lemma exec_total: "peers_inv p \<Longrightarrow> \<exists>q. peer_exec e p = Some q"
  using remove_client_total by (cases e) auto

lemma history_inv:
  assumes "history p es q" and "peers_inv p"
  shows "peers_inv q \<and> p_cfg q = p_cfg p \<and> set (banlist p) \<subseteq> set (banlist q) \<and>
         whitelisted_bans q = whitelisted_bans p"
  using assms
proof (induction rule: history.induct)
  case (step p es q e r)
  then show ?case using exec_inv [of e q r] by auto
qed simp

lemma init_inv: "peers_inv (init_peers cfg store now files)"
  by (simp add: peers_inv_def init_peers_def)

lemma history_append: "history q fs r \<Longrightarrow> history p es q \<Longrightarrow> history p (es @ fs) r"
proof (induction arbitrary: es rule: history.induct)
  case (step q fs r e t)
  then show ?case using history.step [of p "es @ fs" r e t] by simp
qed simp

lemma history_unproven:
  "history p es q \<Longrightarrow> unproven p \<Longrightarrow> \<forall>e \<in> set es. \<not> is_reward e \<Longrightarrow> unproven q"
proof (induction rule: history.induct)
  case (step p es q e r)
  then show ?case using exec_step [of e q r] by (auto simp: op_step_def)
qed simp

lemma unproven_count: "unproven p \<Longrightarrow> reputable_count p = 0"
  by (force simp: unproven_def reputable_count_def filter_empty_conv)

lemma init_unproven: "unproven (init_peers cfg store now files)"
  by (simp add: unproven_def init_peers_def)

lemma reputation_inv:
  assumes "peers_inv p"
  shows "REP_MIN \<le> reputation p ip \<and> reputation p ip \<le> REP_MAX \<and> (is_whitelisted p ip \<longrightarrow> reputation p ip = 0)"
  using dict_get_cases [of "p_reputation p" ip 0] assms
  by (auto simp: reputation_def peers_inv_def rep_consts)


text \<open>
  C34: the reset of the ban list in the maintenance loop has no effect: the constructor makes the
  list and the configured list one object, so a peer once banned stays banned in every later state,
  whatever the loop and the other threads do.
\<close>

theorem bans_never_lifted:
  assumes "history (init_peers cfg store now files) es p" and "is_banned p ip" and "history p fs q"
  shows "is_banned q ip \<and> \<not> fst (can_connect_to t ip port q)"
proof -
  have "peers_inv p" using history_inv [OF assms(1) init_inv] by simp
  then have "is_banned q ip" using history_inv [OF assms(3)] assms(2) by (auto simp: is_banned_def)
  then show ?thesis by (simp add: is_banned_def can_connect_to_def Let_def)
qed

text \<open>
  C31: peers that never delivered a valid block cannot force a deep rollback: as long as no peer has been
  rewarded, whatever else any number of peers made the node do, a rollback below the checkpoint is
  refused by every configuration that asks for a reputable peer.
\<close>

theorem deep_rollback_needs_proven_peer:
  assumes "history (init_peers cfg store now files) es p" and "\<forall>e \<in> set es. \<not> is_reward e"
    and "target < checkpoint" and "1 \<le> r_min_reputable rcfg"
  shows "\<not> rollback_allowed checkpoint rcfg (Some p) target"
  using unproven_count [OF history_unproven [OF assms(1) init_unproven assms(2)]] assms(3,4)
  by (simp add: rollback_allowed_def)

definition wit_env :: loop_env where
  "wit_env = \<lparr>e_now = 1000, e_shuffle = (\<lambda>d. d), e_threads = (\<lambda>_. True), e_probe = (\<lambda>c s. c), e_list_of = (\<lambda>_. [])\<rparr>"

definition wit_init :: peers where
  "wit_init = init_peers wit_cfg (\<lambda>_. []) 0 (\<lambda>_. None)"

definition wit_after :: "peer_event list \<Rightarrow> peers" where
  "wit_after es = fold (\<lambda>e p. the (peer_exec e p)) es wit_init"

lemma wit_exec: "peers_inv p \<Longrightarrow> peer_exec e p = Some (the (peer_exec e p))"
  using exec_total by force

lemma wit_history: "history wit_init es (wit_after es)"
proof (induction es rule: rev_induct)
  case (snoc e es)
  have "peers_inv (wit_after es)" using history_inv [OF snoc] init_inv by (simp add: wit_init_def)
  then show ?case using history.step [OF snoc wit_exec] by (simp add: wit_after_def)
qed (simp add: wit_after_def history.start)

lemmas wit_histories = wit_history [unfolded wit_init_def]


theorem bans_never_lifted_witness:
  "is_banned (fst (client_loop wit_env (wit_after [Warning (lit ''a'') 40]))) (lit ''a'')"
proof -
  have B: "is_banned (wit_after [Warning (lit ''a'') 40]) (lit ''a'')" by code_simp
  have "peer_exec (ClientLoop wit_env) (wit_after [Warning (lit ''a'') 40]) =
        Some (fst (client_loop wit_env (wit_after [Warning (lit ''a'') 40])))" by simp
  from history.step [OF history.start this] show ?thesis
    using bans_never_lifted [OF wit_histories B] by blast
qed

theorem deep_rollback_needs_proven_peer_witness:
  "\<not> rollback_allowed 1000 \<lparr>r_consensus = True, r_min_peers = 1, r_threshold = 75, r_min_reputable = 1\<rparr>
      (Some (wit_after [ConsensusAdd (lit ''a'') 2000 1000])) 500
   \<and> p_percentage (wit_after [ConsensusAdd (lit ''a'') 2000 1000]) = 100"
proof -
  have P: "p_percentage (wit_after [ConsensusAdd (lit ''a'') 2000 1000]) = 100" by code_simp
  show ?thesis using deep_rollback_needs_proven_peer [OF wit_histories, of "[ConsensusAdd (lit ''a'') 2000 1000]" 500 1000
        "\<lparr>r_consensus = True, r_min_peers = 1, r_threshold = 75, r_min_reputable = 1\<rparr>"] P by simp
qed

end
