(* ===== verification/TokenIndex.thy ===== *)
theory TokenIndex
  imports KVStore PyDict
begin

text \<open>
  The token and alias index, \<^verbatim>\<open>src/token_index.py\<close>.  Each sub-database is an ordered map from raw byte keys;
  values are kept decoded, since the module reads back only what it wrote itself (JSON objects, decimal
  counters, empty bytes).  Every method is one write transaction: None is an exception, which
  aborts the transaction and leaves the index as it was.
\<close>

record tok_entry =
  te_height :: int
  te_ts :: pystr
  te_issuer :: pystr
  te_txid :: pystr
  te_supply :: int

datatype jop =
    JIssue (j_tok: pystr) (j_rcp: pystr) (j_adr: pystr) (j_amt: int) (j_txid: pystr)
  | JTransfer (j_tok: pystr) (j_rcp: pystr) (j_adr: pystr) (j_amt: int) (j_txid: pystr) (j_ts: pystr)
  | JNoop (j_txid: pystr)

datatype aop =
    ARegister (a_alias: pystr) (a_owner: pystr)
  | ATransfer (a_alias: pystr) (a_owner: pystr) (a_prev: pystr) (a_prev_h: int)
  | AFree (a_alias: pystr) (a_prev: pystr) (a_prev_h: int)

record token_index =
  ti_meta :: "int kvdb"
  ti_tokreg :: "tok_entry kvdb"
  ti_seen :: "unit kvdb"
  ti_cred :: "int kvdb"
  ti_deb :: "int kvdb"
  ti_addrtok :: "int kvdb"
  ti_tokset :: "int kvdb"
  ti_journal :: "jop kvdb"
  ti_alias_fwd :: "(pystr \<times> int) kvdb"
  ti_alias_rev :: "unit kvdb"
  ti_ajournal :: "aop kvdb"

definition empty_index :: token_index where
  "empty_index = \<lparr>ti_meta = [], ti_tokreg = [], ti_seen = [], ti_cred = [], ti_deb = [], ti_addrtok = [],
     ti_tokset = [], ti_journal = [], ti_alias_fwd = [], ti_alias_rev = [], ti_ajournal = []\<rparr>"

section \<open>Keys\<close>

definition name_key :: "pystr \<Rightarrow> bytes option" where
  "name_key s = Option.bind (utf8_encode s) lmdb_key"

definition hbe :: "int \<Rightarrow> bytes option" where
  "hbe height = to_bytes_be 8 height"

definition hq :: "int \<Rightarrow> int \<Rightarrow> bytes option" where
  "hq height seq = do { h \<leftarrow> hbe height; q \<leftarrow> hbe seq; Some (h @ q) }"

definition party_prefix :: "pystr \<Rightarrow> pystr option \<Rightarrow> bytes option" where
  "party_prefix token party = do {
     t \<leftarrow> utf8_encode token;
     case party of None \<Rightarrow> Some (t @ [0])
     | Some p \<Rightarrow> do { pb \<leftarrow> utf8_encode p; Some (t @ [0] @ pb @ [0]) } }"

definition party_key :: "pystr \<Rightarrow> pystr \<Rightarrow> int \<Rightarrow> int \<Rightarrow> bytes option" where
  "party_key token party height seq = do {
     p \<leftarrow> party_prefix token (Some party); s \<leftarrow> hq height seq; lmdb_key (p @ s) }"

definition addrtok_key :: "pystr \<Rightarrow> pystr \<Rightarrow> bytes option" where
  "addrtok_key address token = do { a \<leftarrow> utf8_encode address; t \<leftarrow> utf8_encode token; lmdb_key (a @ [0] @ t) }"

definition rev_key :: "pystr \<Rightarrow> int \<Rightarrow> bytes \<Rightarrow> bytes option" where
  "rev_key address height ab = do { a \<leftarrow> utf8_encode address; h \<leftarrow> hbe height; lmdb_key (a @ [0] @ h @ [0] @ ab) }"

text \<open>The height in the last 16 bytes of a key.\<close>

definition tail16 :: "bytes \<Rightarrow> bytes" where
  "tail16 k = drop (length k - 16) k"

definition unpack_hq :: "bytes \<Rightarrow> (int \<times> int) option" where
  "unpack_hq b = (if length b = 16 then Some (int (be_nat (take 8 b)), int (be_nat (drop 8 b))) else None)"

section \<open>Counters, sequence, anchors\<close>

definition get_int :: "int kvdb \<Rightarrow> bytes \<Rightarrow> int" where
  "get_int db key = (case kv_get db key of None \<Rightarrow> 0 | Some v \<Rightarrow> v)"

definition next_seq :: "token_index \<Rightarrow> int \<times> token_index" where
  "next_seq s = (let q = get_int (ti_meta s) (blit ''seq'') + 1 in (q, s\<lparr>ti_meta := kv_put (ti_meta s) (blit ''seq'') q\<rparr>))"

definition bump_anchor :: "bytes \<Rightarrow> int \<Rightarrow> token_index \<Rightarrow> token_index" where
  "bump_anchor key height s =
     (if get_int (ti_meta s) key < height then s\<lparr>ti_meta := kv_put (ti_meta s) key height\<rparr> else s)"

definition token_anchor :: "token_index \<Rightarrow> int" where
  "token_anchor s = get_int (ti_meta s) (blit ''tok_anchor'')"

definition alias_anchor :: "token_index \<Rightarrow> int" where
  "alias_anchor s = get_int (ti_meta s) (blit ''alias_anchor'')"

definition incr_count :: "int kvdb \<Rightarrow> bytes \<Rightarrow> int \<Rightarrow> int kvdb" where
  "incr_count db key delta =
     (let n = get_int db key + delta in if 0 < n then kv_put db key n else kv_delete db key)"

definition incr_addrtok :: "pystr \<Rightarrow> pystr \<Rightarrow> int \<Rightarrow> token_index \<Rightarrow> token_index option" where
  "incr_addrtok address token delta s = do {
     k \<leftarrow> addrtok_key address token; Some (s\<lparr>ti_addrtok := incr_count (ti_addrtok s) k delta\<rparr>) }"

section \<open>Sums\<close>

definition has_token :: "token_index \<Rightarrow> pystr \<Rightarrow> bool option" where
  "has_token s token = map_option (\<lambda>k. kv_get (ti_tokreg s) k \<noteq> None) (name_key token)"

definition has_txid :: "token_index \<Rightarrow> pystr \<Rightarrow> bool option" where
  "has_txid s txid = map_option (\<lambda>k. kv_get (ti_seen s) k \<noteq> None) (name_key txid)"

definition row_height :: "bytes \<Rightarrow> int" where
  "row_height k = int (be_nat (take 8 (tail16 k)))"

definition sum_party :: "int kvdb \<Rightarrow> pystr \<Rightarrow> pystr \<Rightarrow> int \<Rightarrow> bool \<Rightarrow> int option" where
  "sum_party db token party height inclusive =
     map_option (\<lambda>p. sum_list (map snd (filter (\<lambda>(k, v). if inclusive then row_height k \<le> height else row_height k < height)
                                   (kv_iterate db p))))
       (party_prefix token (Some party))"

definition token_credit :: "token_index \<Rightarrow> pystr \<Rightarrow> pystr \<Rightarrow> int \<Rightarrow> int option" where
  "token_credit s token address below_height = sum_party (ti_cred s) token address below_height False"

definition token_debit :: "token_index \<Rightarrow> pystr \<Rightarrow> pystr \<Rightarrow> int \<Rightarrow> int option" where
  "token_debit s token address upto_height = sum_party (ti_deb s) token address upto_height True"

definition token_balance :: "token_index \<Rightarrow> pystr \<Rightarrow> pystr \<Rightarrow> int option" where
  "token_balance s token address = do {
     c \<leftarrow> sum_party (ti_cred s) token address (2 ^ 63) True;
     d \<leftarrow> sum_party (ti_deb s) token address (2 ^ 63) True;
     Some (c - d) }"

section \<open>Token writes\<close>

text \<open>The rows both kinds of recorded operation write.\<close>

definition put_rows :: "int \<Rightarrow> int \<Rightarrow> jop \<Rightarrow> pystr \<Rightarrow> pystr \<Rightarrow> token_index \<Rightarrow> token_index option" where
  "put_rows height seq j first second s = do {
     ck \<leftarrow> party_key (j_tok j) (j_rcp j) height seq;
     dk \<leftarrow> party_key (j_tok j) (j_adr j) height seq;
     tb \<leftarrow> name_key (j_tok j);
     jk \<leftarrow> hq height seq;
     let s1 = s\<lparr>ti_cred := kv_put (ti_cred s) ck (j_amt j), ti_deb := kv_put (ti_deb s) dk (j_amt j)\<rparr>;
     s2 \<leftarrow> incr_addrtok first (j_tok j) 1 s1;
     s3 \<leftarrow> incr_addrtok second (j_tok j) 1 s2;
     Some (s3\<lparr>ti_tokset := incr_count (ti_tokset s3) tb 1, ti_journal := kv_put (ti_journal s3) jk j\<rparr>) }"

definition issued :: pystr where
  "issued = lit ''issued''"

definition register_issue ::
  "int \<Rightarrow> pystr \<Rightarrow> pystr \<Rightarrow> pystr \<Rightarrow> pystr \<Rightarrow> pystr \<Rightarrow> token_index \<Rightarrow> (bool \<times> token_index) option" where
  "register_issue height ts token issuer txid supply_text s = do {
     let supply = (case py_int supply_text of None \<Rightarrow> 0 | Some n \<Rightarrow> n);
     tb \<leftarrow> name_key token;
     xb \<leftarrow> name_key txid;
     if kv_get (ti_tokreg s) tb \<noteq> None \<or> kv_get (ti_seen s) xb \<noteq> None then Some (False, s)
     else do {
       let (seq, s1) = next_seq s;
       let e = \<lparr>te_height = height, te_ts = ts, te_issuer = issuer, te_txid = txid, te_supply = supply\<rparr>;
       let s2 = s1\<lparr>ti_tokreg := kv_put (ti_tokreg s1) tb e, ti_seen := kv_put (ti_seen s1) xb ()\<rparr>;
       s3 \<leftarrow> put_rows height seq (JIssue token issuer issued supply txid) issuer issued s2;
       Some (True, bump_anchor (blit ''tok_anchor'') height s3) } }"

definition apply_transfer ::
  "int \<Rightarrow> pystr \<Rightarrow> pystr \<Rightarrow> pystr \<Rightarrow> pystr \<Rightarrow> pystr \<Rightarrow> int \<Rightarrow> token_index \<Rightarrow> (bool \<times> token_index) option" where
  "apply_transfer height ts token sender recipient txid amount s = do {
     xb \<leftarrow> name_key txid;
     if kv_get (ti_seen s) xb \<noteq> None then Some (False, s)
     else do {
       let (seq, s1) = next_seq s;
       let s2 = s1\<lparr>ti_seen := kv_put (ti_seen s1) xb ()\<rparr>;
       s3 \<leftarrow> put_rows height seq (JTransfer token recipient sender amount txid ts) sender recipient s2;
       Some (True, bump_anchor (blit ''tok_anchor'') height s3) } }"

definition mark_noop :: "int \<Rightarrow> pystr \<Rightarrow> token_index \<Rightarrow> (bool \<times> token_index) option" where
  "mark_noop height txid s = do {
     xb \<leftarrow> name_key txid;
     if kv_get (ti_seen s) xb \<noteq> None then Some (False, s)
     else do {
       let (seq, s1) = next_seq s;
       jk \<leftarrow> hq height seq;
       Some (True, bump_anchor (blit ''tok_anchor'') height
         (s1\<lparr>ti_seen := kv_put (ti_seen s1) xb (), ti_journal := kv_put (ti_journal s1) jk (JNoop txid)\<rparr>)) } }"

section \<open>Token reads\<close>

definition tokens_user :: "token_index \<Rightarrow> pystr \<Rightarrow> pystr list option" where
  "tokens_user s address = do {
     a \<leftarrow> utf8_encode address;
     let p = a @ [0];
     mapM_opt (\<lambda>(k, v). utf8_decode (drop (length p) k)) (kv_iterate (ti_addrtok s) p) }"

record token_tx =
  tt_token :: pystr
  tt_height :: int
  tt_ts :: pystr
  tt_sender :: pystr
  tt_recipient :: pystr
  tt_amount :: int
  tt_sig :: pystr

definition tx_row :: "token_index \<Rightarrow> bytes \<Rightarrow> (bytes, token_tx) dict \<Rightarrow> (bytes, token_tx) dict" where
  "tx_row s k rows =
     (let h = tail16 k in
      if dict_has rows h then rows
      else case (kv_get (ti_journal s) h, unpack_hq h) of
        (Some (JTransfer tok rcp adr amt txid ts), Some (hh, q)) \<Rightarrow>
          dict_set h \<lparr>tt_token = tok, tt_height = hh, tt_ts = ts, tt_sender = adr, tt_recipient = rcp,
                      tt_amount = amt, tt_sig = txid\<rparr> rows
      | _ \<Rightarrow> rows)"

text \<open>Python's \<^verbatim>\<open>sorted(..., reverse=True)\<close> keeps the order of equal elements.\<close>

definition token_txs_for_address :: "token_index \<Rightarrow> pystr \<Rightarrow> int \<Rightarrow> token_tx list option" where
  "token_txs_for_address s address limit = do {
     tokens \<leftarrow> tokens_user s address;
     prefixes \<leftarrow> mapM_opt (\<lambda>t. party_prefix t (Some address)) tokens;
     let keys = concat (map (\<lambda>p. map fst (kv_iterate (ti_cred s) p) @ map fst (kv_iterate (ti_deb s) p)) prefixes);
     let rows = map snd (fold (tx_row s) keys []);
     let ordered = rev (sort_key tt_height (sort_key tt_sig (rev rows)));
     Some (take (nat (max 1 limit)) ordered) }"

definition group_sums :: "int kvdb \<Rightarrow> pystr \<Rightarrow> (pystr, int) dict option" where
  "group_sums db token = do {
     p \<leftarrow> party_prefix token None;
     rows \<leftarrow> mapM_opt (\<lambda>(k, v). map_option (\<lambda>party. (party, v))
               (utf8_decode (take (length k - length p - 17) (drop (length p) k)))) (kv_iterate db p);
     Some (tally rows) }"

definition token_transfers :: "token_index \<Rightarrow> pystr \<Rightarrow> int option" where
  "token_transfers s token = map_option (get_int (ti_tokset s)) (name_key token)"

definition tokens_list :: "token_index \<Rightarrow> nat \<Rightarrow> (pystr \<times> int) list option" where
  "tokens_list s limit = do {
     rows \<leftarrow> mapM_opt (\<lambda>(k, v). map_option (\<lambda>t. (t, v)) (utf8_decode k)) (kv_iterate (ti_tokset s) []);
     Some (take limit (sort_key (\<lambda>r. - snd r) rows)) }"

record token_info =
  i_supply :: int
  i_holder_count :: nat
  i_transfers :: int
  i_holders :: "(pystr \<times> int) list"
  i_offset :: nat
  i_limit :: nat
  i_truncated :: bool

text \<open>\<open>enum\<close> is the order in which Python walks a set.  The outer option is an exception, the inner one
  the answer None for an unknown token.\<close>

definition token_detail ::
  "(pystr set \<Rightarrow> pystr list) \<Rightarrow> token_index \<Rightarrow> pystr \<Rightarrow> int \<Rightarrow> int \<Rightarrow> token_info option option" where
  "token_detail enum s token limit0 offset0 = do {
     credits \<leftarrow> group_sums (ti_cred s) token;
     debits \<leftarrow> group_sums (ti_deb s) token;
     let bals = map (\<lambda>a. (a, dict_get credits a 0 - dict_get debits a 0))
                  (enum (fst ` set credits \<union> fst ` set debits));
     let holders = sort_key (\<lambda>h. - snd h) (filter (\<lambda>h. 0 < snd h) bals);
     transfers \<leftarrow> token_transfers s token;
     if holders = [] \<and> transfers = 0 then Some None
     else do {
       let limit = nat (max 1 (min limit0 1000));
       let offset = nat (max 0 offset0);
       let window = take limit (drop offset holders);
       Some (Some \<lparr>i_supply = sum_list (map snd holders), i_holder_count = length holders, i_transfers = transfers,
                   i_holders = window, i_offset = offset, i_limit = limit,
                   i_truncated = (offset + length window < length holders)\<rparr>) } }"

section \<open>Token rollback\<close>

definition undo_rows :: "int \<Rightarrow> int \<Rightarrow> jop \<Rightarrow> token_index \<Rightarrow> token_index option" where
  "undo_rows h seq j s = do {
     ck \<leftarrow> party_key (j_tok j) (j_rcp j) h seq;
     dk \<leftarrow> party_key (j_tok j) (j_adr j) h seq;
     tb \<leftarrow> name_key (j_tok j);
     let s1 = s\<lparr>ti_cred := kv_delete (ti_cred s) ck, ti_deb := kv_delete (ti_deb s) dk\<rparr>;
     s2 \<leftarrow> incr_addrtok (j_rcp j) (j_tok j) (-1) s1;
     s3 \<leftarrow> incr_addrtok (j_adr j) (j_tok j) (-1) s2;
     let s4 = s3\<lparr>ti_tokset := incr_count (ti_tokset s3) tb (-1)\<rparr>;
     Some (case j of JIssue _ _ _ _ _ \<Rightarrow> s4\<lparr>ti_tokreg := kv_delete (ti_tokreg s4) tb\<rparr> | _ \<Rightarrow> s4) }"

definition undo_token_op :: "bytes \<times> jop \<Rightarrow> token_index \<Rightarrow> token_index option" where
  "undo_token_op e s = do {
     (h, seq) \<leftarrow> unpack_hq (fst e);
     s1 \<leftarrow> (case snd e of JNoop _ \<Rightarrow> Some s | j \<Rightarrow> undo_rows h seq j s);
     xb \<leftarrow> name_key (j_txid (snd e));
     Some (s1\<lparr>ti_seen := kv_delete (ti_seen s1) xb, ti_journal := kv_delete (ti_journal s1) (fst e)\<rparr>) }"

definition tokens_rollback :: "int \<Rightarrow> token_index \<Rightarrow> token_index option" where
  "tokens_rollback height s = do {
     fl \<leftarrow> hbe height;
     s1 \<leftarrow> foldM_opt undo_token_op (kv_range (ti_journal s) (Some fl) None False) s;
     Some (s1\<lparr>ti_meta := kv_put (ti_meta s1) (blit ''tok_anchor'') (max 0 (height - 1))\<rparr>) }"

end
