(* ===== verification/TokenRollback.thy ===== *)
theory TokenRollback
  imports TokenIndex "HOL-Library.Multiset"
begin

text \<open>
  Rolling back the token index.  The journal records what every operation wrote; undoing the entries from
  a height on, in key order, restores every token sub-database to its content before the first of them, whatever
  names the operations used.  The relation \<open>extends\<close> says that a state is an earlier state plus the effect
  of its recent journal entries.
\<close>

section \<open>Keys\<close>

lemma hbe_SomeD:
  assumes "hbe h = Some b"
  shows "length b = 8" and "int (be_nat b) = h" and "0 \<le> h" and "b = be_bytes 8 (nat h)" and "nat h < 256 ^ 8"
proof -
  have H: "0 \<le> h" "h < 256 ^ 8" "b = be_bytes 8 (nat h)"
    using assms by (auto simp: hbe_def to_bytes_be_def split: if_splits)
  then show N: "nat h < 256 ^ 8" by (simp add: nat_less_iff)
  show "length b = 8" "0 \<le> h" "b = be_bytes 8 (nat h)" using H by simp_all
  show "int (be_nat b) = h" using H N by (simp add: be_nat_be_bytes)
qed

lemma hq_SomeD:
  assumes "hq h q = Some b"
  shows "length b = 16" and "unpack_hq b = Some (h, q)" and "0 \<le> q" and "be_nat (drop 8 b) = nat q"
    and "be_nat (take 8 b) = nat h" and "0 \<le> h"
proof -
  obtain x y where B: "hbe h = Some x" "hbe q = Some y" "b = x @ y"
    using assms by (auto simp: hq_def elim!: bind_SomeE)
  note X = hbe_SomeD [OF B(1)] and Y = hbe_SomeD [OF B(2)]
  show "length b = 16" "unpack_hq b = Some (h, q)" "0 \<le> q" "0 \<le> h" using X Y B(3) by (simp_all add: unpack_hq_def)
  show "be_nat (drop 8 b) = nat q" "be_nat (take 8 b) = nat h" using X Y B(3) by (simp_all add: nat_eq_iff2)
qed

lemma party_key_SomeD:
  assumes "party_key t p h q = Some k"
  shows "\<exists>b a. hq h q = Some b \<and> party_prefix t (Some p) = Some a \<and> k = a @ b"
  using assms by (auto simp: party_key_def dest!: lmdb_key_SomeD elim!: bind_SomeE)

lemma tail16_append: "length b = 16 \<Longrightarrow> tail16 (a @ b) = b"
  by (simp add: tail16_def)

lemma party_key_tail: "party_key t p h q = Some k \<Longrightarrow> hq h q = Some (tail16 k)"
  using party_key_SomeD hq_SomeD(1) tail16_append by metis

definition key_seq :: "bytes \<Rightarrow> nat" where
  "key_seq k = be_nat (drop 8 (tail16 k))"

lemma key_seq_party: "party_key t p h q = Some k \<Longrightarrow> key_seq k = nat q"
  using hq_SomeD(4) [OF party_key_tail] by (simp add: key_seq_def)

lemma key_seq_hq: "hq h q = Some k \<Longrightarrow> key_seq k = nat q"
  using hq_SomeD(1,4) [of h q k] by (simp add: key_seq_def tail16_def)

lemma less_append_same_length:
  "length a = length b \<Longrightarrow> (a :: bytes) < b \<Longrightarrow> a @ x < b @ y"
proof (induction a b rule: list_induct2)
  case (Cons c a d b)
  then show ?case by auto
qed simp

lemma floor_le_hq:
  assumes "hbe f = Some fl" and "hq h q = Some b"
  shows "fl \<le> b \<longleftrightarrow> f \<le> h"
proof -
  obtain x y where B: "hbe h = Some x" "hbe q = Some y" "b = x @ y"
    using assms by (auto simp: hq_def elim!: bind_SomeE)
  note F = hbe_SomeD [OF assms(1)] and X = hbe_SomeD [OF B(1)]
  have L: "fl < x \<longleftrightarrow> f < h" "x < fl \<longleftrightarrow> h < f" 
    unfolding F(4) X(4) using F(3,5) X(3,5) by (auto simp: be_bytes_less_iff)
  consider "f < h" | "f = h" | "h < f" by linarith
  then show ?thesis
  proof cases
    case 1
    then have "fl < b" using less_append_same_length [of fl x "[]" y] L F X B by simp
    then show ?thesis using 1 by simp
  next
    case 2
    then have "fl = x" using assms(1) B(1) by simp
    then show ?thesis using 2 B(3) prefix_le_bytes [of fl b] by simp
  next
    case 3
    then have "b < fl" using less_append_same_length [of x fl y "[]"] L F X B by simp
    then show ?thesis using 3 by simp
  qed
qed

section \<open>Counters\<close>

definition cnt_ok :: "int kvdb \<Rightarrow> bool" where
  "cnt_ok db \<longleftrightarrow> kv_ok db \<and> (\<forall>k v. kv_get db k = Some v \<longrightarrow> 0 < v)"

lemma cnt_nonneg: "cnt_ok db \<Longrightarrow> 0 \<le> get_int db k"
  by (auto simp: cnt_ok_def get_int_def split: option.splits dest: less_imp_le)

lemma get_int_incr:
  "cnt_ok db \<Longrightarrow> get_int (incr_count db k d) j = (if j = k then max 0 (get_int db k + d) else get_int db j)"
  by (auto simp: incr_count_def Let_def get_int_def cnt_ok_def kv.get_put kv.get_del split: option.splits)

lemma cnt_ok_incr: "cnt_ok db \<Longrightarrow> cnt_ok (incr_count db k d)"
  by (auto simp: incr_count_def Let_def cnt_ok_def kv.get_put kv.get_del kv.ok_put kv.ok_del split: if_splits)

lemma cnt_ext:
  assumes "cnt_ok a" and "cnt_ok b" and "\<And>k. get_int a k = get_int b k"
  shows "a = b"
proof (rule kv_ext)
  show "kv_ok a" "kv_ok b" using assms by (simp_all add: cnt_ok_def)
  show "kv_get a k = kv_get b k" for k
    using assms(1,2) assms(3) [of k] by (force simp: cnt_ok_def get_int_def split: option.splits)
qed

text \<open>One database is another plus fresh entries under the keys K.\<close>

definition off :: "bytes set \<Rightarrow> 'v kvdb \<Rightarrow> 'v kvdb \<Rightarrow> bool" where
  "off K d d0 \<longleftrightarrow> kv_ok d \<and> kv_ok d0 \<and> (\<forall>k. k \<notin> K \<longrightarrow> kv_get d k = kv_get d0 k) \<and> (\<forall>k \<in> K. kv_get d0 k = None)"

lemma off_put: "off K d d0 \<Longrightarrow> kv_get d a = None \<Longrightarrow> off (insert a K) (kv_put d a v) d0"
  by (auto simp: off_def kv.get_put kv.ok_put)

lemma off_delete: "off (insert a K) d d0 \<Longrightarrow> off K (kv_delete d a) d0"
  by (auto simp: off_def kv.get_del kv.ok_del)

lemma off_empty: "off {} d d0 \<Longrightarrow> d = d0"
  by (rule kv_ext) (auto simp: off_def)

lemma off_refl: "kv_ok d \<Longrightarrow> off {} d d"
  by (simp add: off_def)

definition cnt_off :: "(bytes \<Rightarrow> nat) \<Rightarrow> int kvdb \<Rightarrow> int kvdb \<Rightarrow> bool" where
  "cnt_off c d d0 \<longleftrightarrow> cnt_ok d \<and> cnt_ok d0 \<and> (\<forall>k. get_int d k = get_int d0 k + int (c k))"

lemma cnt_off_incr: "cnt_off c d d0 \<Longrightarrow> cnt_off (c(k := Suc (c k))) (incr_count d k 1) d0"
  using cnt_nonneg [of d0 k] by (auto simp: cnt_off_def get_int_incr cnt_ok_incr)

lemma cnt_off_decr: "cnt_off (c(k := Suc (c k))) d d0 \<Longrightarrow> cnt_off c (incr_count d k (-1)) d0"
  using cnt_nonneg [of d0 k] by (auto simp: cnt_off_def get_int_incr cnt_ok_incr)

lemma cnt_off_zero: "cnt_off (\<lambda>_. 0) d d0 \<Longrightarrow> d = d0"
  by (rule cnt_ext) (auto simp: cnt_off_def)

section \<open>A state as an earlier state plus journal entries\<close>

definition is_noop :: "jop \<Rightarrow> bool" where
  "is_noop j = (case j of JNoop _ \<Rightarrow> True | _ \<Rightarrow> False)"

definition is_issue :: "jop \<Rightarrow> bool" where
  "is_issue j = (case j of JIssue _ _ _ _ _ \<Rightarrow> True | _ \<Rightarrow> False)"

lemma kind_simps [simp]:
  "\<not> is_noop (JIssue t r a n x)" "\<not> is_noop (JTransfer t r a n x ts)" "is_noop (JNoop x)"
  "is_issue (JIssue t r a n x)" "\<not> is_issue (JTransfer t r a n x ts)" "\<not> is_issue (JNoop x)"
  by (simp_all add: is_noop_def is_issue_def)

definition row_keys :: "(jop \<Rightarrow> pystr) \<Rightarrow> bytes \<times> jop \<Rightarrow> bytes set" where
  "row_keys party e = {k. \<exists>h q. unpack_hq (fst e) = Some (h, q) \<and> \<not> is_noop (snd e) \<and>
                               party_key (j_tok (snd e)) (party (snd e)) h q = Some k}"

definition reg_keys :: "bytes \<times> jop \<Rightarrow> bytes set" where
  "reg_keys e = {k. is_issue (snd e) \<and> name_key (j_tok (snd e)) = Some k}"

definition txid_keys :: "bytes \<times> jop \<Rightarrow> bytes set" where
  "txid_keys e = {k. name_key (j_txid (snd e)) = Some k}"

definition addr_count :: "bytes \<Rightarrow> bytes \<times> jop \<Rightarrow> nat" where
  "addr_count k e = (if is_noop (snd e) then 0 else
     of_bool (addrtok_key (j_rcp (snd e)) (j_tok (snd e)) = Some k) +
     of_bool (addrtok_key (j_adr (snd e)) (j_tok (snd e)) = Some k))"

definition tok_count :: "bytes \<Rightarrow> bytes \<times> jop \<Rightarrow> nat" where
  "tok_count k e = (if is_noop (snd e) then 0 else of_bool (name_key (j_tok (snd e)) = Some k))"

definition ext_by :: "(bytes \<times> jop) list \<Rightarrow> token_index \<Rightarrow> token_index \<Rightarrow> bool" where
  "ext_by es s0 s \<longleftrightarrow>
     off (\<Union>e \<in> set es. row_keys j_rcp e) (ti_cred s) (ti_cred s0) \<and>
     off (\<Union>e \<in> set es. row_keys j_adr e) (ti_deb s) (ti_deb s0) \<and>
     off (\<Union>e \<in> set es. reg_keys e) (ti_tokreg s) (ti_tokreg s0) \<and>
     off (\<Union>e \<in> set es. txid_keys e) (ti_seen s) (ti_seen s0) \<and>
     off (fst ` set es) (ti_journal s) (ti_journal s0) \<and>
     cnt_off (\<lambda>k. \<Sum>e\<leftarrow>es. addr_count k e) (ti_addrtok s) (ti_addrtok s0) \<and>
     cnt_off (\<lambda>k. \<Sum>e\<leftarrow>es. tok_count k e) (ti_tokset s) (ti_tokset s0)"

lemma ext_by_mset:
  assumes "ext_by es s0 s" and "mset es = mset es'"
  shows "ext_by es' s0 s"
proof -
  have S: "set es = set es'" using assms(2) by (rule mset_eq_setD)
  have "sum_list (map f es) = sum_list (map f es')" for f :: "bytes \<times> jop \<Rightarrow> nat"
    using assms(2) by (metis mset_map sum_mset_sum_list)
  then show ?thesis using assms(1) by (simp add: ext_by_def S)
qed

lemma ext_by_Nil:
  assumes "ext_by [] s0 s"
  shows "ti_cred s = ti_cred s0" "ti_deb s = ti_deb s0" "ti_tokreg s = ti_tokreg s0" "ti_seen s = ti_seen s0"
    "ti_journal s = ti_journal s0" "ti_addrtok s = ti_addrtok s0" "ti_tokset s = ti_tokset s0"
  using assms by (auto simp: ext_by_def dest!: off_empty cnt_off_zero)

definition entry_ok :: "bytes \<times> jop \<Rightarrow> bool" where
  "entry_ok e \<longleftrightarrow> (\<exists>h q. hq h q = Some (fst e) \<and> name_key (j_txid (snd e)) \<noteq> None \<and>
     (\<not> is_noop (snd e) \<longrightarrow>
        party_key (j_tok (snd e)) (j_rcp (snd e)) h q \<noteq> None \<and> party_key (j_tok (snd e)) (j_adr (snd e)) h q \<noteq> None \<and>
        name_key (j_tok (snd e)) \<noteq> None \<and> addrtok_key (j_rcp (snd e)) (j_tok (snd e)) \<noteq> None \<and>
        addrtok_key (j_adr (snd e)) (j_tok (snd e)) \<noteq> None))"

section \<open>Undoing an entry\<close>

definition same_aliases :: "token_index \<Rightarrow> token_index \<Rightarrow> bool" where
  "same_aliases s t \<longleftrightarrow> ti_alias_fwd t = ti_alias_fwd s \<and> ti_alias_rev t = ti_alias_rev s \<and> ti_ajournal t = ti_ajournal s"

lemma undo_row_step:
  assumes E: "ext_by ((jk, j) # es) s0 s" and K: "entry_ok (jk, j)" and U: "unpack_hq jk = Some (h, q)"
    and N: "\<not> is_noop j" and X: "name_key (j_txid j) = Some xb"
  obtains s1 where "undo_rows h q j s = Some s1" and "ti_meta s1 = ti_meta s" and "same_aliases s s1"
    and "ext_by es s0 (s1\<lparr>ti_seen := kv_delete (ti_seen s1) xb, ti_journal := kv_delete (ti_journal s1) jk\<rparr>)"
proof -
  have Q: "hq h q = Some jk" using K U hq_SomeD(2) by (fastforce simp: entry_ok_def)
  obtain ck dk tb a1 a2 where
    ks: "party_key (j_tok j) (j_rcp j) h q = Some ck" "party_key (j_tok j) (j_adr j) h q = Some dk"
        "name_key (j_tok j) = Some tb" "addrtok_key (j_rcp j) (j_tok j) = Some a1"
        "addrtok_key (j_adr j) (j_tok j) = Some a2"
    using K U N hq_SomeD(2) by (fastforce simp: entry_ok_def)
  define s1 where "s1 = s\<lparr>ti_cred := kv_delete (ti_cred s) ck, ti_deb := kv_delete (ti_deb s) dk,
     ti_addrtok := incr_count (incr_count (ti_addrtok s) a1 (-1)) a2 (-1),
     ti_tokset := incr_count (ti_tokset s) tb (-1),
     ti_tokreg := (if is_issue j then kv_delete (ti_tokreg s) tb else ti_tokreg s)\<rparr>"
  have R: "undo_rows h q j s = Some s1"
    using ks N by (cases j) (simp_all add: undo_rows_def incr_addrtok_def s1_def)
  have keys: "row_keys j_rcp (jk, j) = {ck}" "row_keys j_adr (jk, j) = {dk}"
    "reg_keys (jk, j) = (if is_issue j then {tb} else {})" "txid_keys (jk, j) = {xb}"
    using ks U N X by (auto simp: row_keys_def reg_keys_def txid_keys_def)
  have A: "(\<lambda>k. \<Sum>e\<leftarrow>(jk, j) # es. addr_count k e) =
     (let c = (\<lambda>k. \<Sum>e\<leftarrow>es. addr_count k e); c1 = c(a2 := Suc (c a2)) in c1(a1 := Suc (c1 a1)))"
    using ks N by (auto simp: addr_count_def Let_def fun_eq_iff)
  have T: "(\<lambda>k. \<Sum>e\<leftarrow>(jk, j) # es. tok_count k e) =
     (let c = (\<lambda>k. \<Sum>e\<leftarrow>es. tok_count k e) in c(tb := Suc (c tb)))"
    using ks N by (auto simp: tok_count_def Let_def fun_eq_iff)
  note E' = E [unfolded ext_by_def A T Let_def]
  have "ext_by es s0 (s1\<lparr>ti_seen := kv_delete (ti_seen s1) xb, ti_journal := kv_delete (ti_journal s1) jk\<rparr>)"
    using E' by (auto simp: ext_by_def s1_def keys intro!: off_delete cnt_off_decr)
  then show ?thesis using that [OF R] by (auto simp: s1_def same_aliases_def)
qed

lemma undo_step:
  assumes E: "ext_by (e # es) s0 s" and K: "entry_ok e"
  obtains s' where "undo_token_op e s = Some s'" and "ext_by es s0 s'" and "ti_meta s' = ti_meta s" and "same_aliases s s'"
proof -
  obtain jk j where e: "e = (jk, j)" by (cases e)
  obtain h q xb where U: "unpack_hq jk = Some (h, q)" and X: "name_key (j_txid j) = Some xb"
    using K hq_SomeD(2) by (fastforce simp: entry_ok_def e)
  show ?thesis
  proof (cases "is_noop j")
    case True
    then have keys: "row_keys j_rcp e = {}" "row_keys j_adr e = {}" "reg_keys e = {}" "txid_keys e = {xb}"
      "\<And>k. addr_count k e = 0" "\<And>k. tok_count k e = 0"
      using X by (cases j; auto simp: e row_keys_def reg_keys_def txid_keys_def addr_count_def tok_count_def)+
    let ?s = "s\<lparr>ti_seen := kv_delete (ti_seen s) xb, ti_journal := kv_delete (ti_journal s) jk\<rparr>"
    have "undo_token_op e s = Some ?s" using True U X by (cases j) (simp_all add: undo_token_op_def e)
    moreover have "ext_by es s0 ?s" using E by (auto simp: ext_by_def keys [unfolded e] e intro!: off_delete)
    ultimately show ?thesis using that [of ?s] by (simp add: same_aliases_def)
  next
    case False
    obtain s1 where S: "undo_rows h q j s = Some s1" "ti_meta s1 = ti_meta s" "same_aliases s s1"
      "ext_by es s0 (s1\<lparr>ti_seen := kv_delete (ti_seen s1) xb, ti_journal := kv_delete (ti_journal s1) jk\<rparr>)"
      using undo_row_step [OF E [unfolded e] K [unfolded e] U False X] .
    have "undo_token_op e s =
            Some (s1\<lparr>ti_seen := kv_delete (ti_seen s1) xb, ti_journal := kv_delete (ti_journal s1) jk\<rparr>)"
      using False U X S(1) by (cases j) (simp_all add: undo_token_op_def e)
    then show ?thesis using S that by (simp add: same_aliases_def)
  qed
qed

lemma undo_all:
  assumes "ext_by es s0 s" and "\<forall>e \<in> set es. entry_ok e"
  shows "\<exists>s'. foldM_opt undo_token_op es s = Some s' \<and> ext_by [] s0 s' \<and> ti_meta s' = ti_meta s \<and> same_aliases s s'"
  using assms
proof (induction es arbitrary: s)
  case (Cons e es)
  obtain s1 where S: "undo_token_op e s = Some s1" "ext_by es s0 s1" "ti_meta s1 = ti_meta s" "same_aliases s s1"
    using undo_step [OF Cons.prems(1)] Cons.prems(2) by auto
  then show ?case using Cons.IH [OF S(2)] Cons.prems(2) by (auto simp: same_aliases_def)
qed (simp add: same_aliases_def)

section \<open>The invariant of the token sub-databases\<close>

definition seq_of :: "token_index \<Rightarrow> int" where
  "seq_of s = get_int (ti_meta s) (blit ''seq'')"

definition below_seq :: "token_index \<Rightarrow> 'v kvdb \<Rightarrow> bool" where
  "below_seq s db \<longleftrightarrow> (\<forall>k. kv_get db k \<noteq> None \<longrightarrow> int (key_seq k) \<le> seq_of s)"

definition tok_inv :: "token_index \<Rightarrow> bool" where
  "tok_inv s \<longleftrightarrow> kv_ok (ti_meta s) \<and> kv_ok (ti_tokreg s) \<and> kv_ok (ti_seen s) \<and> kv_ok (ti_cred s) \<and>
     kv_ok (ti_deb s) \<and> kv_ok (ti_journal s) \<and> cnt_ok (ti_addrtok s) \<and> cnt_ok (ti_tokset s) \<and> 0 \<le> seq_of s \<and>
     below_seq s (ti_cred s) \<and> below_seq s (ti_deb s) \<and> below_seq s (ti_journal s) \<and>
     (\<forall>k j. kv_get (ti_journal s) k = Some j \<longrightarrow> entry_ok (k, j))"

lemma empty_inv: "tok_inv empty_index"
  by (simp add: tok_inv_def empty_index_def below_seq_def cnt_ok_def seq_of_def get_int_def)

text \<open>What recording an entry changes.\<close>

definition writes :: "bytes \<times> jop \<Rightarrow> token_index \<Rightarrow> token_index \<Rightarrow> bool" where
  "writes e s t \<longleftrightarrow> entry_ok e \<and> kv_get (ti_journal s) (fst e) = None \<and>
     ti_journal t = kv_put (ti_journal s) (fst e) (snd e) \<and>
     (\<exists>xb. name_key (j_txid (snd e)) = Some xb \<and> kv_get (ti_seen s) xb = None \<and> ti_seen t = kv_put (ti_seen s) xb ()) \<and>
     (if is_issue (snd e)
      then \<exists>tb v. name_key (j_tok (snd e)) = Some tb \<and> kv_get (ti_tokreg s) tb = None \<and> ti_tokreg t = kv_put (ti_tokreg s) tb v
      else ti_tokreg t = ti_tokreg s) \<and>
     (if is_noop (snd e)
      then ti_cred t = ti_cred s \<and> ti_deb t = ti_deb s \<and> ti_addrtok t = ti_addrtok s \<and> ti_tokset t = ti_tokset s
      else \<exists>h q ck dk tb a1 a2. hq h q = Some (fst e) \<and>
        party_key (j_tok (snd e)) (j_rcp (snd e)) h q = Some ck \<and> kv_get (ti_cred s) ck = None \<and>
        party_key (j_tok (snd e)) (j_adr (snd e)) h q = Some dk \<and> kv_get (ti_deb s) dk = None \<and>
        ti_cred t = kv_put (ti_cred s) ck (j_amt (snd e)) \<and> ti_deb t = kv_put (ti_deb s) dk (j_amt (snd e)) \<and>
        name_key (j_tok (snd e)) = Some tb \<and> ti_tokset t = incr_count (ti_tokset s) tb 1 \<and>
        {#Some a1, Some a2#} = {#addrtok_key (j_rcp (snd e)) (j_tok (snd e)), addrtok_key (j_adr (snd e)) (j_tok (snd e))#} \<and>
        ti_addrtok t = incr_count (incr_count (ti_addrtok s) a1 1) a2 1)"

lemma cnt_off_pair:
  assumes "cnt_off c d d0" and "{#Some a1, Some a2#} = {#x, y#}"
  shows "cnt_off (\<lambda>k. of_bool (x = Some k) + of_bool (y = Some k) + c k) (incr_count (incr_count d a1 1) a2 1) d0"
proof -
  have xy: "x = Some a1 \<and> y = Some a2 \<or> x = Some a2 \<and> y = Some a1"
    using assms(2) by (auto simp: add_eq_conv_ex)
  have "cnt_off ((c(a1 := Suc (c a1)))(a2 := Suc ((c(a1 := Suc (c a1))) a2))) (incr_count (incr_count d a1 1) a2 1) d0"
    by (intro cnt_off_incr assms(1))
  moreover have "(c(a1 := Suc (c a1)))(a2 := Suc ((c(a1 := Suc (c a1))) a2)) =
      (\<lambda>k. of_bool (x = Some k) + of_bool (y = Some k) + c k)"
    using xy by (auto simp: fun_eq_iff)
  ultimately show ?thesis by simp
qed

lemma writes_ext:
  assumes E: "ext_by es s0 s" and W: "writes e s t"
  shows "ext_by (e # es) s0 t"
proof (cases "is_noop (snd e)")
  case True
  then have "row_keys j_rcp e = {}" "row_keys j_adr e = {}" "reg_keys e = {}" "\<not> is_issue (snd e)"
    "\<And>k. addr_count k e = 0" "\<And>k. tok_count k e = 0"
    by (cases "snd e"; simp add: row_keys_def reg_keys_def addr_count_def tok_count_def)+
  then show ?thesis using E W True
    by (auto simp: ext_by_def writes_def txid_keys_def intro: off_put)
next
  case False
  then obtain h q ck dk tb a1 a2 where D: "hq h q = Some (fst e)"
    "party_key (j_tok (snd e)) (j_rcp (snd e)) h q = Some ck" "kv_get (ti_cred s) ck = None"
    "party_key (j_tok (snd e)) (j_adr (snd e)) h q = Some dk" "kv_get (ti_deb s) dk = None"
    "ti_cred t = kv_put (ti_cred s) ck (j_amt (snd e))" "ti_deb t = kv_put (ti_deb s) dk (j_amt (snd e))"
    "name_key (j_tok (snd e)) = Some tb" "ti_tokset t = incr_count (ti_tokset s) tb 1"
    "{#Some a1, Some a2#} = {#addrtok_key (j_rcp (snd e)) (j_tok (snd e)), addrtok_key (j_adr (snd e)) (j_tok (snd e))#}"
    "ti_addrtok t = incr_count (incr_count (ti_addrtok s) a1 1) a2 1"
    using W by (auto simp: writes_def)
  obtain xb where X: "name_key (j_txid (snd e)) = Some xb" "kv_get (ti_seen s) xb = None" "ti_seen t = kv_put (ti_seen s) xb ()"
    and J: "kv_get (ti_journal s) (fst e) = None" "ti_journal t = kv_put (ti_journal s) (fst e) (snd e)"
    using W by (auto simp: writes_def)
  have keys: "row_keys j_rcp e = {ck}" "row_keys j_adr e = {dk}" "txid_keys e = {xb}"
    "reg_keys e = (if is_issue (snd e) then {tb} else {})"
    using D hq_SomeD(2) [OF D(1)] X False by (auto simp: row_keys_def txid_keys_def reg_keys_def)
  have cnt: "(\<lambda>k. \<Sum>x\<leftarrow>e # es. addr_count k x) =
      (\<lambda>k. of_bool (addrtok_key (j_rcp (snd e)) (j_tok (snd e)) = Some k) +
           of_bool (addrtok_key (j_adr (snd e)) (j_tok (snd e)) = Some k) + (\<Sum>x\<leftarrow>es. addr_count k x))"
    "(\<lambda>k. \<Sum>x\<leftarrow>e # es. tok_count k x) = (let c = (\<lambda>k. \<Sum>x\<leftarrow>es. tok_count k x) in c(tb := Suc (c tb)))"
    using False D(8) by (auto simp: addr_count_def tok_count_def fun_eq_iff Let_def)
  have R: "off (\<Union>x \<in> set (e # es). reg_keys x) (ti_tokreg t) (ti_tokreg s0)"
    using E W D(8) by (cases "is_issue (snd e)") (auto simp: ext_by_def writes_def keys intro: off_put)
  have A: "cnt_off (\<lambda>k. \<Sum>x\<leftarrow>e # es. addr_count k x) (ti_addrtok t) (ti_addrtok s0)"
    using cnt_off_pair [OF _ D(10)] E unfolding cnt(1) D(11) by (simp add: ext_by_def)
  have T: "cnt_off (\<lambda>k. \<Sum>x\<leftarrow>e # es. tok_count k x) (ti_tokset t) (ti_tokset s0)"
    using E cnt_off_incr unfolding cnt(2) D(9) by (fastforce simp: ext_by_def Let_def)
  show ?thesis using E D X J R A T by (simp add: ext_by_def keys off_put)
qed

section \<open>The operations write journal entries\<close>

lemma unit_option: "(x :: unit option) \<noteq> Some () \<longleftrightarrow> x = None"
  by (cases x) auto

lemma meta_keys [simp]:
  "blit ''seq'' \<noteq> blit ''tok_anchor''" "blit ''seq'' \<noteq> blit ''alias_anchor''" "blit ''tok_anchor'' \<noteq> blit ''alias_anchor''"
  by (simp_all add: blit_def)

lemma next_seq_simps:
  assumes "next_seq s = (q, s1)"
  shows "q = seq_of s + 1" and "s1 = s\<lparr>ti_meta := kv_put (ti_meta s) (blit ''seq'') q\<rparr>"
  using assms by (auto simp: next_seq_def seq_of_def Let_def)

lemma bump_anchor_simps [simp]:
  "ti_tokreg (bump_anchor k h s) = ti_tokreg s" "ti_seen (bump_anchor k h s) = ti_seen s"
  "ti_cred (bump_anchor k h s) = ti_cred s" "ti_deb (bump_anchor k h s) = ti_deb s"
  "ti_addrtok (bump_anchor k h s) = ti_addrtok s" "ti_tokset (bump_anchor k h s) = ti_tokset s"
  "ti_journal (bump_anchor k h s) = ti_journal s" "ti_alias_fwd (bump_anchor k h s) = ti_alias_fwd s"
  "ti_alias_rev (bump_anchor k h s) = ti_alias_rev s" "ti_ajournal (bump_anchor k h s) = ti_ajournal s"
  by (simp_all add: bump_anchor_def)

lemma bump_anchor_meta:
  assumes "kv_ok (ti_meta s)"
  shows "kv_ok (ti_meta (bump_anchor k h s))"
    and "blit ''seq'' \<noteq> k \<Longrightarrow> seq_of (bump_anchor k h s) = seq_of s"
  using assms by (auto simp: bump_anchor_def seq_of_def get_int_def kv.ok_put kv.get_put)

definition tok_step :: "bytes \<times> jop \<Rightarrow> int \<Rightarrow> token_index \<Rightarrow> token_index \<Rightarrow> bool" where
  "tok_step e h s t \<longleftrightarrow> writes e s t \<and> seq_of t = seq_of s + 1 \<and> hq h (seq_of t) = Some (fst e) \<and>
     kv_ok (ti_meta t) \<and> same_aliases s t"

lemma fresh_key:
  "below_seq s db \<Longrightarrow> key_seq k = nat (seq_of s + 1) \<Longrightarrow> 0 \<le> seq_of s \<Longrightarrow> kv_get db k = None"
  unfolding below_seq_def by (rule ccontr) (drule spec [of _ k], simp)

lemma put_rows_SomeD:
  assumes "put_rows h q j x y s = Some t"
  obtains ck dk tb jk a1 a2 where "party_key (j_tok j) (j_rcp j) h q = Some ck" "party_key (j_tok j) (j_adr j) h q = Some dk"
    "name_key (j_tok j) = Some tb" "hq h q = Some jk" "addrtok_key x (j_tok j) = Some a1" "addrtok_key y (j_tok j) = Some a2"
    "t = s\<lparr>ti_cred := kv_put (ti_cred s) ck (j_amt j), ti_deb := kv_put (ti_deb s) dk (j_amt j),
          ti_addrtok := incr_count (incr_count (ti_addrtok s) a1 1) a2 1,
          ti_tokset := incr_count (ti_tokset s) tb 1, ti_journal := kv_put (ti_journal s) jk j\<rparr>"
  using assms by (auto simp: put_rows_def incr_addrtok_def elim!: bind_SomeE)

lemma put_rows_writes:
  assumes I: "tok_inv s" and P: "put_rows h (seq_of s + 1) j x y s2 = Some s3" and N: "\<not> is_noop j"
    and xy: "x = j_rcp j \<and> y = j_adr j \<or> x = j_adr j \<and> y = j_rcp j"
    and same: "ti_cred s2 = ti_cred s" "ti_deb s2 = ti_deb s" "ti_addrtok s2 = ti_addrtok s" "ti_tokset s2 = ti_tokset s"
      "ti_journal s2 = ti_journal s"
    and X: "name_key (j_txid j) = Some xb" "kv_get (ti_seen s) xb = None" "ti_seen s2 = kv_put (ti_seen s) xb ()"
    and R: "if is_issue j then name_key (j_tok j) = Some tb' \<and> kv_get (ti_tokreg s) tb' = None \<and> ti_tokreg s2 = kv_put (ti_tokreg s) tb' v
            else ti_tokreg s2 = ti_tokreg s"
  shows "\<exists>jk. hq h (seq_of s + 1) = Some jk \<and> writes (jk, j) s s3"
proof -
  from P obtain ck dk tb jk a1 a2 where D: "party_key (j_tok j) (j_rcp j) h (seq_of s + 1) = Some ck"
    "party_key (j_tok j) (j_adr j) h (seq_of s + 1) = Some dk" "name_key (j_tok j) = Some tb"
    "hq h (seq_of s + 1) = Some jk" "addrtok_key x (j_tok j) = Some a1" "addrtok_key y (j_tok j) = Some a2"
    "s3 = s2\<lparr>ti_cred := kv_put (ti_cred s2) ck (j_amt j), ti_deb := kv_put (ti_deb s2) dk (j_amt j),
          ti_addrtok := incr_count (incr_count (ti_addrtok s2) a1 1) a2 1,
          ti_tokset := incr_count (ti_tokset s2) tb 1, ti_journal := kv_put (ti_journal s2) jk j\<rparr>"
    by (rule put_rows_SomeD)
  have F: "kv_get (ti_cred s) ck = None" "kv_get (ti_deb s) dk = None" "kv_get (ti_journal s) jk = None"
    using I key_seq_party [OF D(1)] key_seq_party [OF D(2)] key_seq_hq [OF D(4)] fresh_key
    by (auto simp: tok_inv_def)
  have A: "{#Some a1, Some a2#} = {#addrtok_key (j_rcp j) (j_tok j), addrtok_key (j_adr j) (j_tok j)#}"
    using xy D(5,6) by (auto simp: add_mset_commute)
  have E: "entry_ok (jk, j)" using D(1-6) xy X(1) unfolding entry_ok_def by auto
  have S3: "ti_cred s3 = kv_put (ti_cred s) ck (j_amt j)" "ti_deb s3 = kv_put (ti_deb s) dk (j_amt j)"
    "ti_addrtok s3 = incr_count (incr_count (ti_addrtok s) a1 1) a2 1" "ti_tokset s3 = incr_count (ti_tokset s) tb 1"
    "ti_journal s3 = kv_put (ti_journal s) jk j" "ti_seen s3 = kv_put (ti_seen s) xb ()" "ti_tokreg s3 = ti_tokreg s2"
    using D(7) same X(3) by simp_all
  have T: "if is_issue j
      then \<exists>tb v. name_key (j_tok j) = Some tb \<and> kv_get (ti_tokreg s) tb = None \<and> ti_tokreg s3 = kv_put (ti_tokreg s) tb v
      else ti_tokreg s3 = ti_tokreg s"
    using R S3(7) by auto
  have "writes (jk, j) s s3"
    unfolding writes_def fst_conv snd_conv if_not_P [OF N]
    by (intro conjI exI; (fact E F X S3 D A T)?)
  then show ?thesis using D(4) by blast
qed

lemma seq_step:
  assumes "kv_ok (ti_meta s)" and "ti_meta s3 = kv_put (ti_meta s) (blit ''seq'') (seq_of s + 1)"
  shows "seq_of (bump_anchor (blit ''tok_anchor'') h s3) = seq_of s + 1"
    and "kv_ok (ti_meta (bump_anchor (blit ''tok_anchor'') h s3))"
proof -
  have K: "kv_ok (ti_meta s3)" and Q: "seq_of s3 = seq_of s + 1"
    using assms by (simp_all add: kv.ok_put kv.get_put seq_of_def get_int_def)
  show "seq_of (bump_anchor (blit ''tok_anchor'') h s3) = seq_of s + 1"
    using bump_anchor_meta(2) [OF K] Q by simp
  show "kv_ok (ti_meta (bump_anchor (blit ''tok_anchor'') h s3))" using bump_anchor_meta(1) [OF K] .
qed

lemma put_rows_meta:
  "put_rows h q j x y s = Some t \<Longrightarrow> ti_meta t = ti_meta s \<and> same_aliases s t"
  by (erule put_rows_SomeD) (simp add: same_aliases_def)

lemma writes_bump: "writes e s (bump_anchor k h t) = writes e s t"
  by (simp add: writes_def)

lemma register_issue_step:
  assumes I: "tok_inv s" and R: "register_issue height ts token issuer txid amt s = Some (True, t)"
  obtains jk n where "tok_step (jk, JIssue token issuer issued n txid) height s t"
    and "n = (case py_int amt of None \<Rightarrow> 0 | Some m \<Rightarrow> m)"
proof -
  obtain q s1 where Q: "next_seq s = (q, s1)" by fastforce
  note Q' = next_seq_simps [OF Q]
  define n where "n = (case py_int amt of None \<Rightarrow> 0 | Some m \<Rightarrow> m)"
  obtain tb xb e s2 s3 where D: "name_key token = Some tb" "name_key txid = Some xb"
    "kv_get (ti_tokreg s) tb = None" "kv_get (ti_seen s) xb = None"
    "s2 = s1\<lparr>ti_tokreg := kv_put (ti_tokreg s1) tb e, ti_seen := kv_put (ti_seen s1) xb ()\<rparr>"
    "put_rows height q (JIssue token issuer issued n txid) issuer issued s2 = Some s3"
    "t = bump_anchor (blit ''tok_anchor'') height s3"
    using R by (auto simp: register_issue_def Q n_def [symmetric] unit_option elim!: bind_SomeE split: if_splits)
  have "\<exists>jk. hq height (seq_of s + 1) = Some jk \<and> writes (jk, JIssue token issuer issued n txid) s s3"
    by (rule put_rows_writes [OF I D(6) [unfolded Q'(1)], where xb = xb and tb' = tb and v = e])
      (simp_all add: D Q'(2))
  then obtain jk where J: "hq height (seq_of s + 1) = Some jk" "writes (jk, JIssue token issuer issued n txid) s s3" by blast
  have "ti_meta s3 = kv_put (ti_meta s) (blit ''seq'') (seq_of s + 1)" "same_aliases s s3"
    using put_rows_meta [OF D(6)] Q' by (simp_all add: D(5) same_aliases_def)
  then have "tok_step (jk, JIssue token issuer issued n txid) height s t"
    using J seq_step [of s s3 height] I by (simp add: tok_step_def writes_bump D(7) tok_inv_def same_aliases_def)
  then show ?thesis using that n_def by blast
qed

lemma apply_transfer_step:
  assumes I: "tok_inv s" and R: "apply_transfer height ts token sender recipient txid amount s = Some (True, t)"
  obtains jk where "tok_step (jk, JTransfer token recipient sender amount txid ts) height s t"
proof -
  obtain q s1 where Q: "next_seq s = (q, s1)" by fastforce
  note Q' = next_seq_simps [OF Q]
  let ?j = "JTransfer token recipient sender amount txid ts"
  obtain xb s2 s3 where D: "name_key txid = Some xb" "kv_get (ti_seen s) xb = None"
    "s2 = s1\<lparr>ti_seen := kv_put (ti_seen s1) xb ()\<rparr>" "put_rows height q ?j sender recipient s2 = Some s3"
    "t = bump_anchor (blit ''tok_anchor'') height s3"
    using R by (auto simp: apply_transfer_def Q unit_option elim!: bind_SomeE split: if_splits)
  have "\<exists>jk. hq height (seq_of s + 1) = Some jk \<and> writes (jk, ?j) s s3"
    by (rule put_rows_writes [OF I D(4) [unfolded Q'(1)], where xb = xb]) (simp_all add: D Q'(2))
  then obtain jk where J: "hq height (seq_of s + 1) = Some jk" "writes (jk, ?j) s s3" by blast
  have "ti_meta s3 = kv_put (ti_meta s) (blit ''seq'') (seq_of s + 1)" "same_aliases s s3"
    using put_rows_meta [OF D(4)] Q' by (simp_all add: D(3) same_aliases_def)
  then have "tok_step (jk, ?j) height s t"
    using J seq_step [of s s3 height] I by (simp add: tok_step_def writes_bump D(5) tok_inv_def same_aliases_def)
  then show ?thesis using that by blast
qed

lemma mark_noop_step:
  assumes I: "tok_inv s" and R: "mark_noop height txid s = Some (True, t)"
  obtains jk where "tok_step (jk, JNoop txid) height s t"
proof -
  obtain q s1 where Q: "next_seq s = (q, s1)" by fastforce
  note Q' = next_seq_simps [OF Q]
  obtain xb jk where D: "name_key txid = Some xb" "kv_get (ti_seen s) xb = None" "hq height q = Some jk"
    "t = bump_anchor (blit ''tok_anchor'') height
           (s1\<lparr>ti_seen := kv_put (ti_seen s1) xb (), ti_journal := kv_put (ti_journal s1) jk (JNoop txid)\<rparr>)"
    using R by (auto simp: mark_noop_def Q unit_option elim!: bind_SomeE split: if_splits)
  let ?s = "s1\<lparr>ti_seen := kv_put (ti_seen s1) xb (), ti_journal := kv_put (ti_journal s1) jk (JNoop txid)\<rparr>"
  have F: "kv_get (ti_journal s) jk = None"
    using I key_seq_hq [OF D(3)] fresh_key [of s "ti_journal s" jk] Q'(1) by (auto simp: tok_inv_def)
  have "writes (jk, JNoop txid) s ?s"
    using F D(1-3) Q' by (auto simp: writes_def entry_ok_def)
  moreover have "ti_meta ?s = kv_put (ti_meta s) (blit ''seq'') (seq_of s + 1)" using Q' by simp
  ultimately have "tok_step (jk, JNoop txid) height s t"
    using seq_step [of s ?s height] I D Q' by (simp add: tok_step_def writes_bump tok_inv_def same_aliases_def)
  then show ?thesis using that by blast
qed

lemma below_seq_put:
  assumes "kv_ok db" and "below_seq s db" and "seq_of t = seq_of s + 1" and "int (key_seq k) \<le> seq_of t"
  shows "below_seq t (kv_put db k v)"
  using assms by (auto simp: below_seq_def kv.get_put)

lemma below_seq_mono: "below_seq s db \<Longrightarrow> seq_of s \<le> seq_of t \<Longrightarrow> below_seq t db"
  unfolding below_seq_def using order_trans by blast

lemma tok_step_inv:
  assumes I: "tok_inv s" and T: "tok_step e h s t"
  shows "tok_inv t"
proof -
  have W: "writes e s t" and Q: "seq_of t = seq_of s + 1" "hq h (seq_of t) = Some (fst e)" "kv_ok (ti_meta t)"
    using T unfolding tok_step_def by blast+
  have N: "0 \<le> seq_of s" "0 \<le> seq_of t" using I Q by (simp_all add: tok_inv_def)
  have J: "below_seq t (ti_journal t)" "kv_ok (ti_journal t)"
    "kv_get (ti_journal t) k = Some j \<Longrightarrow> entry_ok (k, j)" for k j
    using W I below_seq_put [of "ti_journal s" s t "fst e"] Q key_seq_hq [OF Q(2)] N
    by (auto simp: writes_def tok_inv_def kv.ok_put kv.get_put split: if_splits)
  have R: "kv_ok (ti_tokreg t)" "kv_ok (ti_seen t)"
    using W I by (auto simp: writes_def tok_inv_def kv.ok_put split: if_splits)
  have C: "kv_ok (ti_cred t) \<and> kv_ok (ti_deb t) \<and> below_seq t (ti_cred t) \<and> below_seq t (ti_deb t) \<and>
        cnt_ok (ti_addrtok t) \<and> cnt_ok (ti_tokset t)"
  proof (cases "is_noop (snd e)")
    case True
    then show ?thesis using W I below_seq_mono [of s "ti_cred s" t] below_seq_mono [of s "ti_deb s" t] Q(1)
      by (simp add: writes_def tok_inv_def)
  next
    case False
    then obtain h' q ck dk tb a1 a2 where D: "hq h' q = Some (fst e)"
      "party_key (j_tok (snd e)) (j_rcp (snd e)) h' q = Some ck" "party_key (j_tok (snd e)) (j_adr (snd e)) h' q = Some dk"
      "ti_cred t = kv_put (ti_cred s) ck (j_amt (snd e))" "ti_deb t = kv_put (ti_deb s) dk (j_amt (snd e))"
      "ti_tokset t = incr_count (ti_tokset s) tb 1" "ti_addrtok t = incr_count (incr_count (ti_addrtok s) a1 1) a2 1"
      using W unfolding writes_def by auto
    have "q = seq_of t" using hq_SomeD(2) [OF D(1)] hq_SomeD(2) [OF Q(2)] by simp
    then have "key_seq ck = nat (seq_of t)" "key_seq dk = nat (seq_of t)"
      using key_seq_party [OF D(2)] key_seq_party [OF D(3)] by simp_all
    then show ?thesis
      using I Q(1) N below_seq_put [of "ti_cred s" s t ck] below_seq_put [of "ti_deb s" s t dk]
      by (simp add: tok_inv_def D kv.ok_put cnt_ok_incr)
  qed
  show ?thesis using J R C Q N by (simp add: tok_inv_def)
qed

section \<open>Rollback\<close>

definition recent :: "bytes \<Rightarrow> token_index \<Rightarrow> (bytes \<times> jop) list" where
  "recent fl s = filter (\<lambda>e. fl \<le> fst e) (ti_journal s)"

definition extends :: "bytes \<Rightarrow> token_index \<Rightarrow> token_index \<Rightarrow> bool" where
  "extends fl s0 s \<longleftrightarrow> tok_inv s \<and> ext_by (recent fl s) s0 s"

lemma kv_put_mset: "kv_get db k = None \<Longrightarrow> mset (kv_put db k v) = add_mset (k, v) (mset db)"
  by (induction db k v rule: kv_put.induct) (auto simp: kv_get_def split: if_splits)

lemma recent_kv_range: "tok_inv s \<Longrightarrow> kv_range (ti_journal s) (Some fl) None False = recent fl s"
  by (simp add: tok_inv_def kv_range_eq_filter in_range_def recent_def)

lemma extends_refl: "tok_inv s \<Longrightarrow> recent fl s = [] \<Longrightarrow> extends fl s s"
  by (simp add: extends_def ext_by_def tok_inv_def off_refl cnt_off_def)

lemma extends_step:
  assumes "extends fl s0 s" and "tok_step e h s t" and "hbe f = Some fl" and "f \<le> h"
  shows "extends fl s0 t"
proof -
  have W: "writes e s t" and K: "hq h (seq_of t) = Some (fst e)" using assms(2) unfolding tok_step_def by blast+
  have "ext_by (e # recent fl s) s0 t" using writes_ext [OF _ W] assms(1) by (simp add: extends_def)
  moreover have "mset (e # recent fl s) = mset (recent fl t)"
    using W floor_le_hq [OF assms(3) K] assms(4)
    by (auto simp: recent_def writes_def kv_put_mset)
  ultimately show ?thesis
    using ext_by_mset tok_step_inv [OF _ assms(2)] assms(1) by (auto simp: extends_def)
qed

definition same_tokens :: "token_index \<Rightarrow> token_index \<Rightarrow> bool" where
  "same_tokens s t \<longleftrightarrow> ti_tokreg t = ti_tokreg s \<and> ti_seen t = ti_seen s \<and> ti_cred t = ti_cred s \<and> ti_deb t = ti_deb s \<and>
     ti_addrtok t = ti_addrtok s \<and> ti_tokset t = ti_tokset s \<and> ti_journal t = ti_journal s"

lemma rollback_restores:
  assumes E: "extends fl s0 s" and F: "hbe f = Some fl"
  obtains s' where "tokens_rollback f s = Some s'" and "same_tokens s0 s'" and "same_aliases s s'"
    and "seq_of s' = seq_of s" and "token_anchor s' = max 0 (f - 1)" and "kv_ok (ti_meta s')"
proof -
  have I: "tok_inv s" using E by (simp add: extends_def)
  have "\<forall>e \<in> set (recent fl s). entry_ok e"
    using I kv_get_eq_Some [of "ti_journal s"] by (auto simp: recent_def tok_inv_def)
  then obtain s1 where S: "foldM_opt undo_token_op (recent fl s) s = Some s1" "ext_by [] s0 s1"
    "ti_meta s1 = ti_meta s" "same_aliases s s1"
    using undo_all [of "recent fl s" s0 s] E unfolding extends_def by blast
  let ?s = "s1\<lparr>ti_meta := kv_put (ti_meta s1) (blit ''tok_anchor'') (max 0 (f - 1))\<rparr>"
  have "tokens_rollback f s = Some ?s" by (simp add: tokens_rollback_def F recent_kv_range [OF I] S(1))
  moreover have "same_tokens s0 ?s" using ext_by_Nil [OF S(2)] by (simp add: same_tokens_def)
  moreover have "kv_ok (ti_meta s1)" using I S(3) by (simp add: tok_inv_def)
  ultimately show ?thesis
    using that [of ?s] S(3,4) meta_keys(1)
    by (simp add: same_aliases_def seq_of_def token_anchor_def get_int_def kv.get_put kv.ok_put)
qed

end
