(* ===== verification/AliasIndex.thy ===== *)
theory AliasIndex
  imports TokenRollback
begin

text \<open>
  The alias half of \<^verbatim>\<open>src/token_index.py\<close>: registration, transfer and release of names, the reads, and
  the rollback, which undoes the journal newest first.  The forward map is proved to be restored exactly by a
  rollback over any sequence of operations in block order.
\<close>

definition has_alias :: "token_index \<Rightarrow> pystr \<Rightarrow> bool option" where
  "has_alias s name = map_option (\<lambda>k. kv_get (ti_alias_fwd s) k \<noteq> None) (name_key name)"

definition alias_owner :: "token_index \<Rightarrow> pystr \<Rightarrow> pystr option option" where
  "alias_owner s name = map_option (\<lambda>k. map_option fst (kv_get (ti_alias_fwd s) k)) (name_key name)"

abbreviation (input) bump_alias :: "int \<Rightarrow> token_index \<Rightarrow> token_index" where
  "bump_alias \<equiv> bump_anchor (blit ''alias_anchor'')"

definition register_alias :: "int \<Rightarrow> pystr \<Rightarrow> pystr \<Rightarrow> token_index \<Rightarrow> (bool \<times> token_index) option" where
  "register_alias height address name s = do {
     ab \<leftarrow> name_key name;
     if kv_get (ti_alias_fwd s) ab \<noteq> None then Some (False, bump_alias height s)
     else do {
       let (seq, s1) = next_seq s;
       rk \<leftarrow> rev_key address height ab;
       jk \<leftarrow> hq height seq;
       Some (True, bump_alias height
         (s1\<lparr>ti_alias_fwd := kv_put (ti_alias_fwd s1) ab (address, height),
             ti_alias_rev := kv_put (ti_alias_rev s1) rk (),
             ti_ajournal := kv_put (ti_ajournal s1) jk (ARegister name address)\<rparr>)) } }"

definition transfer_alias :: "int \<Rightarrow> pystr \<Rightarrow> pystr \<Rightarrow> pystr \<Rightarrow> token_index \<Rightarrow> (bool \<times> token_index) option" where
  "transfer_alias height sender recipient name s = do {
     ab \<leftarrow> name_key name;
     case kv_get (ti_alias_fwd s) ab of
       None \<Rightarrow> Some (False, bump_alias height s)
     | Some (owner, prev_h) \<Rightarrow>
         if owner \<noteq> sender then Some (False, bump_alias height s)
         else do {
           let (seq, s1) = next_seq s;
           ok \<leftarrow> rev_key sender prev_h ab;
           rk \<leftarrow> rev_key recipient height ab;
           jk \<leftarrow> hq height seq;
           Some (True, bump_alias height
             (s1\<lparr>ti_alias_fwd := kv_put (ti_alias_fwd s1) ab (recipient, height),
                 ti_alias_rev := kv_put (kv_delete (ti_alias_rev s1) ok) rk (),
                 ti_ajournal := kv_put (ti_ajournal s1) jk (ATransfer name recipient sender prev_h)\<rparr>)) } }"

definition free_alias :: "int \<Rightarrow> pystr \<Rightarrow> pystr \<Rightarrow> token_index \<Rightarrow> (bool \<times> token_index) option" where
  "free_alias height sender name s = do {
     ab \<leftarrow> name_key name;
     case kv_get (ti_alias_fwd s) ab of
       None \<Rightarrow> Some (False, bump_alias height s)
     | Some (owner, prev_h) \<Rightarrow>
         if owner \<noteq> sender then Some (False, bump_alias height s)
         else do {
           let (seq, s1) = next_seq s;
           ok \<leftarrow> rev_key sender prev_h ab;
           jk \<leftarrow> hq height seq;
           Some (True, bump_alias height
             (s1\<lparr>ti_alias_fwd := kv_delete (ti_alias_fwd s1) ab,
                 ti_alias_rev := kv_delete (ti_alias_rev s1) ok,
                 ti_ajournal := kv_put (ti_ajournal s1) jk (AFree name sender prev_h)\<rparr>)) } }"

section \<open>Reads\<close>

definition addfromalias :: "token_index \<Rightarrow> pystr \<Rightarrow> pystr option" where
  "addfromalias s name = map_option (\<lambda>w. case w of None \<Rightarrow> lit ''No alias'' | Some a \<Rightarrow> a) (alias_owner s name)"

definition aliases_for :: "token_index \<Rightarrow> pystr \<Rightarrow> pystr list option" where
  "aliases_for s address = do {
     a \<leftarrow> utf8_encode address;
     let p = a @ [0];
     mapM_opt (\<lambda>(k, v). utf8_decode (drop (length p + 9) k)) (kv_iterate (ti_alias_rev s) p) }"

definition aliasget :: "token_index \<Rightarrow> pystr \<Rightarrow> pystr list option" where
  "aliasget s address = map_option (\<lambda>as. if as = [] then [address] else as) (aliases_for s address)"

definition aliasesget :: "token_index \<Rightarrow> pystr list \<Rightarrow> pystr list option" where
  "aliasesget s addresses =
     mapM_opt (\<lambda>address. map_option (\<lambda>as. case as of [] \<Rightarrow> address | a # _ \<Rightarrow> a) (aliases_for s address)) addresses"

section \<open>Rollback\<close>

definition undo_alias_op :: "bytes \<times> aop \<Rightarrow> token_index \<Rightarrow> token_index option" where
  "undo_alias_op e s = do {
     (h, q) \<leftarrow> unpack_hq (fst e);
     ab \<leftarrow> name_key (a_alias (snd e));
     s1 \<leftarrow> (case snd e of
        ARegister name address \<Rightarrow> do {
          rk \<leftarrow> rev_key address h ab;
          let fwd = (case kv_get (ti_alias_fwd s) ab of
                       Some (a, h') \<Rightarrow> if h' = h then kv_delete (ti_alias_fwd s) ab else ti_alias_fwd s
                     | None \<Rightarrow> ti_alias_fwd s);
          Some (s\<lparr>ti_alias_fwd := fwd, ti_alias_rev := kv_delete (ti_alias_rev s) rk\<rparr>) }
      | ATransfer name new_owner prev prev_h \<Rightarrow> do {
          rk \<leftarrow> rev_key new_owner h ab;
          pk \<leftarrow> rev_key prev prev_h ab;
          Some (s\<lparr>ti_alias_rev := kv_put (kv_delete (ti_alias_rev s) rk) pk (),
                  ti_alias_fwd := kv_put (ti_alias_fwd s) ab (prev, prev_h)\<rparr>) }
      | AFree name prev prev_h \<Rightarrow> do {
          pk \<leftarrow> rev_key prev prev_h ab;
          Some (s\<lparr>ti_alias_fwd := kv_put (ti_alias_fwd s) ab (prev, prev_h),
                  ti_alias_rev := kv_put (ti_alias_rev s) pk ()\<rparr>) });
     Some (s1\<lparr>ti_ajournal := kv_delete (ti_ajournal s1) (fst e)\<rparr>) }"

definition aliases_rollback :: "int \<Rightarrow> token_index \<Rightarrow> token_index option" where
  "aliases_rollback height s = do {
     fl \<leftarrow> hbe height;
     s1 \<leftarrow> foldM_opt undo_alias_op (rev (kv_range (ti_ajournal s) (Some fl) None False)) s;
     Some (s1\<lparr>ti_meta := kv_put (ti_meta s1) (blit ''alias_anchor'') (max 0 (height - 1))\<rparr>) }"

section \<open>Rollback restores ownership\<close>

definition alias_inv :: "token_index \<Rightarrow> bool" where
  "alias_inv s \<longleftrightarrow> kv_ok (ti_meta s) \<and> kv_ok (ti_alias_fwd s) \<and> kv_ok (ti_ajournal s) \<and> 0 \<le> seq_of s \<and>
     below_seq s (ti_ajournal s)"

text \<open>One recorded operation: a fresh journal entry whose undoing restores the forward map.\<close>

definition alias_step :: "int \<Rightarrow> bytes \<times> aop \<Rightarrow> token_index \<Rightarrow> token_index \<Rightarrow> bool" where
  "alias_step h e s t \<longleftrightarrow> hq h (seq_of t) = Some (fst e) \<and> seq_of t = seq_of s + 1 \<and> alias_inv t \<and>
     kv_get (ti_ajournal s) (fst e) = None \<and> ti_ajournal t = kv_put (ti_ajournal s) (fst e) (snd e) \<and>
     same_tokens s t \<and>
     (\<forall>u. ti_alias_fwd u = ti_alias_fwd t \<longrightarrow>
        (\<exists>v. undo_alias_op e u = Some v \<and> ti_alias_fwd v = ti_alias_fwd s \<and>
             ti_ajournal v = kv_delete (ti_ajournal u) (fst e) \<and> ti_meta v = ti_meta u \<and> same_tokens u v))"

lemma alias_stepI:
  assumes I: "alias_inv s" and Q: "next_seq s = (q, s1)" and J: "hq h q = Some jk" and F: "kv_ok fwd"
    and t: "t = bump_alias h (s1\<lparr>ti_alias_fwd := fwd, ti_alias_rev := rv, ti_ajournal := kv_put (ti_ajournal s1) jk a\<rparr>)"
    and U: "\<And>u. ti_alias_fwd u = fwd \<Longrightarrow>
        \<exists>v. undo_alias_op (jk, a) u = Some v \<and> ti_alias_fwd v = ti_alias_fwd s \<and>
            ti_ajournal v = kv_delete (ti_ajournal u) jk \<and> ti_meta v = ti_meta u \<and> same_tokens u v"
  shows "alias_step h (jk, a) s t"
proof -
  note Q' = next_seq_simps [OF Q]
  have M: "kv_ok (ti_meta s1)" "seq_of s1 = seq_of s + 1"
    using I Q' by (simp_all add: alias_inv_def kv.ok_put seq_of_def get_int_def kv.get_put)
  have S: "seq_of t = seq_of s + 1" "kv_ok (ti_meta t)"
    using M bump_anchor_meta [where k = "blit ''alias_anchor''" and h = h, of
        "s1\<lparr>ti_alias_fwd := fwd, ti_alias_rev := rv, ti_ajournal := kv_put (ti_ajournal s1) jk a\<rparr>"]
    by (simp_all add: t seq_of_def)
  have K: "key_seq jk = nat (seq_of s + 1)" using key_seq_hq [OF J] Q'(1) by simp
  have Fr: "kv_get (ti_ajournal s) jk = None" using I fresh_key [of s "ti_ajournal s" jk] K by (simp add: alias_inv_def)
  have T: "ti_ajournal t = kv_put (ti_ajournal s) jk a" "ti_alias_fwd t = fwd" "same_tokens s t"
    by (simp_all add: t Q'(2) same_tokens_def)
  have "alias_inv t"
    using I S T F K below_seq_put [of "ti_ajournal s" s t jk a] by (simp add: alias_inv_def kv.ok_put)
  then show ?thesis using S T U Fr J Q'(1) by (simp add: alias_step_def)
qed

lemma pair_option: "(\<forall>a b. x \<noteq> Some (a, b)) \<longleftrightarrow> x = None"
  by (cases x) auto

lemma register_alias_step:
  assumes I: "alias_inv s" and R: "register_alias h address name s = Some (True, t)"
  shows "\<exists>e. alias_step h e s t"
proof -
  obtain q s1 where Q: "next_seq s = (q, s1)" by fastforce
  note Q' = next_seq_simps [OF Q]
  obtain ab rk jk where D: "name_key name = Some ab" "kv_get (ti_alias_fwd s) ab = None" "rev_key address h ab = Some rk"
    "hq h q = Some jk" "t = bump_alias h (s1\<lparr>ti_alias_fwd := kv_put (ti_alias_fwd s1) ab (address, h),
       ti_alias_rev := kv_put (ti_alias_rev s1) rk (), ti_ajournal := kv_put (ti_ajournal s1) jk (ARegister name address)\<rparr>)"
    using R by (auto simp: register_alias_def Q pair_option elim!: bind_SomeE split: if_splits)
  have "alias_step h (jk, ARegister name address) s t"
  proof (rule alias_stepI [OF I Q D(4) _ D(5)])
    show "kv_ok (kv_put (ti_alias_fwd s1) ab (address, h))" using I Q'(2) by (simp add: alias_inv_def kv.ok_put)
    fix u :: token_index assume "ti_alias_fwd u = kv_put (ti_alias_fwd s1) ab (address, h)"
    then show "\<exists>v. undo_alias_op (jk, ARegister name address) u = Some v \<and> ti_alias_fwd v = ti_alias_fwd s \<and>
        ti_ajournal v = kv_delete (ti_ajournal u) jk \<and> ti_meta v = ti_meta u \<and> same_tokens u v"
      using D I Q'(2) hq_SomeD(2) [OF D(4)]
      by (simp add: undo_alias_op_def alias_inv_def kv.get_put kv.del_put_fresh same_tokens_def)
  qed
  then show ?thesis by blast
qed

lemma transfer_alias_step:
  assumes I: "alias_inv s" and R: "transfer_alias h sender recipient name s = Some (True, t)"
  shows "\<exists>e. alias_step h e s t"
proof -
  obtain q s1 where Q: "next_seq s = (q, s1)" by fastforce
  note Q' = next_seq_simps [OF Q]
  obtain ab ph rk ok jk where D: "name_key name = Some ab" "kv_get (ti_alias_fwd s) ab = Some (sender, ph)"
    "rev_key sender ph ab = Some ok" "rev_key recipient h ab = Some rk" "hq h q = Some jk"
    "t = bump_alias h (s1\<lparr>ti_alias_fwd := kv_put (ti_alias_fwd s1) ab (recipient, h),
       ti_alias_rev := kv_put (kv_delete (ti_alias_rev s1) ok) rk (),
       ti_ajournal := kv_put (ti_ajournal s1) jk (ATransfer name recipient sender ph)\<rparr>)"
    using R by (auto simp: transfer_alias_def Q elim!: bind_SomeE split: if_splits option.splits)
  have "alias_step h (jk, ATransfer name recipient sender ph) s t"
  proof (rule alias_stepI [OF I Q D(5) _ D(6)])
    show "kv_ok (kv_put (ti_alias_fwd s1) ab (recipient, h))" using I Q'(2) by (simp add: alias_inv_def kv.ok_put)
    fix u :: token_index assume "ti_alias_fwd u = kv_put (ti_alias_fwd s1) ab (recipient, h)"
    then show "\<exists>v. undo_alias_op (jk, ATransfer name recipient sender ph) u = Some v \<and> ti_alias_fwd v = ti_alias_fwd s \<and>
        ti_ajournal v = kv_delete (ti_ajournal u) jk \<and> ti_meta v = ti_meta u \<and> same_tokens u v"
      using D I Q'(2) hq_SomeD(2) [OF D(5)]
      by (simp add: undo_alias_op_def alias_inv_def kv.put_restore same_tokens_def)
  qed
  then show ?thesis by blast
qed

lemma free_alias_step:
  assumes I: "alias_inv s" and R: "free_alias h sender name s = Some (True, t)"
  shows "\<exists>e. alias_step h e s t"
proof -
  obtain q s1 where Q: "next_seq s = (q, s1)" by fastforce
  note Q' = next_seq_simps [OF Q]
  obtain ab ph ok jk where D: "name_key name = Some ab" "kv_get (ti_alias_fwd s) ab = Some (sender, ph)"
    "rev_key sender ph ab = Some ok" "hq h q = Some jk"
    "t = bump_alias h (s1\<lparr>ti_alias_fwd := kv_delete (ti_alias_fwd s1) ab, ti_alias_rev := kv_delete (ti_alias_rev s1) ok,
       ti_ajournal := kv_put (ti_ajournal s1) jk (AFree name sender ph)\<rparr>)"
    using R by (auto simp: free_alias_def Q elim!: bind_SomeE split: if_splits option.splits)
  have P: "kv_put (kv_delete (ti_alias_fwd s) ab) ab (sender, ph) = ti_alias_fwd s"
    using I D(2) by (intro kv_ext) (auto simp: alias_inv_def kv.ok_put kv.ok_del kv.get_put kv.get_del)
  have "alias_step h (jk, AFree name sender ph) s t"
  proof (rule alias_stepI [OF I Q D(4) _ D(5)])
    show "kv_ok (kv_delete (ti_alias_fwd s1) ab)" using I Q'(2) by (simp add: alias_inv_def kv.ok_del)
    fix u :: token_index assume "ti_alias_fwd u = kv_delete (ti_alias_fwd s1) ab"
    then show "\<exists>v. undo_alias_op (jk, AFree name sender ph) u = Some v \<and> ti_alias_fwd v = ti_alias_fwd s \<and>
        ti_ajournal v = kv_delete (ti_ajournal u) jk \<and> ti_meta v = ti_meta u \<and> same_tokens u v"
      using D I Q'(2) hq_SomeD(2) [OF D(4)] P by (simp add: undo_alias_op_def same_tokens_def)
  qed
  then show ?thesis by blast
qed

definition arecent :: "bytes \<Rightarrow> token_index \<Rightarrow> (bytes \<times> aop) list" where
  "arecent fl s = filter (\<lambda>e. fl \<le> fst e) (ti_ajournal s)"

definition unwinds :: "(bytes \<times> aop) list \<Rightarrow> token_index \<Rightarrow> token_index \<Rightarrow> bool" where
  "unwinds es s0 s \<longleftrightarrow> (\<forall>u. ti_alias_fwd u = ti_alias_fwd s \<longrightarrow>
     (\<exists>v. foldM_opt undo_alias_op (rev es) u = Some v \<and> ti_alias_fwd v = ti_alias_fwd s0 \<and>
          ti_ajournal v = filter (\<lambda>e. fst e \<notin> fst ` set es) (ti_ajournal u) \<and> ti_meta v = ti_meta u \<and> same_tokens u v))"

text \<open>A state is an earlier one plus its recent alias operations, none above height H.\<close>

definition aextends :: "bytes \<Rightarrow> int \<Rightarrow> token_index \<Rightarrow> token_index \<Rightarrow> bool" where
  "aextends fl H s0 s \<longleftrightarrow> alias_inv s \<and> unwinds (arecent fl s) s0 s \<and>
     ti_ajournal s0 = filter (\<lambda>e. \<not> fl \<le> fst e) (ti_ajournal s) \<and>
     (\<forall>k \<in> fst ` set (ti_ajournal s). \<exists>h q. hq h q = Some k \<and> h \<le> H)"

lemma aextends_refl:
  assumes "alias_inv s" and "arecent fl s = []" and "\<forall>k \<in> fst ` set (ti_ajournal s). \<exists>h q. hq h q = Some k \<and> h \<le> H"
  shows "aextends fl H s s"
proof -
  have "filter (\<lambda>e. \<not> fl \<le> fst e) (ti_ajournal s) = ti_ajournal s"
    using assms(2) by (simp add: arecent_def filter_empty_conv)
  then show ?thesis using assms by (simp add: aextends_def unwinds_def same_tokens_def)
qed

lemma same_tokens_trans: "same_tokens s t \<Longrightarrow> same_tokens t u \<Longrightarrow> same_tokens s u"
  by (simp add: same_tokens_def)

lemma hq_less:
  assumes "hq h q = Some a" and "hq h' q' = Some b" and "h \<le> h'" and "q < q'"
  shows "a < b"
proof -
  obtain x y where A: "hbe h = Some x" "hbe q = Some y" "a = x @ y" using assms(1) by (auto simp: hq_def elim!: bind_SomeE)
  obtain x' y' where B: "hbe h' = Some x'" "hbe q' = Some y'" "b = x' @ y'" using assms(2) by (auto simp: hq_def elim!: bind_SomeE)
  note a = hbe_SomeD [OF A(1)] hbe_SomeD [OF A(2)] and b = hbe_SomeD [OF B(1)] hbe_SomeD [OF B(2)]
  show ?thesis
  proof (cases "h = h'")
    case True
    have "y < y'" unfolding a(9) b(9) using a(8,10) b(8,10) assms(4) by (auto simp: be_bytes_less_iff)
    moreover have "x = x'" using True A(1) B(1) by simp
    moreover have "(y :: bytes) < y' \<Longrightarrow> z @ y < z @ y'" for z by (induction z) auto
    ultimately show ?thesis using A(3) B(3) by simp
  next
    case False
    have "x < x'" unfolding a(4) b(4) using a(3,5) b(3,5) assms(3) False by (auto simp: be_bytes_less_iff)
    then show ?thesis using less_append_same_length [of x x' y y'] a(1) b(1) A(3) B(3) by simp
  qed
qed

lemma kv_delete_filter: "filter P (kv_delete db k) = filter (\<lambda>e. fst e \<noteq> k \<and> P e) db"
  by (simp add: kv_delete_def conj_commute)

lemma aextends_step:
  assumes E: "aextends fl H s0 s" and T: "alias_step h e s t" and f: "hbe f = Some fl" "f \<le> h" and "H \<le> h"
  shows "aextends fl h s0 t"
proof -
  have A: "alias_inv s" "alias_inv t" using E T by (simp_all add: aextends_def alias_step_def)
  have K: "hq h (seq_of t) = Some (fst e)" and Q: "seq_of t = seq_of s + 1" using T unfolding alias_step_def by blast+
  have less: "k < fst e" if k: "k \<in> fst ` set (ti_ajournal s)" for k
  proof -
    obtain h' q where h': "hq h' q = Some k" "h' \<le> H" using E k unfolding aextends_def by blast
    have "kv_get (ti_ajournal s) k \<noteq> None" using k by (simp add: kv_get_eq_None)
    then have "int (key_seq k) \<le> seq_of s" using A(1) by (simp add: alias_inv_def below_seq_def)
    then have "q < seq_of t" using key_seq_hq [OF h'(1)] hq_SomeD(3) [OF h'(1)] Q by simp
    then show ?thesis using hq_less [OF h'(1) K] h'(2) assms(5) by simp
  qed
  have J: "ti_ajournal t = ti_ajournal s @ [e]"
    using T kv_put_last [of "ti_ajournal s" "fst e" "snd e"] less by (simp add: alias_step_def)
  have fl: "fl \<le> fst e" using floor_le_hq [OF f(1) K] f(2) by simp
  have R: "arecent fl t = arecent fl s @ [e]" using J fl by (simp add: arecent_def)
  have "unwinds (arecent fl t) s0 t"
    unfolding unwinds_def
  proof (intro allI impI)
    fix u :: token_index assume "ti_alias_fwd u = ti_alias_fwd t"
    then obtain w where w: "undo_alias_op e u = Some w" "ti_alias_fwd w = ti_alias_fwd s"
      "ti_ajournal w = kv_delete (ti_ajournal u) (fst e)" "ti_meta w = ti_meta u" "same_tokens u w"
      using T unfolding alias_step_def by blast
    then obtain v where v: "foldM_opt undo_alias_op (rev (arecent fl s)) w = Some v" "ti_alias_fwd v = ti_alias_fwd s0"
      "ti_ajournal v = filter (\<lambda>e. fst e \<notin> fst ` set (arecent fl s)) (ti_ajournal w)" "ti_meta v = ti_meta w" "same_tokens w v"
      using E unfolding aextends_def unwinds_def by blast
    have "ti_ajournal v = filter (\<lambda>x. fst x \<notin> fst ` set (arecent fl t)) (ti_ajournal u)"
      unfolding v(3) w(3) kv_delete_filter R by (rule filter_cong) auto
    then show "\<exists>v. foldM_opt undo_alias_op (rev (arecent fl t)) u = Some v \<and> ti_alias_fwd v = ti_alias_fwd s0 \<and>
        ti_ajournal v = filter (\<lambda>e. fst e \<notin> fst ` set (arecent fl t)) (ti_ajournal u) \<and> ti_meta v = ti_meta u \<and> same_tokens u v"
      using w v same_tokens_trans [OF w(5) v(5)] by (simp add: R)
  qed
  moreover have "ti_ajournal s0 = filter (\<lambda>e. \<not> fl \<le> fst e) (ti_ajournal t)" using E J fl by (simp add: aextends_def)
  moreover have "\<forall>k \<in> fst ` set (ti_ajournal t). \<exists>h' q. hq h' q = Some k \<and> h' \<le> h"
    using E K assms(5) J unfolding aextends_def by (fastforce intro: order_trans)
  ultimately show ?thesis using A(2) by (simp add: aextends_def)
qed

lemma aextends_quiet:
  assumes "aextends fl H s0 s" and "same_aliases s t" and "seq_of s \<le> seq_of t" and "kv_ok (ti_meta t)" and "H \<le> H'"
  shows "aextends fl H' s0 t"
proof -
  have "below_seq t (ti_ajournal s)"
    using assms(1,3) below_seq_mono [of s "ti_ajournal s" t] by (simp add: aextends_def alias_inv_def)
  then show ?thesis
    using assms unfolding aextends_def alias_inv_def arecent_def unwinds_def same_aliases_def by (simp, meson order_trans)
qed

lemma alias_rollback_restores:
  assumes E: "aextends fl H s0 s" and F: "hbe f = Some fl"
  obtains s' where "aliases_rollback f s = Some s'" and "ti_alias_fwd s' = ti_alias_fwd s0" and "ti_ajournal s' = ti_ajournal s0"
    and "same_tokens s s'" and "alias_anchor s' = max 0 (f - 1)" and "token_anchor s' = token_anchor s"
proof -
  have I: "alias_inv s" using E by (simp add: aextends_def)
  have R: "kv_range (ti_ajournal s) (Some fl) None False = arecent fl s"
    using I by (simp add: alias_inv_def kv_range_eq_filter in_range_def arecent_def)
  obtain v where v: "foldM_opt undo_alias_op (rev (arecent fl s)) s = Some v" "ti_alias_fwd v = ti_alias_fwd s0"
    "ti_ajournal v = filter (\<lambda>e. fst e \<notin> fst ` set (arecent fl s)) (ti_ajournal s)" "ti_meta v = ti_meta s" "same_tokens s v"
    using E unfolding aextends_def unwinds_def by blast
  have "ti_ajournal v = ti_ajournal s0"
    using E v(3) by (auto simp: aextends_def arecent_def intro!: filter_cong)
  then show ?thesis
    using that [of "v\<lparr>ti_meta := kv_put (ti_meta v) (blit ''alias_anchor'') (max 0 (f - 1))\<rparr>"] v I
    by (simp add: aliases_rollback_def F R same_tokens_def alias_anchor_def token_anchor_def get_int_def kv.get_put
        alias_inv_def)
qed

end
