(* ===== verification/TokensAliases.thy ===== *)
theory TokensAliases
  imports AliasIndex Decimals
begin

text \<open>
  The plugin \<^verbatim>\<open>src/plugins/tokens_aliases\<close> that projects committed blocks onto the index: parsing of the
  token and alias operations, the overspend rule, the catch-up scan, and the queries.  Every per-transaction
  handler swallows exceptions, so an exception leaves the index unchanged.  Lower-casing outside
  ASCII (Unicode tables) and the hash of a transaction without signature are arguments.
\<close>

record ptx =
  x_ts :: pystr
  x_addr :: pystr
  x_recip :: pystr
  x_sig :: pystr
  x_reward :: pyval
  x_op :: pystr
  x_openfield :: pystr

record plugin_ext =
  pe_lower :: "pystr \<Rightarrow> pystr"                                  \<comment> \<open>\<open>str.lower\<close> on non-ASCII text\<close>
  pe_txid :: "int \<Rightarrow> ptx \<Rightarrow> pystr"                               \<comment> \<open>hash of the row\<close>

definition ascii_lower :: "nat \<Rightarrow> nat" where
  "ascii_lower c = (if 65 \<le> c \<and> c \<le> 90 then c + 32 else c)"

definition py_lower :: "plugin_ext \<Rightarrow> pystr \<Rightarrow> pystr" where
  "py_lower x s = (if list_all (\<lambda>c. c < 128) s then map ascii_lower s else pe_lower x s)"

text \<open>\<^verbatim>\<open>float(text) == 0\<close>: the magnitude is at most half the least double.\<close>

definition dec_float_zero :: "decimal \<Rightarrow> bool" where
  "dec_float_zero d = (case d of
     Fin neg c e \<Rightarrow> (of_nat c :: rat) * (if 0 \<le> e then 10 ^ nat e else inverse (10 ^ nat (- e))) \<le> inverse (2 ^ 1075)
   | _ \<Rightarrow> False)"

definition reward_is_zero :: "pyval \<Rightarrow> bool" where
  "reward_is_zero r = (case r of
     PNone \<Rightarrow> True
   | PBool b \<Rightarrow> \<not> b
   | PInt n \<Rightarrow> n = 0
   | PFloat q \<Rightarrow> q = 0
   | PStr s \<Rightarrow> s = [] \<or> (case dec_parse s of None \<Rightarrow> False | Some d \<Rightarrow> dec_float_zero d)
   | PDec d \<Rightarrow> dec_float_zero d)"

section \<open>Handlers\<close>

definition keep :: "(bool \<times> token_index) option \<Rightarrow> token_index \<Rightarrow> token_index" where
  "keep r s = (case r of None \<Rightarrow> s | Some (b, t) \<Rightarrow> t)"

definition issue_tx :: "plugin_ext \<Rightarrow> int \<Rightarrow> ptx \<Rightarrow> token_index \<Rightarrow> token_index" where
  "issue_tx x height tx s =
     (let parts = py_split 58 (x_openfield tx); token = py_strip (py_lower x (parts ! 0)) in
      if has_token s token \<noteq> Some False then s
      else if length parts < 2 then s
      else keep (register_issue height (x_ts tx) token (x_recip tx) (take 56 (x_sig tx)) (parts ! 1) s) s)"

definition transfer_txid :: "plugin_ext \<Rightarrow> int \<Rightarrow> ptx \<Rightarrow> pystr" where
  "transfer_txid x height tx =
     (let txid = take 56 (x_sig tx) in if txid = lit ''0'' then pe_txid x height tx else txid)"

definition transfer_amount :: "ptx \<Rightarrow> int" where
  "transfer_amount tx =
     (let parts = py_split 58 (x_openfield tx) in
      if length parts < 2 then 0 else case py_int (parts ! 1) of None \<Rightarrow> 0 | Some n \<Rightarrow> n)"

definition spendable :: "token_index \<Rightarrow> pystr \<Rightarrow> pystr \<Rightarrow> int \<Rightarrow> int option" where
  "spendable s token sender h = do { c \<leftarrow> token_credit s token sender h; d \<leftarrow> token_debit s token sender h; Some (c - d) }"

definition transfer_tx :: "plugin_ext \<Rightarrow> int \<Rightarrow> ptx \<Rightarrow> token_index \<Rightarrow> token_index" where
  "transfer_tx x height tx s =
     (let h = \<bar>height\<bar>; token = py_split 58 (x_openfield tx) ! 0; txid = transfer_txid x height tx;
          amount = transfer_amount tx in
      if has_txid s txid \<noteq> Some False then s
      else case spendable s token (x_addr tx) h of
        None \<Rightarrow> s
      | Some balance \<Rightarrow>
          if 0 \<le> balance - amount \<and> 0 < amount
          then keep (apply_transfer h (x_ts tx) token (x_addr tx) (x_recip tx) txid amount s) s
          else keep (mark_noop h txid s) s)"

definition legacy_alias_tx :: "int \<Rightarrow> ptx \<Rightarrow> token_index \<Rightarrow> token_index" where
  "legacy_alias_tx height tx s =
     (let o_f = x_openfield tx; name = (if prefix (lit ''alias='') o_f then drop 6 o_f else o_f)
      in keep (register_alias height (x_addr tx) name s) s)"

definition alias_register_tx :: "int \<Rightarrow> ptx \<Rightarrow> token_index \<Rightarrow> token_index" where
  "alias_register_tx height tx s =
     (let name = py_strip (x_openfield tx) in
      if name = [] then s else keep (register_alias height (x_addr tx) name s) s)"

definition split1 :: "pystr \<Rightarrow> (pystr \<times> pystr) option" where
  "split1 s = (if 58 \<in> set s then Some (takeWhile (\<lambda>c. c \<noteq> 58) s, tl (dropWhile (\<lambda>c. c \<noteq> 58) s)) else None)"

definition alias_transfer_tx :: "int \<Rightarrow> ptx \<Rightarrow> token_index \<Rightarrow> token_index" where
  "alias_transfer_tx height tx s =
     (case split1 (x_openfield tx) of
        None \<Rightarrow> s
      | Some (r, a) \<Rightarrow>
          let recipient = py_strip r; name = py_strip a in
          if recipient = [] \<or> name = [] then s
          else if recipient = x_addr tx then s
          else keep (transfer_alias height (x_addr tx) recipient name s) s)"

definition alias_free_tx :: "int \<Rightarrow> ptx \<Rightarrow> token_index \<Rightarrow> token_index" where
  "alias_free_tx height tx s =
     (let name = py_strip (x_openfield tx) in
      if name = [] then s else keep (free_alias height (x_addr tx) name s) s)"

section \<open>Blocks\<close>

definition second_pass_tx :: "plugin_ext \<Rightarrow> int \<Rightarrow> ptx \<Rightarrow> token_index \<Rightarrow> token_index" where
  "second_pass_tx x height tx s =
     (if \<not> reward_is_zero (x_reward tx) then s
      else if x_op tx = lit ''token:transfer'' then transfer_tx x height tx s
      else if x_op tx = lit ''alias:register'' then alias_register_tx height tx s
      else if x_op tx = lit ''alias:transfer'' then alias_transfer_tx height tx s
      else if x_op tx = lit ''alias:free'' then alias_free_tx height tx s
      else if prefix (lit ''alias='') (x_openfield tx) then legacy_alias_tx height tx s
      else s)"

definition first_pass_tx :: "plugin_ext \<Rightarrow> int \<Rightarrow> ptx \<Rightarrow> token_index \<Rightarrow> token_index" where
  "first_pass_tx x height tx s =
     (if x_op tx = lit ''token:issue'' \<and> reward_is_zero (x_reward tx) then issue_tx x height tx s else s)"

definition on_block :: "plugin_ext \<Rightarrow> int \<Rightarrow> ptx list \<Rightarrow> token_index \<Rightarrow> token_index" where
  "on_block x height txs s = fold (second_pass_tx x height) txs (fold (first_pass_tx x height) txs s)"

section \<open>The catch-up scan\<close>

definition scan_ledger_operations :: "int \<Rightarrow> pystr list \<Rightarrow> pystr \<Rightarrow> (int \<times> ptx) list \<Rightarrow> (int \<times> ptx) list" where
  "scan_ledger_operations from_height operations openfield_prefix rows =
     filter (\<lambda>(h, tx). max 0 from_height \<le> h \<and> reward_is_zero (x_reward tx) \<and>
               (x_op tx \<in> set operations \<or> prefix openfield_prefix (x_openfield tx))) rows"

definition alias_op_names :: "pystr list" where
  "alias_op_names = [lit ''alias:register'', lit ''alias:transfer'', lit ''alias:free'']"

definition alias_op_tx :: "int \<Rightarrow> ptx \<Rightarrow> token_index \<Rightarrow> token_index" where
  "alias_op_tx height tx s =
     (if x_op tx = lit ''alias:register'' then alias_register_tx height tx s
      else if x_op tx = lit ''alias:transfer'' then alias_transfer_tx height tx s
      else if x_op tx = lit ''alias:free'' then alias_free_tx height tx s
      else s)"

definition backfill :: "plugin_ext \<Rightarrow> (int \<times> ptx) list \<Rightarrow> token_index \<Rightarrow> token_index" where
  "backfill x ledger s =
     (let t_anchor = token_anchor s; a_anchor = alias_anchor s;
          rows = scan_ledger_operations (min t_anchor a_anchor)
                   ([lit ''token:issue'', lit ''token:transfer''] @ alias_op_names) (lit ''alias='') ledger;
          issues = filter (\<lambda>(h, tx). x_op tx = lit ''token:issue'' \<and> t_anchor \<le> h) rows;
          transfers = filter (\<lambda>(h, tx). x_op tx = lit ''token:transfer'' \<and> t_anchor \<le> h) rows;
          alias_ops = filter (\<lambda>(h, tx). x_op tx \<in> set alias_op_names \<and> a_anchor \<le> h) rows;
          legacy = filter (\<lambda>(h, tx). x_op tx \<notin> set ([lit ''token:issue'', lit ''token:transfer''] @ alias_op_names)
                              \<and> a_anchor \<le> h) rows;
          s1 = fold (\<lambda>(h, tx). issue_tx x h tx) issues s;
          s2 = fold (\<lambda>(h, tx). transfer_tx x h tx) transfers s1;
          s3 = fold (\<lambda>(h, tx). legacy_alias_tx h tx) legacy s2
      in fold (\<lambda>(h, tx). alias_op_tx h tx) alias_ops s3)"

section \<open>Queries\<close>

definition cmd_tokensget :: "token_index \<Rightarrow> pystr \<Rightarrow> (pystr \<times> pystr) list option" where
  "cmd_tokensget s address = do {
     tokens \<leftarrow> tokens_user s address;
     mapM_opt (\<lambda>t. map_option (\<lambda>b. (t, int_str b)) (token_balance s t address)) tokens }"

definition rest_tokens :: "token_index \<Rightarrow> (nat \<times> (pystr \<times> int) list) option" where
  "rest_tokens s = map_option (\<lambda>rows. (length rows, rows)) (tokens_list s 500)"

definition query_int :: "pystr option \<Rightarrow> int \<Rightarrow> int" where
  "query_int v dflt =
     (case v of None \<Rightarrow> dflt | Some t \<Rightarrow> if t = [] then dflt else case py_int t of None \<Rightarrow> dflt | Some n \<Rightarrow> n)"

definition rest_token_tx :: "token_index \<Rightarrow> pystr \<Rightarrow> pystr option \<Rightarrow> (nat \<times> int \<times> token_tx list) option" where
  "rest_token_tx s address limit_text =
     (let limit = max 1 (min (query_int limit_text 100) 500)
      in map_option (\<lambda>rows. (length rows, limit, rows)) (token_txs_for_address s address limit))"

definition rest_token ::
  "(pystr set \<Rightarrow> pystr list) \<Rightarrow> token_index \<Rightarrow> pystr \<Rightarrow> pystr option \<Rightarrow> pystr option \<Rightarrow> token_info option option" where
  "rest_token enum s token limit_text offset_text =
     token_detail enum s token (query_int limit_text 200) (query_int offset_text 0)"

section \<open>Every handler is at most one step of the index\<close>

definition quiet :: "token_index \<Rightarrow> token_index \<Rightarrow> bool" where
  "quiet s t \<longleftrightarrow> same_tokens s t \<and> same_aliases s t \<and> seq_of t = seq_of s \<and> kv_ok (ti_meta t)"

definition idx_inv :: "token_index \<Rightarrow> bool" where
  "idx_inv s \<longleftrightarrow> tok_inv s \<and> alias_inv s"

inductive idx_step :: "int \<Rightarrow> token_index \<Rightarrow> token_index \<Rightarrow> bool" for h where
  token: "tok_step e h s t \<Longrightarrow> idx_step h s t"
| name: "alias_step h e s t \<Longrightarrow> idx_step h s t"
| still: "quiet s t \<Longrightarrow> idx_step h s t"

inductive idx_run :: "int \<Rightarrow> token_index \<Rightarrow> token_index \<Rightarrow> bool" for h where
  stop: "idx_run h s s"
| more: "idx_run h s t \<Longrightarrow> idx_step h t u \<Longrightarrow> idx_run h s u"

lemma quiet_refl: "idx_inv s \<Longrightarrow> quiet s s"
  by (simp add: quiet_def idx_inv_def same_tokens_def same_aliases_def tok_inv_def)

lemma tok_inv_same:
  assumes "tok_inv s" and "same_tokens s t" and "seq_of s \<le> seq_of t" and "kv_ok (ti_meta t)"
  shows "tok_inv t"
  using assms below_seq_mono [of s "ti_cred s" t] below_seq_mono [of s "ti_deb s" t]
    below_seq_mono [of s "ti_journal s" t] by (simp add: tok_inv_def same_tokens_def)

lemma alias_inv_same:
  assumes "alias_inv s" and "same_aliases s t" and "seq_of s \<le> seq_of t" and "kv_ok (ti_meta t)"
  shows "alias_inv t"
  using assms below_seq_mono [of s "ti_ajournal s" t] by (simp add: alias_inv_def same_aliases_def)

lemma idx_step_inv: "idx_step h s t \<Longrightarrow> idx_inv s \<Longrightarrow> idx_inv t"
proof (induction rule: idx_step.induct)
  case (token e s t)
  have Q: "seq_of t = seq_of s + 1" "kv_ok (ti_meta t)" "same_aliases s t" using token unfolding tok_step_def by blast+
  have "alias_inv t" by (rule alias_inv_same [OF _ Q(3) _ Q(2)]) (use token(2) Q(1) in \<open>simp_all add: idx_inv_def\<close>)
  then show ?case using tok_step_inv [OF _ token(1)] token(2) by (simp add: idx_inv_def)
next
  case (name e s t)
  have Q: "seq_of t = seq_of s + 1" "alias_inv t" "same_tokens s t" using name unfolding alias_step_def by blast+
  have "tok_inv t" by (rule tok_inv_same [OF _ Q(3)]) (use name(2) Q in \<open>simp_all add: idx_inv_def alias_inv_def\<close>)
  then show ?case using Q by (simp add: idx_inv_def)
next
  case (still s t)
  then have Q: "same_tokens s t" "same_aliases s t" "seq_of s \<le> seq_of t" "kv_ok (ti_meta t)" by (simp_all add: quiet_def)
  show ?case using still(2) tok_inv_same [OF _ Q(1,3,4)] alias_inv_same [OF _ Q(2,3,4)] by (simp add: idx_inv_def)
qed

lemma idx_run_inv: "idx_run h s t \<Longrightarrow> idx_inv s \<Longrightarrow> idx_inv t"
  by (induction rule: idx_run.induct) (auto intro: idx_step_inv)

lemma idx_run_trans: "idx_run h t u \<Longrightarrow> idx_run h s t \<Longrightarrow> idx_run h s u"
  by (induction rule: idx_run.induct) (auto intro: idx_run.intros)

lemma bump_quiet:
  assumes "idx_inv s"
  shows "quiet s (bump_anchor (blit ''alias_anchor'') h s)"
  using assms bump_anchor_meta [of s "blit ''alias_anchor''" h]
  by (simp add: quiet_def same_tokens_def same_aliases_def idx_inv_def tok_inv_def)

lemma keep_None [simp]: "keep None s = s"
  by (simp add: keep_def)

lemma keep_step:
  assumes "idx_inv s" and "\<And>t. r = Some (True, t) \<Longrightarrow> idx_step h s t" and "\<And>t. r = Some (False, t) \<Longrightarrow> quiet s t"
  shows "idx_step h s (keep r s)"
proof (cases r)
  case None
  then show ?thesis using quiet_refl [OF assms(1)] by (simp add: idx_step.still)
next
  case (Some bt)
  then obtain b t where "r = Some (b, t)" by (cases bt) auto
  then show ?thesis using assms(2,3) by (cases b) (auto simp: keep_def intro: idx_step.still)
qed

lemma issue_step: "idx_inv s \<Longrightarrow> idx_step h s (keep (register_issue h ts token issuer txid amt s) s)"
proof (rule keep_step)
  fix t assume I: "idx_inv s" and R: "register_issue h ts token issuer txid amt s = Some (True, t)"
  then show "idx_step h s t" using register_issue_step [OF _ R] by (auto simp: idx_inv_def intro: idx_step.token)
qed (auto simp: register_issue_def Let_def elim!: bind_SomeE split: if_splits prod.splits dest: quiet_refl)

lemma transfer_step: "idx_inv s \<Longrightarrow> idx_step h s (keep (apply_transfer h ts token sender rcp txid amt s) s)"
proof (rule keep_step)
  fix t assume I: "idx_inv s" and R: "apply_transfer h ts token sender rcp txid amt s = Some (True, t)"
  then show "idx_step h s t" using apply_transfer_step [OF _ R] by (auto simp: idx_inv_def intro: idx_step.token)
qed (auto simp: apply_transfer_def Let_def elim!: bind_SomeE split: if_splits prod.splits dest: quiet_refl)

lemma noop_step: "idx_inv s \<Longrightarrow> idx_step h s (keep (mark_noop h txid s) s)"
proof (rule keep_step)
  fix t assume I: "idx_inv s" and R: "mark_noop h txid s = Some (True, t)"
  then show "idx_step h s t" using mark_noop_step [OF _ R] by (auto simp: idx_inv_def intro: idx_step.token)
qed (auto simp: mark_noop_def Let_def elim!: bind_SomeE split: if_splits prod.splits dest: quiet_refl)

lemma register_step: "idx_inv s \<Longrightarrow> idx_step h s (keep (register_alias h address name s) s)"
proof (rule keep_step)
  fix t assume I: "idx_inv s" and R: "register_alias h address name s = Some (True, t)"
  then show "idx_step h s t" using register_alias_step [OF _ R] by (auto simp: idx_inv_def intro: idx_step.name)
qed (auto simp: register_alias_def Let_def elim!: bind_SomeE split: if_splits prod.splits intro: bump_quiet)

lemma alias_transfer_step: "idx_inv s \<Longrightarrow> idx_step h s (keep (transfer_alias h sender rcp name s) s)"
proof (rule keep_step)
  fix t assume I: "idx_inv s" and R: "transfer_alias h sender rcp name s = Some (True, t)"
  then show "idx_step h s t" using transfer_alias_step [OF _ R] by (auto simp: idx_inv_def intro: idx_step.name)
qed (auto simp: transfer_alias_def Let_def elim!: bind_SomeE split: if_splits prod.splits option.splits intro: bump_quiet)

lemma alias_free_step: "idx_inv s \<Longrightarrow> idx_step h s (keep (free_alias h sender name s) s)"
proof (rule keep_step)
  fix t assume I: "idx_inv s" and R: "free_alias h sender name s = Some (True, t)"
  then show "idx_step h s t" using free_alias_step [OF _ R] by (auto simp: idx_inv_def intro: idx_step.name)
qed (auto simp: free_alias_def Let_def elim!: bind_SomeE split: if_splits prod.splits option.splits intro: bump_quiet)

lemmas handler_steps = issue_step transfer_step noop_step register_step alias_transfer_step alias_free_step

lemma skip_step: "idx_inv s \<Longrightarrow> idx_step h s s"
  by (rule idx_step.still) (rule quiet_refl)

lemma first_pass_step: "idx_inv s \<Longrightarrow> idx_step h s (first_pass_tx x h tx s)"
  by (simp add: first_pass_tx_def issue_tx_def Let_def skip_step issue_step)

lemma second_pass_step: "idx_inv s \<Longrightarrow> 0 \<le> h \<Longrightarrow> idx_step h s (second_pass_tx x h tx s)"
  by (simp add: second_pass_tx_def transfer_tx_def alias_register_tx_def alias_transfer_tx_def alias_free_tx_def
      legacy_alias_tx_def Let_def skip_step handler_steps split: option.splits prod.splits)

lemma fold_run:
  assumes "\<And>tx s. idx_inv s \<Longrightarrow> idx_step h s (f tx s)" and "idx_inv s"
  shows "idx_run h s (fold f txs s)"
  using assms(2)
proof (induction txs arbitrary: s)
  case (Cons tx txs)
  have S: "idx_step h s (f tx s)" by (rule assms(1) [OF Cons.prems])
  have "idx_run h (f tx s) (fold f txs (f tx s))" by (rule Cons.IH) (rule idx_step_inv [OF S Cons.prems])
  then show ?case using idx_run_trans [OF _ idx_run.more [OF idx_run.stop S]] by simp
qed (simp add: idx_run.stop)

lemma on_block_run: "idx_inv s \<Longrightarrow> 0 \<le> h \<Longrightarrow> idx_run h s (on_block x h txs s)"
  unfolding on_block_def
  by (rule idx_run_trans) (auto intro: fold_run first_pass_step second_pass_step idx_run_inv [OF fold_run])

section \<open>Reorganisations\<close>

definition project :: "plugin_ext \<Rightarrow> (int \<times> ptx list) list \<Rightarrow> token_index \<Rightarrow> token_index" where
  "project x blocks s = fold (\<lambda>(h, txs). on_block x h txs) blocks s"

lemma project_simps [simp]:
  "project x [] s = s" "project x ((h, txs) # bs) s = project x bs (on_block x h txs s)"
  by (simp_all add: project_def)

definition heights_upto :: "int \<Rightarrow> token_index \<Rightarrow> bool" where
  "heights_upto H s \<longleftrightarrow> (\<forall>k \<in> fst ` set (ti_journal s) \<union> fst ` set (ti_ajournal s). \<exists>h q. hq h q = Some k \<and> h \<le> H)"

lemma heights_upto_mono: "heights_upto H s \<Longrightarrow> H \<le> H' \<Longrightarrow> heights_upto H' s"
  unfolding heights_upto_def by (meson order_trans)

lemma keys_put: "fst ` set (kv_put db k v) \<subseteq> insert k (fst ` set db)"
  using set_kv_put [of db k v] by force

lemma heights_step: "idx_step h s t \<Longrightarrow> heights_upto h s \<Longrightarrow> heights_upto h t"
proof (induction rule: idx_step.induct)
  case (token e s t)
  have D: "ti_journal t = kv_put (ti_journal s) (fst e) (snd e)" "hq h (seq_of t) = Some (fst e)" "ti_ajournal t = ti_ajournal s"
    using token unfolding tok_step_def writes_def same_aliases_def by blast+
  show ?case unfolding heights_upto_def
  proof
    fix k assume "k \<in> fst ` set (ti_journal t) \<union> fst ` set (ti_ajournal t)"
    then have "k = fst e \<or> k \<in> fst ` set (ti_journal s) \<union> fst ` set (ti_ajournal s)"
      using keys_put [of "ti_journal s" "fst e" "snd e"] by (auto simp: D(1,3))
    then show "\<exists>h' q. hq h' q = Some k \<and> h' \<le> h" using D(2) token(2) unfolding heights_upto_def by blast
  qed
next
  case (name e s t)
  have D: "ti_ajournal t = kv_put (ti_ajournal s) (fst e) (snd e)" "hq h (seq_of t) = Some (fst e)" "ti_journal t = ti_journal s"
    using name unfolding alias_step_def same_tokens_def by blast+
  show ?case unfolding heights_upto_def
  proof
    fix k assume "k \<in> fst ` set (ti_journal t) \<union> fst ` set (ti_ajournal t)"
    then have "k = fst e \<or> k \<in> fst ` set (ti_journal s) \<union> fst ` set (ti_ajournal s)"
      using keys_put [of "ti_ajournal s" "fst e" "snd e"] by (auto simp: D(1,3))
    then show "\<exists>h' q. hq h' q = Some k \<and> h' \<le> h" using D(2) name(2) unfolding heights_upto_def by blast
  qed
next
  case (still s t)
  then show ?case by (simp add: heights_upto_def quiet_def same_tokens_def same_aliases_def)
qed

lemma extends_same:
  assumes "extends fl s0 s" and "same_tokens s t" and "tok_inv t"
  shows "extends fl s0 t"
  using assms by (simp add: extends_def ext_by_def recent_def same_tokens_def)

text \<open>Both halves of the index as an extension of an earlier state.\<close>

definition grown :: "int \<Rightarrow> bytes \<Rightarrow> int \<Rightarrow> token_index \<Rightarrow> token_index \<Rightarrow> bool" where
  "grown f fl H s0 s \<longleftrightarrow> idx_inv s \<and> extends fl s0 s \<and> aextends fl H s0 s"

lemma grown_step:
  assumes "idx_step h s t" and "grown f fl H s0 s" and f: "hbe f = Some fl" "f \<le> h" and "H \<le> h"
  shows "grown f fl h s0 t"
  using assms(1)
proof cases
  case (token e)
  have Q: "seq_of s \<le> seq_of t" "kv_ok (ti_meta t)" "same_aliases s t" using token unfolding tok_step_def by auto
  have "extends fl s0 t" using extends_step [OF _ token f] assms(2) by (simp add: grown_def)
  moreover have "aextends fl h s0 t" using aextends_quiet [OF _ Q(3,1,2) assms(5)] assms(2) by (simp add: grown_def)
  ultimately show ?thesis using idx_step_inv [OF assms(1)] assms(2) by (simp add: grown_def)
next
  case (name e)
  have I: "idx_inv t" using idx_step_inv [OF assms(1)] assms(2) by (simp add: grown_def)
  have "same_tokens s t" using name unfolding alias_step_def by blast
  then have "extends fl s0 t" using extends_same assms(2) I by (auto simp: grown_def idx_inv_def)
  then show ?thesis using aextends_step [OF _ name f assms(5)] assms(2) I by (simp add: grown_def)
next
  case still
  have I: "idx_inv t" using idx_step_inv [OF assms(1)] assms(2) by (simp add: grown_def)
  have Q: "same_tokens s t" "same_aliases s t" "seq_of s \<le> seq_of t" "kv_ok (ti_meta t)" using still by (simp_all add: quiet_def)
  show ?thesis using aextends_quiet [OF _ Q(2,3,4) assms(5)] extends_same [OF _ Q(1)] assms(2) I
    by (simp add: grown_def idx_inv_def)
qed

lemma grown_run:
  assumes "idx_run h s t" and "grown f fl H s0 s" and "hbe f = Some fl" and "f \<le> h" and "H \<le> h"
  shows "grown f fl h s0 t"
  using assms
proof (induction rule: idx_run.induct)
  case (stop s)
  then show ?case using aextends_quiet [of fl H s0 s s h]
    by (simp add: grown_def same_aliases_def idx_inv_def tok_inv_def)
next
  case (more s t u)
  then show ?case using grown_step [of h t u f fl h s0] by simp
qed

lemma heights_run: "idx_run h s t \<Longrightarrow> heights_upto h s \<Longrightarrow> heights_upto h t"
  by (induction rule: idx_run.induct) (auto intro: heights_step)

definition block_order :: "int \<Rightarrow> (int \<times> ptx list) list \<Rightarrow> bool" where
  "block_order lo blocks \<longleftrightarrow> sorted (map fst blocks) \<and> (\<forall>h \<in> fst ` set blocks. lo \<le> h)"

lemma block_order_Cons:
  "block_order lo ((h, txs) # bs) \<longleftrightarrow> lo \<le> h \<and> block_order lo bs \<and> block_order h bs"
  by (auto simp: block_order_def)

lemma empty_idx_inv: "idx_inv empty_index" and empty_heights: "heights_upto H empty_index"
  using empty_inv by (auto simp: idx_inv_def alias_inv_def empty_index_def below_seq_def seq_of_def get_int_def heights_upto_def)

lemma project_inv:
  "idx_inv s \<Longrightarrow> heights_upto H s \<Longrightarrow> block_order 0 bs \<Longrightarrow> \<forall>h \<in> fst ` set bs. h \<le> H \<Longrightarrow> block_order lo bs \<Longrightarrow>
     heights_upto lo s \<Longrightarrow> idx_inv (project x bs s) \<and> heights_upto H (project x bs s)"
proof (induction bs arbitrary: s lo)
  case (Cons b bs)
  obtain h txs where b: "b = (h, txs)" by (cases b)
  have O: "0 \<le> h" "lo \<le> h" "block_order 0 bs" "block_order h bs" "h \<le> H"
    using Cons.prems by (auto simp: b block_order_Cons)
  have R: "idx_run h s (on_block x h txs s)" by (rule on_block_run [OF Cons.prems(1) O(1)])
  have "heights_upto h (on_block x h txs s)" using heights_run [OF R] heights_upto_mono [OF Cons.prems(6) O(2)] .
  then show ?case using Cons.IH [of "on_block x h txs s" h] idx_run_inv [OF R Cons.prems(1)] O heights_upto_mono Cons.prems(4)
    by (auto simp: b)
qed simp

lemma project_grown:
  "grown f fl H s0 s \<Longrightarrow> hbe f = Some fl \<Longrightarrow> block_order 0 bs \<Longrightarrow> block_order f bs \<Longrightarrow> block_order H bs \<Longrightarrow>
     \<exists>H'. grown f fl H' s0 (project x bs s)"
proof (induction bs arbitrary: s H)
  case (Cons b bs)
  obtain h txs where b: "b = (h, txs)" by (cases b)
  have O: "0 \<le> h" "f \<le> h" "H \<le> h" "block_order 0 bs" "block_order f bs" "block_order h bs"
    using Cons.prems by (auto simp: b block_order_Cons)
  have R: "idx_run h s (on_block x h txs s)"
    using on_block_run [OF _ O(1)] Cons.prems(1) by (simp add: grown_def)
  have "grown f fl h s0 (on_block x h txs s)" using grown_run [OF R Cons.prems(1,2) O(2,3)] .
  then show ?case using Cons.IH [of h] Cons.prems(2) O by (simp add: b)
qed auto

lemma grown_start:
  assumes "idx_inv s" and "heights_upto H s" and "H < f" and "hbe f = Some fl"
  shows "grown f fl H s s"
proof -
  have L: "\<not> fl \<le> k" if k: "k \<in> fst ` set (ti_journal s) \<union> fst ` set (ti_ajournal s)" for k
  proof -
    obtain h q where "hq h q = Some k" "h \<le> H" using k assms(2) unfolding heights_upto_def by blast
    then show "\<not> fl \<le> k" using floor_le_hq [OF assms(4)] assms(3) by fastforce
  qed
  have "recent fl s = []" "arecent fl s = []" using L by (auto simp: recent_def arecent_def filter_empty_conv)
  moreover have "\<forall>k \<in> fst ` set (ti_ajournal s). \<exists>h q. hq h q = Some k \<and> h \<le> H"
    using assms(2) unfolding heights_upto_def by blast
  ultimately show ?thesis using assms(1) extends_refl aextends_refl by (simp add: grown_def idx_inv_def)
qed


definition wit_plugin :: plugin_ext where
  "wit_plugin = \<lparr>pe_lower = (\<lambda>s. s), pe_txid = (\<lambda>h tx. [])\<rparr>"

definition wit_ptx :: "pystr \<Rightarrow> pystr \<Rightarrow> pystr \<Rightarrow> pystr \<Rightarrow> pystr \<Rightarrow> ptx" where
  "wit_ptx sender rcp sg opn txt =
     \<lparr>x_ts = [], x_addr = sender, x_recip = rcp, x_sig = sg, x_reward = PInt 0, x_op = opn, x_openfield = txt\<rparr>"


lemma apply_transfer_eval:
  assumes "name_key txid = Some xb" "kv_get (ti_seen s) xb = None" "seq_of s + 1 = q"
    "party_key token rcp h q = Some ck" "party_key token sender h q = Some dk" "name_key token = Some tb"
    "hq h q = Some jk" "addrtok_key sender token = Some a1" "addrtok_key rcp token = Some a2"
  shows "\<exists>t. apply_transfer h ts token sender rcp txid amt s = Some (True, t) \<and> ti_tokreg t = ti_tokreg s \<and>
             ti_cred t = kv_put (ti_cred s) ck amt \<and> ti_deb t = kv_put (ti_deb s) dk amt"
proof -
  obtain q' s1 where Q: "next_seq s = (q', s1)" by fastforce
  note Q' = next_seq_simps [OF Q]
  show ?thesis
    using assms by (simp add: apply_transfer_def Q Q' put_rows_def incr_addrtok_def)
qed

section \<open>Names with a zero byte\<close>

definition mallory :: pystr where
  "mallory = lit ''mal''"

definition forged_issue :: token_index where
  "forged_issue = first_pass_tx wit_plugin 6
     (wit_ptx mallory (lit ''m'') (lit ''s2'') (lit ''token:issue'') (lit ''gold'' @ [0] @ mallory @ lit '':-999'')) empty_index"

definition forged_index :: token_index where
  "forged_index = second_pass_tx wit_plugin 6
     (wit_ptx mallory (lit ''eve'') (lit ''s3'') (lit ''token:transfer'') (lit ''gold:999'')) forged_issue"

lemma forged_issue_rows:
  "forged_issue =
   \<lparr>ti_meta = [(blit ''seq'', 1), (blit ''tok_anchor'', 6)],
    ti_tokreg = [(blit ''gold'' @ [0] @ blit ''mal'', \<lparr>te_height = 6, te_ts = [], te_issuer = lit ''m'',
      te_txid = lit ''s2'', te_supply = - 999\<rparr>)],
    ti_seen = [(blit ''s2'', ())],
    ti_cred = [(blit ''gold'' @ [0] @ blit ''mal'' @ [0] @ blit ''m'' @ [0] @ hkey 6 @ hkey 1, - 999)],
    ti_deb = [(blit ''gold'' @ [0] @ blit ''mal'' @ [0] @ blit ''issued'' @ [0] @ hkey 6 @ hkey 1, - 999)],
    ti_addrtok = [(blit ''issued'' @ [0] @ blit ''gold'' @ [0] @ blit ''mal'', 1), (blit ''m'' @ [0] @ blit ''gold'' @ [0] @ blit ''mal'', 1)],
    ti_tokset = [(blit ''gold'' @ [0] @ blit ''mal'', 1)],
    ti_journal = [(hkey 6 @ hkey 1, JIssue (lit ''gold'' @ [0] @ lit ''mal'') (lit ''m'') issued (- 999) (lit ''s2''))],
    ti_alias_fwd = [], ti_alias_rev = [], ti_ajournal = []\<rparr>"
  by code_simp

lemma forged_transfer:
  "\<exists>t. apply_transfer 6 [] (lit ''gold'') mallory (lit ''eve'') (lit ''s3'') 999 forged_issue = Some (True, t) \<and>
     ti_tokreg t = ti_tokreg forged_issue \<and>
     ti_cred t = kv_put (ti_cred forged_issue) (blit ''gold'' @ [0] @ blit ''eve'' @ [0] @ hkey 6 @ hkey 2) 999 \<and>
     ti_deb t = kv_put (ti_deb forged_issue) (blit ''gold'' @ [0] @ blit ''mal'' @ [0] @ hkey 6 @ hkey 2) 999"
proof (rule apply_transfer_eval)
  show "kv_get (ti_seen forged_issue) (blit ''s3'') = None" unfolding forged_issue_rows token_index.simps by code_simp
  show "seq_of forged_issue + 1 = 2" unfolding seq_of_def forged_issue_rows token_index.simps by code_simp
qed code_simp+

text \<open>
  C37: the separator of the row keys is a zero byte, which names may contain, and supplies may be negative.
  By issuing a token called gold, zero byte, own address, with a negative supply, anybody gets negative
  debits of the token gold within that block, and a transfer of gold in the same block is
  accepted: here eve ends up with 999 gold, a token nobody has issued.
\<close>

theorem forged_token_credit:
  "token_debit forged_issue (lit ''gold'') mallory 6 = Some (- 999) \<and>
   has_token forged_index (lit ''gold'') = Some False \<and>
   token_balance forged_index (lit ''gold'') (lit ''eve'') = Some 999"
proof -
  have S: "token_debit forged_issue (lit ''gold'') mallory 6 = Some (- 999)"
    "token_credit forged_issue (lit ''gold'') mallory 6 = Some 0"
    unfolding token_debit_def token_credit_def forged_issue_rows token_index.simps by code_simp+
  have X: "has_txid forged_issue (lit ''s3'') = Some False" unfolding has_txid_def forged_issue_rows token_index.simps by code_simp
  have P: "transfer_txid wit_plugin 6 (wit_ptx mallory (lit ''eve'') (lit ''s3'') (lit ''token:transfer'') (lit ''gold:999'')) = lit ''s3''"
    "transfer_amount (wit_ptx mallory (lit ''eve'') (lit ''s3'') (lit ''token:transfer'') (lit ''gold:999'')) = 999"
    "py_split 58 (lit ''gold:999'') ! 0 = lit ''gold''" by code_simp+
  obtain t where T: "apply_transfer 6 [] (lit ''gold'') mallory (lit ''eve'') (lit ''s3'') 999 forged_issue = Some (True, t)"
    "ti_tokreg t = ti_tokreg forged_issue"
    "ti_cred t = kv_put (ti_cred forged_issue) (blit ''gold'' @ [0] @ blit ''eve'' @ [0] @ hkey 6 @ hkey 2) 999"
    "ti_deb t = kv_put (ti_deb forged_issue) (blit ''gold'' @ [0] @ blit ''mal'' @ [0] @ hkey 6 @ hkey 2) 999"
    using forged_transfer by blast
  have "forged_index = t"
    using S X P T(1) by (simp add: forged_index_def second_pass_tx_def transfer_tx_def spendable_def keep_def reward_is_zero_def
        wit_ptx_def)
  moreover have "has_token t (lit ''gold'') = Some False" unfolding has_token_def T(2) forged_issue_rows token_index.simps by code_simp
  moreover have "token_balance t (lit ''gold'') (lit ''eve'') = Some 999"
    unfolding token_balance_def T(3,4) forged_issue_rows token_index.simps by code_simp
  ultimately show ?thesis using S by blast
qed

end
