(* ===== verification/TokenSupply.thy ===== *)
theory TokenSupply
  imports TokensAliases
begin

text \<open>
  The overspend rule of the token index.  For names without a zero byte and supplies that are not negative, the
  prefix scans sum exactly the rows of one token and one party, and no sequence of blocks lets a
  party send more than it received.
\<close>

section \<open>Prefix scans of clean names\<close>

lemma utf8_char_nonzero: "utf8_char c = Some bs \<Longrightarrow> 0 < c \<Longrightarrow> 0 \<notin> set bs"
  by (auto simp: utf8_char_def utf8_cont_def split: if_splits simp flip: unat_eq_0)

lemma utf8_encode_nonzero: "utf8_encode s = Some bs \<Longrightarrow> 0 \<notin> set s \<Longrightarrow> 0 \<notin> set bs"
  by (induction s arbitrary: bs) (auto elim!: bind_SomeE dest: utf8_char_nonzero)

lemma zero_split:
  assumes "(0 :: byte) \<notin> set a" and "0 \<notin> set b" and "a @ [0] @ x = b @ [0] @ y"
  shows "a = b \<and> x = y"
  using assms
proof (induction a arbitrary: b)
  case Nil
  then show ?case by (cases b) auto
next
  case (Cons c a)
  then show ?case by (cases b) auto
qed

definition clean :: "pystr \<Rightarrow> bool" where
  "clean s \<longleftrightarrow> 0 \<notin> set s"

lemma party_prefix_SomeD:
  "party_prefix t (Some p) = Some a \<Longrightarrow> \<exists>tb pb. utf8_encode t = Some tb \<and> utf8_encode p = Some pb \<and> a = tb @ [0] @ pb @ [0]"
  by (auto simp: party_prefix_def elim!: bind_SomeE)

text \<open>A row key starts with the prefix of a token and a party exactly if it is a row of them.\<close>

lemma party_prefix_exact:
  assumes A: "party_prefix t (Some p) = Some a" and K: "party_key t' p' h q = Some k"
    and C: "clean t" "clean p" "clean t'" "clean p'"
  shows "prefix a k \<longleftrightarrow> t = t' \<and> p = p'"
proof -
  obtain tb pb where a: "utf8_encode t = Some tb" "utf8_encode p = Some pb" "a = tb @ [0] @ pb @ [0]"
    using party_prefix_SomeD [OF A] by blast
  obtain b a' where k: "party_prefix t' (Some p') = Some a'" "k = a' @ b" using party_key_SomeD [OF K] by blast
  obtain tb' pb' where a': "utf8_encode t' = Some tb'" "utf8_encode p' = Some pb'" "a' = tb' @ [0] @ pb' @ [0]"
    using party_prefix_SomeD [OF k(1)] by blast
  have Z: "0 \<notin> set tb" "0 \<notin> set pb" "0 \<notin> set tb'" "0 \<notin> set pb'"
    using utf8_encode_nonzero a a' C by (auto simp: clean_def)
  show ?thesis
  proof
    assume "prefix a k"
    then obtain z where "tb @ [0] @ (pb @ [0] @ z) = tb' @ [0] @ (pb' @ [0] @ b)"
      using a(3) a'(3) k(2) by (auto simp: prefix_def)
    then have "tb = tb'" "pb = pb'" using zero_split Z by blast+
    then show "t = t' \<and> p = p'" using utf8_encode_inject a a' by metis
  next
    assume "t = t' \<and> p = p'"
    then show "prefix a k" using A k by simp
  qed
qed

section \<open>Sums\<close>

definition psum :: "bytes \<Rightarrow> (int \<Rightarrow> bool) \<Rightarrow> int kvdb \<Rightarrow> int" where
  "psum a P db = sum_list (map snd (filter (\<lambda>(k, v). P (row_height k)) (kv_iterate db a)))"

lemma sum_party_psum:
  "party_prefix t (Some p) = Some a \<Longrightarrow>
     sum_party db t p h inc = Some (psum a (\<lambda>r. if inc then r \<le> h else r < h) db)"
  by (cases inc) (simp_all add: sum_party_def psum_def)

lemma psum_filter: "kv_ok db \<Longrightarrow> psum a P db = sum_list (map snd (filter (\<lambda>(k, v). P (row_height k) \<and> prefix a k) db))"
  by (simp add: psum_def kv_iterate_eq_filter case_prod_unfold conj_commute)

lemma sum_filter_mset: "sum_list (map snd (filter Q xs)) = sum_mset (image_mset snd (filter_mset Q (mset xs)))"
  by (metis mset_filter mset_map sum_mset_sum_list)

lemma psum_put:
  assumes "kv_ok db" and "kv_get db k = None"
  shows "psum a P (kv_put db k v) = psum a P db + (if prefix a k \<and> P (row_height k) then v else 0)"
  using assms by (simp add: psum_filter kv.ok_put sum_filter_mset kv_put_mset)

lemma psum_mono:
  assumes "kv_ok db" and "\<And>k v. (k, v) \<in> set db \<Longrightarrow> 0 \<le> v" and "\<And>r. P r \<Longrightarrow> Q r"
  shows "psum a P db \<le> psum a Q db"
proof -
  have "sum_list (map snd (filter (\<lambda>(k, v). P (row_height k) \<and> prefix a k) xs)) \<le>
        sum_list (map snd (filter (\<lambda>(k, v). Q (row_height k) \<and> prefix a k) xs))"
    if "set xs \<subseteq> set db" for xs
    using that assms(2,3) by (induction xs) force+
  then show ?thesis using assms(1) by (simp add: psum_filter)
qed

lemma psum_cong:
  assumes "kv_ok db" and "\<And>k v. (k, v) \<in> set db \<Longrightarrow> P (row_height k) = Q (row_height k)"
  shows "psum a P db = psum a Q db"
  using assms(2) by (auto simp: psum_filter [OF assms(1)] intro!: arg_cong [where f = "\<lambda>l. sum_list (map snd l)"] filter_cong)

lemma row_height_key: "party_key t p h q = Some k \<Longrightarrow> row_height k = h"
  using hq_SomeD(5,6) [OF party_key_tail] by (simp add: row_height_def)

section \<open>The solvency invariant\<close>

definition solvent :: "int \<Rightarrow> token_index \<Rightarrow> bool" where
  "solvent H s \<longleftrightarrow> idx_inv s \<and>
     (\<forall>(k, v) \<in> set (ti_cred s). 0 \<le> v \<and> row_height k \<le> H) \<and> (\<forall>(k, v) \<in> set (ti_deb s). row_height k \<le> H) \<and>
     (\<forall>t p a. clean t \<and> clean p \<and> p \<noteq> issued \<and> party_prefix t (Some p) = Some a \<longrightarrow>
        psum a (\<lambda>_. True) (ti_deb s) \<le> psum a (\<lambda>_. True) (ti_cred s))"

lemma solvent_same: "solvent H s \<Longrightarrow> same_tokens s t \<Longrightarrow> idx_inv t \<Longrightarrow> H \<le> H' \<Longrightarrow> solvent H' t"
  unfolding solvent_def same_tokens_def by fastforce

text \<open>A recorded row keeps solvency if its amount is not negative and, for a party other than the
  issuing pseudo party, covered.\<close>

lemma solvent_step:
  assumes S: "solvent H s" and T: "tok_step e h s t" and "H \<le> h"
    and J: "is_noop (snd e) \<or> clean (j_tok (snd e)) \<and> clean (j_rcp (snd e)) \<and> clean (j_adr (snd e)) \<and> 0 \<le> j_amt (snd e) \<and>
       (j_adr (snd e) = issued \<or> (\<forall>a. party_prefix (j_tok (snd e)) (Some (j_adr (snd e))) = Some a \<longrightarrow>
           psum a (\<lambda>_. True) (ti_deb s) + j_amt (snd e) \<le> psum a (\<lambda>_. True) (ti_cred s)))"
  shows "solvent h t"
proof -
  have I: "idx_inv s" "idx_inv t" using S T idx_step_inv [OF idx_step.token [OF T]] by (simp_all add: solvent_def)
  have W: "writes e s t" and K: "hq h (seq_of t) = Some (fst e)" using T unfolding tok_step_def by blast+
  show ?thesis
  proof (cases "is_noop (snd e)")
    case True
    then have "ti_cred t = ti_cred s" "ti_deb t = ti_deb s" using W by (simp_all add: writes_def)
    then show ?thesis using S I(2) assms(3) unfolding solvent_def by fastforce
  next
    case False
    let ?t = "j_tok (snd e)" and ?r = "j_rcp (snd e)" and ?d = "j_adr (snd e)" and ?n = "j_amt (snd e)"
    obtain h' q ck dk where D: "hq h' q = Some (fst e)" "party_key ?t ?r h' q = Some ck" "kv_get (ti_cred s) ck = None"
      "party_key ?t ?d h' q = Some dk" "kv_get (ti_deb s) dk = None"
      "ti_cred t = kv_put (ti_cred s) ck ?n" "ti_deb t = kv_put (ti_deb s) dk ?n"
      using W False unfolding writes_def by auto
    have hh: "h' = h" using hq_SomeD(2) [OF D(1)] hq_SomeD(2) [OF K] by simp
    have C: "clean ?t" "clean ?r" "clean ?d" "0 \<le> ?n" using J False by auto
    have ok: "kv_ok (ti_cred s)" "kv_ok (ti_deb s)" using I(1) by (simp_all add: idx_inv_def tok_inv_def)
    have "psum a (\<lambda>_. True) (ti_deb t) \<le> psum a (\<lambda>_. True) (ti_cred t)"
      if tp: "clean tk" "clean p" "p \<noteq> issued" "party_prefix tk (Some p) = Some a" for tk p a
    proof -
      have B: "psum a (\<lambda>_. True) (ti_deb s) \<le> psum a (\<lambda>_. True) (ti_cred s)" using S tp unfolding solvent_def by blast
      have P: "psum a (\<lambda>_. True) (ti_cred t) = psum a (\<lambda>_. True) (ti_cred s) + (if prefix a ck then ?n else 0)"
        "psum a (\<lambda>_. True) (ti_deb t) = psum a (\<lambda>_. True) (ti_deb s) + (if prefix a dk then ?n else 0)"
        using psum_put ok D by simp_all
      have "prefix a dk \<longleftrightarrow> tk = ?t \<and> p = ?d" using party_prefix_exact [OF tp(4) D(4)] tp C by blast
      then show ?thesis using P B C(4) J False tp by auto
    qed
    moreover have "\<forall>(k, v) \<in> set (ti_cred t). 0 \<le> v \<and> row_height k \<le> h" "\<forall>(k, v) \<in> set (ti_deb t). row_height k \<le> h"
      using S set_kv_put [of "ti_cred s" ck ?n] set_kv_put [of "ti_deb s" dk ?n] C(4) row_height_key [OF D(2)]
        row_height_key [OF D(4)] hh assms(3) unfolding solvent_def D(6,7) by fastforce+
    ultimately show ?thesis using I(2) unfolding solvent_def by blast
  qed
qed

section \<open>Blocks keep solvency\<close>

definition issue_supply :: "ptx \<Rightarrow> int" where
  "issue_supply tx = (case py_int (py_split 58 (x_openfield tx) ! 1) of None \<Rightarrow> 0 | Some n \<Rightarrow> n)"

definition clean_tx :: "plugin_ext \<Rightarrow> ptx \<Rightarrow> bool" where
  "clean_tx x tx \<longleftrightarrow> clean (x_addr tx) \<and> clean (x_recip tx) \<and> clean (py_split 58 (x_openfield tx) ! 0) \<and>
     clean (py_strip (py_lower x (py_split 58 (x_openfield tx) ! 0))) \<and> 0 \<le> issue_supply tx"

lemma clean_issued: "clean issued"
  by (simp add: clean_def issued_def lit_def)

lemma quiet_keep:
  assumes "\<And>t. r = Some (False, t) \<Longrightarrow> quiet s t" and "solvent H s" and "H \<le> h"
    and "\<And>t. r = Some (True, t) \<Longrightarrow> solvent h t" and "idx_inv (keep r s)"
  shows "solvent h (keep r s)"
proof (cases r)
  case None
  then show ?thesis using solvent_same [OF assms(2), of s h] assms(3,5) by (simp add: same_tokens_def)
next
  case (Some bt)
  then obtain b t where "r = Some (b, t)" by (cases bt) auto
  then show ?thesis using assms solvent_same [OF assms(2), of t h] by (cases b) (auto simp: keep_def quiet_def)
qed

lemma solvent_inv: "solvent H s \<Longrightarrow> idx_inv s" and solvent_mono: "solvent H s \<Longrightarrow> H \<le> H' \<Longrightarrow> solvent H' s"
  using solvent_same [of H s s H'] by (auto simp: solvent_def same_tokens_def)

lemma alias_solvent: "alias_step h e s t \<Longrightarrow> solvent H s \<Longrightarrow> H \<le> h \<Longrightarrow> solvent h t"
  using solvent_same idx_step_inv [OF idx_step.name] solvent_inv unfolding alias_step_def by blast

lemma issue_tx_solvent:
  assumes S: "solvent H s" and "H \<le> h" and C: "clean_tx x tx"
  shows "solvent h (issue_tx x h tx s)"
proof -
  let ?tok = "py_strip (py_lower x (py_split 58 (x_openfield tx) ! 0))"
  let ?r = "register_issue h (x_ts tx) ?tok (x_recip tx) (take 56 (x_sig tx)) (py_split 58 (x_openfield tx) ! 1) s"
  have I: "idx_inv s" by (rule solvent_inv [OF S])
  have "solvent h (keep ?r s)"
  proof (rule quiet_keep [OF _ S assms(2)])
    show "idx_inv (keep ?r s)" using idx_step_inv [OF issue_step [OF I] I] .
    show "quiet s t" if "?r = Some (False, t)" for t
      using that quiet_refl [OF I] by (auto simp: register_issue_def Let_def elim!: bind_SomeE split: if_splits prod.splits)
    fix t assume R: "?r = Some (True, t)"
    have "tok_inv s" using I by (simp add: idx_inv_def)
    then obtain jk where "tok_step (jk, JIssue ?tok (x_recip tx) issued (issue_supply tx) (take 56 (x_sig tx))) h s t"
      using register_issue_step [OF _ R] unfolding issue_supply_def by metis
    then show "solvent h t" using solvent_step [OF S _ assms(2)] C clean_issued by (fastforce simp: clean_tx_def)
  qed
  then show ?thesis using solvent_mono [OF S assms(2)] by (simp add: issue_tx_def Let_def)
qed

lemma spendable_covers:
  assumes S: "solvent H s" and "H \<le> h" and B: "spendable s token sender h = Some b"
    and A: "party_prefix token (Some sender) = Some a"
  shows "psum a (\<lambda>_. True) (ti_deb s) + b \<le> psum a (\<lambda>_. True) (ti_cred s)"
proof -
  have ok: "kv_ok (ti_cred s)" "kv_ok (ti_deb s)" using solvent_inv [OF S] by (simp_all add: idx_inv_def tok_inv_def)
  have "b = psum a (\<lambda>r. r < h) (ti_cred s) - psum a (\<lambda>r. r \<le> h) (ti_deb s)"
    using B by (simp add: spendable_def token_credit_def token_debit_def sum_party_psum [OF A])
  moreover have "psum a (\<lambda>r. r \<le> h) (ti_deb s) = psum a (\<lambda>_. True) (ti_deb s)"
    using S assms(2) by (intro psum_cong ok) (fastforce simp: solvent_def)
  moreover have "psum a (\<lambda>r. r < h) (ti_cred s) \<le> psum a (\<lambda>_. True) (ti_cred s)"
    using S by (intro psum_mono ok) (auto simp: solvent_def)
  ultimately show ?thesis by simp
qed

lemma transfer_tx_solvent:
  assumes S: "solvent H s" and "H \<le> h" and C: "clean_tx x tx" and "0 \<le> h"
  shows "solvent h (transfer_tx x h tx s)"
proof -
  let ?tok = "py_split 58 (x_openfield tx) ! 0" and ?txid = "transfer_txid x h tx" and ?n = "transfer_amount tx"
  have I: "idx_inv s" by (rule solvent_inv [OF S])
  have TI: "tok_inv s" using I by (simp add: idx_inv_def)
  have no: "solvent h (keep (mark_noop h ?txid s) s)"
  proof (rule quiet_keep [OF _ S assms(2)])
    show "idx_inv (keep (mark_noop h ?txid s) s)" using idx_step_inv [OF noop_step [OF I] I] .
    show "quiet s t" if "mark_noop h ?txid s = Some (False, t)" for t
      using that quiet_refl [OF I] by (auto simp: mark_noop_def Let_def elim!: bind_SomeE split: if_splits prod.splits)
    fix t assume R: "mark_noop h ?txid s = Some (True, t)"
    show "solvent h t" using mark_noop_step [OF TI R] solvent_step [OF S _ assms(2)] by fastforce
  qed
  have yes: "solvent h (keep (apply_transfer h (x_ts tx) ?tok (x_addr tx) (x_recip tx) ?txid ?n s) s)"
    if b: "spendable s ?tok (x_addr tx) h = Some b" "0 \<le> b - ?n" "0 < ?n" for b
  proof (rule quiet_keep [OF _ S assms(2)])
    let ?r = "apply_transfer h (x_ts tx) ?tok (x_addr tx) (x_recip tx) ?txid ?n s"
    show "idx_inv (keep ?r s)" using idx_step_inv [OF transfer_step [OF I] I] .
    show "quiet s t" if "?r = Some (False, t)" for t
      using that quiet_refl [OF I] by (auto simp: apply_transfer_def Let_def elim!: bind_SomeE split: if_splits prod.splits)
    fix t assume R: "?r = Some (True, t)"
    obtain jk where T: "tok_step (jk, JTransfer ?tok (x_recip tx) (x_addr tx) ?n ?txid (x_ts tx)) h s t"
      using apply_transfer_step [OF TI R] by blast
    have "psum a (\<lambda>_. True) (ti_deb s) + ?n \<le> psum a (\<lambda>_. True) (ti_cred s)"
      if "party_prefix ?tok (Some (x_addr tx)) = Some a" for a
      using spendable_covers [OF S assms(2) b(1) that] b(2) by simp
    then show "solvent h t" using solvent_step [OF S T assms(2)] C b(3) by (simp add: clean_tx_def)
  qed
  show ?thesis
    using no yes solvent_mono [OF S assms(2)] assms(4) by (simp add: transfer_tx_def Let_def split: option.splits)
qed

lemma name_solvent:
  assumes S: "solvent H s" and "H \<le> h" and T: "idx_step h s t" and N: "same_tokens s t"
  shows "solvent h t"
  using solvent_same [OF S N idx_step_inv [OF T solvent_inv [OF S]] assms(2)] .

lemma alias_same_tokens:
  "same_tokens s (keep (register_alias h a n s) s)" "same_tokens s (keep (transfer_alias h a r n s) s)"
  "same_tokens s (keep (free_alias h a n s) s)"
  by (auto simp: same_tokens_def keep_def register_alias_def transfer_alias_def free_alias_def next_seq_def Let_def
      split: option.splits if_splits elim!: bind_SomeE)

lemma second_pass_solvent:
  assumes S: "solvent H s" and "H \<le> h" and C: "clean_tx x tx" and "0 \<le> h"
  shows "solvent h (second_pass_tx x h tx s)"
proof -
  note I = solvent_inv [OF S]
  have A: "solvent h (keep (register_alias h a n s) s)" "solvent h (keep (transfer_alias h a r n s) s)"
    "solvent h (keep (free_alias h a n s) s)" for a r n
    by (rule name_solvent [OF S assms(2) register_step [OF I] alias_same_tokens(1)]
        name_solvent [OF S assms(2) alias_transfer_step [OF I] alias_same_tokens(2)]
        name_solvent [OF S assms(2) alias_free_step [OF I] alias_same_tokens(3)])+
  show ?thesis
    using transfer_tx_solvent [OF S assms(2) C assms(4)] solvent_mono [OF S assms(2)] A
    by (simp add: second_pass_tx_def alias_register_tx_def alias_transfer_tx_def alias_free_tx_def legacy_alias_tx_def
        Let_def split: option.splits prod.splits)
qed

lemma fold_solvent:
  assumes "\<And>tx H s. solvent H s \<Longrightarrow> H \<le> h \<Longrightarrow> tx \<in> set txs \<Longrightarrow> solvent h (f tx s)" and "solvent H s" and "H \<le> h"
  shows "solvent h (fold f txs s)"
  using assms
proof (induction txs arbitrary: s H)
  case Nil
  then show ?case using solvent_mono by simp
next
  case (Cons tx txs)
  have "solvent h (f tx s)" using Cons.prems by simp
  then show ?case using Cons.IH [of h "f tx s"] Cons.prems(1) by simp
qed

lemma on_block_solvent:
  assumes "solvent H s" and "H \<le> h" and "0 \<le> h" and "\<forall>tx \<in> set txs. clean_tx x tx"
  shows "solvent h (on_block x h txs s)"
proof -
  have F: "solvent h (first_pass_tx x h tx s)" if "solvent H s" "H \<le> h" "tx \<in> set txs" for tx H s
    using issue_tx_solvent [OF that(1,2)] solvent_mono [OF that(1,2)] that(3) assms(4) by (simp add: first_pass_tx_def)
  have "solvent h (fold (first_pass_tx x h) txs s)" by (rule fold_solvent [OF F assms(1,2)])
  then show ?thesis unfolding on_block_def
    by (rule fold_solvent [rotated]) (use second_pass_solvent assms(3,4) in auto)
qed

lemma project_solvent:
  "solvent H s \<Longrightarrow> block_order 0 bs \<Longrightarrow> block_order H bs \<Longrightarrow> \<forall>(h, txs) \<in> set bs. h \<le> M \<and> (\<forall>tx \<in> set txs. clean_tx x tx) \<Longrightarrow>
     H \<le> M \<Longrightarrow> solvent M (project x bs s)"
proof (induction bs arbitrary: s H)
  case Nil
  then show ?case using solvent_mono by simp
next
  case (Cons b bs)
  obtain h txs where b: "b = (h, txs)" by (cases b)
  have O: "0 \<le> h" "H \<le> h" "block_order 0 bs" "block_order h bs" "h \<le> M"
    using Cons.prems by (auto simp: b block_order_Cons)
  have "solvent h (on_block x h txs s)" using on_block_solvent [OF Cons.prems(1) O(2,1)] Cons.prems(4) by (auto simp: b)
  then show ?case using Cons.IH [OF _ O(3,4)] Cons.prems(4) O(5) by (simp add: b)
qed

lemma empty_solvent: "solvent 0 empty_index"
  using empty_idx_inv by (simp add: solvent_def empty_index_def psum_def kv_iterate_def set_range_def)



end
