(* ===== verification/Floats.thy ===== *)
theory Floats
  imports Amounts
begin

text \<open>
  Python's \<^verbatim>\<open>float\<close>, an IEEE 754 binary64 number, as the node uses it: parsing (\<^verbatim>\<open>float(s)\<close>), conversion from a
  \<^verbatim>\<open>Decimal\<close>, correctly rounded arithmetic, comparison, the fixed-point format \<^verbatim>\<open>'%.8f'\<close> and the shortest
  representation \<^verbatim>\<open>repr\<close>.  A finite float is its sign and its magnitude, a rational number.
\<close>

datatype pyfloat = Fl bool rat | FInf bool | FNaN

section \<open>Rounding to the nearest float\<close>

definition pow2 :: "int \<Rightarrow> rat" where
  "pow2 e = (if 0 \<le> e then 2 ^ nat e else 1 / 2 ^ nat (- e))"

text \<open>The exponent of the leading binary digit of a positive rational.\<close>

definition ilog2 :: "rat \<Rightarrow> int" where
  "ilog2 r = (let (p, q) = quotient_of r; e = int (pow2_exp (nat p)) - int (pow2_exp (nat q)) in
     if pow2 e \<le> r then e else e - 1)"

text \<open>A non-negative rational rounded to an integer, ties to even.\<close>

definition rat_rhe :: "rat \<Rightarrow> nat" where
  "rat_rhe r = (let (p, q) = quotient_of r in rhe (nat p) (nat q))"

definition round_mag :: "rat \<Rightarrow> rat option" where
  "round_mag r =
     (if r = 0 then Some 0
      else let e = max (ilog2 r - 52) (- 1074); v = of_nat (rat_rhe (r / pow2 e)) * pow2 e in
           if pow2 1024 \<le> v then None else Some v)"

definition round_float :: "bool \<Rightarrow> rat \<Rightarrow> pyfloat" where
  "round_float s r = (case round_mag r of None \<Rightarrow> FInf s | Some v \<Rightarrow> Fl s v)"

definition float_of_rat :: "rat \<Rightarrow> pyfloat" where
  "float_of_rat r = round_float (r < 0) \<bar>r\<bar>"

section \<open>Conversions\<close>

definition dec_rat :: "bool \<Rightarrow> nat \<Rightarrow> int \<Rightarrow> rat" where
  "dec_rat s c e = (if s then - 1 else 1) * of_nat c * (if 0 \<le> e then 10 ^ nat e else 1 / 10 ^ nat (- e))"

text \<open>\<^verbatim>\<open>float(d)\<close> of a decimal: a signalling NaN raises.\<close>

fun dec_float :: "decimal \<Rightarrow> pyfloat option" where
  "dec_float (Fin s c e) = Some (round_float s \<bar>dec_rat s c e\<bar>)"
| "dec_float (Inf s) = Some (FInf s)"
| "dec_float QNaN = Some FNaN"
| "dec_float SNaN = None"

text \<open>\<^verbatim>\<open>float(i)\<close> of an integer raises OverflowError beyond the range.\<close>

definition int_float :: "int \<Rightarrow> pyfloat option" where
  "int_float i = map_option (Fl (i < 0)) (round_mag (of_int \<bar>i\<bar>))"

text \<open>In a numeral an underscore stands between two digits.\<close>

fun underscores_ok :: "bool \<Rightarrow> pystr \<Rightarrow> bool" where
  "underscores_ok d [] = True"
| "underscores_ok d (c # s) =
     (if c = 95 then d \<and> s \<noteq> [] \<and> is_digit (hd s) \<and> underscores_ok False s
      else underscores_ok (is_digit c) s)"

definition is_nan_text :: "pystr \<Rightarrow> bool" where
  "is_nan_text t = (let u = (if t \<noteq> [] \<and> hd t \<in> {43, 45} then tl t else t) in to_lower_ascii u = lit ''nan'')"

definition float_str :: "pystr \<Rightarrow> pyfloat option" where
  "float_str s =
     (let t = py_strip s in
      if \<not> underscores_ok False t then None
      else if is_nan_text t then Some FNaN
      else case dec_parse t of Some (Fin n c e) \<Rightarrow> dec_float (Fin n c e) | Some (Inf n) \<Rightarrow> Some (FInf n) | _ \<Rightarrow> None)"

section \<open>Comparison and arithmetic\<close>

fun float_val :: "pyfloat \<Rightarrow> rat option" where
  "float_val (Fl s m) = Some (if s then - m else m)"
| "float_val (FInf s) = None"
| "float_val FNaN = None"

fun float_less :: "pyfloat \<Rightarrow> pyfloat \<Rightarrow> bool" where
  "float_less (Fl s m) (Fl t n) = ((if s then - m else m) < (if t then - n else n))"
| "float_less (FInf s) (FInf t) = (s \<and> \<not> t)"
| "float_less (FInf s) (Fl _ _) = s"
| "float_less (Fl _ _) (FInf t) = (\<not> t)"
| "float_less _ _ = False"

text \<open>\<^verbatim>\<open>x == 0\<close>\<close>

fun float_zero :: "pyfloat \<Rightarrow> bool" where
  "float_zero (Fl s m) = (m = 0)"
| "float_zero _ = False"

text \<open>\<^verbatim>\<open>a / b\<close> of integers is correctly rounded, as are differences of floats.\<close>

definition int_div_float :: "int \<Rightarrow> nat \<Rightarrow> pyfloat" where
  "int_div_float a b = float_of_rat (of_int a / of_nat b)"

definition int_sub_float :: "int \<Rightarrow> pyfloat \<Rightarrow> pyfloat" where
  "int_sub_float i x = (case float_val x of Some v \<Rightarrow> float_of_rat (of_int i - v) | None \<Rightarrow> x)"

definition float_sub_rat :: "pyfloat \<Rightarrow> rat \<Rightarrow> pyfloat" where
  "float_sub_rat x r = (case float_val x of Some v \<Rightarrow> float_of_rat (v - r) | None \<Rightarrow> x)"

section \<open>Formatting\<close>

text \<open>\<^verbatim>\<open>'%.nf' % x\<close>: the exact value rounded half to even at the n-th decimal.\<close>

definition fixed_str :: "nat \<Rightarrow> bool \<Rightarrow> nat \<Rightarrow> pystr" where
  "fixed_str n s u = (if s then [45] else []) @ nat_str (u div 10 ^ n) @ 46 # zero_pad n (u mod 10 ^ n)"

fun fmt_float :: "nat \<Rightarrow> pyfloat \<Rightarrow> pystr" where
  "fmt_float n (Fl s m) = fixed_str n s (rat_rhe (m * 10 ^ n))"
| "fmt_float n (FInf s) = (if s then lit ''-inf'' else lit ''inf'')"
| "fmt_float n FNaN = lit ''nan''"

text \<open>\<^verbatim>\<open>'%.nf' % d\<close> of a decimal goes through a float, \<^verbatim>\<open>'{:.nf}'.format(d)\<close> rounds the decimal itself.\<close>

definition fmt_dec :: "nat \<Rightarrow> decimal \<Rightarrow> pystr option" where
  "fmt_dec n d = map_option (fmt_float n) (dec_float d)"

fun dec_format :: "nat \<Rightarrow> decimal \<Rightarrow> pystr" where
  "dec_format n (Fin s c e) = fixed_str n s (rescale c e (- int n))"
| "dec_format n (Inf s) = (if s then lit ''-Infinity'' else lit ''Infinity'')"
| "dec_format n QNaN = lit ''NaN''"
| "dec_format n SNaN = lit ''sNaN''"

text \<open>\<^verbatim>\<open>str(d)\<close> of a decimal in scientific notation.\<close>

definition exp_str :: "int \<Rightarrow> pystr" where
  "exp_str e = 69 # (if 0 \<le> e then [43] else []) @ int_str e"

fun dec_str :: "decimal \<Rightarrow> pystr" where
  "dec_str (Fin s c e) =
     (let ds = nat_str c; left = int (length ds) + e;
          body = (if e \<le> 0 \<and> - 6 < left then
                    (if e = 0 then ds
                     else if 0 < left then take (nat left) ds @ 46 # drop (nat left) ds
                     else lit ''0.'' @ replicate (nat (- left)) 48 @ ds)
                  else take 1 ds @ (if 1 < length ds then 46 # drop 1 ds else []) @ exp_str (left - 1))
      in (if s then [45] else []) @ body)"
| "dec_str (Inf s) = (if s then lit ''-Infinity'' else lit ''Infinity'')"
| "dec_str QNaN = lit ''NaN''"
| "dec_str SNaN = lit ''sNaN''"

text \<open>The shortest decimal that rounds to the given positive magnitude: \<^verbatim>\<open>repr(x)\<close> has its digits.\<close>

definition ilog10 :: "rat \<Rightarrow> int" where
  "ilog10 r = (let (p, q) = quotient_of r;
       e = int (length (nat_str (nat p))) - int (length (nat_str (nat q))) in
     if dec_rat False 1 e \<le> r then e else e - 1)"

definition digits_at :: "rat \<Rightarrow> nat \<Rightarrow> nat \<times> int" where
  "digits_at r k = (let e = ilog10 r - int k in (rat_rhe (r / dec_rat False 1 e), e))"

definition repr_dec :: "bool \<Rightarrow> rat \<Rightarrow> decimal" where
  "repr_dec s m =
     (if m = 0 then Fin s 0 0
      else case find (\<lambda>k. case digits_at m k of (c, e) \<Rightarrow> round_mag (dec_rat False c e) = Some m) [0..<17] of
             Some k \<Rightarrow> (case digits_at m k of (c, e) \<Rightarrow> Fin s c e)
           | None \<Rightarrow> (case digits_at m 16 of (c, e) \<Rightarrow> Fin s c e))"

section \<open>Accuracy\<close>

declare pow2_exp.simps [simp del]

lemma pow2_exp_bounds: "0 < n \<Longrightarrow> 2 ^ pow2_exp n \<le> n \<and> n < 2 ^ Suc (pow2_exp n)"
proof (induction n rule: pow2_exp.induct)
  case (1 n)
  show ?case
  proof (cases "n \<le> 1")
    case False
    then have "2 ^ pow2_exp (n div 2) \<le> n div 2" "n div 2 < 2 ^ Suc (pow2_exp (n div 2))"
      using 1 by auto
    moreover have "pow2_exp n = Suc (pow2_exp (n div 2))" using False by (subst pow2_exp.simps) simp
    ultimately show ?thesis by (simp only: power_Suc) linarith
  qed (use 1 in \<open>auto simp: pow2_exp.simps [of "Suc 0"] le_Suc_eq\<close>)
qed

lemma pow2_powi: "pow2 e = 2 powi e"
  by (simp add: pow2_def power_int_def inverse_eq_divide power_divide)

lemma pow2_pos [simp]: "0 < pow2 e"
  by (simp add: pow2_def)

lemma pow2_nonzero [simp]: "pow2 e \<noteq> 0"
  by (simp add: pow2_def)

lemma pow2_add: "pow2 (a + b) = pow2 a * pow2 b"
  by (simp add: pow2_powi power_int_add)

lemma pow2_diff: "pow2 (a - b) = pow2 a / pow2 b"
  by (simp add: pow2_powi power_int_diff)

lemma pow2_le: "a \<le> b \<Longrightarrow> pow2 a \<le> pow2 b"
  by (simp add: pow2_powi power_int_increasing)

lemma pow2_less_cancel: "pow2 a < pow2 b \<Longrightarrow> a < b"
  using pow2_le [of b a] by linarith

lemma pow2_exp_rat:
  assumes "0 < n"
  shows "pow2 (int (pow2_exp n)) \<le> of_nat n" and "of_nat n < pow2 (int (pow2_exp n) + 1)"
proof -
  have "of_nat (2 ^ pow2_exp n) \<le> (of_nat n :: rat)" "(of_nat n :: rat) < of_nat (2 ^ Suc (pow2_exp n))"
    using pow2_exp_bounds [OF assms] by (simp_all only: of_nat_le_iff of_nat_less_iff)
  then show "pow2 (int (pow2_exp n)) \<le> of_nat n" "of_nat n < pow2 (int (pow2_exp n) + 1)"
    by (simp_all add: pow2_def nat_add_distrib)
qed

lemma ilog2_bounds:
  assumes "0 < r"
  shows "pow2 (ilog2 r) \<le> r" and "r < pow2 (ilog2 r + 1)"
proof -
  obtain p q where pq: "quotient_of r = (p, q)" by (cases "quotient_of r")
  then have r: "r = of_int p / of_int q" and q: "0 < q" using quotient_of_div quotient_of_denom_pos by auto
  with assms have p: "0 < p" by (simp add: zero_less_divide_iff)
  let ?a = "pow2_exp (nat p)" and ?b = "pow2_exp (nat q)"
  have P: "pow2 (int ?a) \<le> of_int p" "of_int p < pow2 (int ?a + 1)"
    using pow2_exp_rat [of "nat p"] p by simp_all
  have Q: "pow2 (int ?b) \<le> of_int q" "of_int q < pow2 (int ?b + 1)"
    using pow2_exp_rat [of "nat q"] q by simp_all
  have up: "r < pow2 (int ?a - int ?b + 1)"
  proof -
    have "r \<le> of_int p / pow2 (int ?b)" unfolding r using Q(1) p q by (intro divide_left_mono) (auto intro: mult_pos_pos)
    also have "\<dots> < pow2 (int ?a + 1) / pow2 (int ?b)" using P(2) by (intro divide_strict_right_mono) auto
    also have "\<dots> = pow2 (int ?a - int ?b + 1)"
      using pow2_diff [of "int ?a + 1" "int ?b"] by (simp add: algebra_simps)
    finally show ?thesis .
  qed
  have lo: "pow2 (int ?a - int ?b - 1) \<le> r"
  proof -
    have "pow2 (int ?a - int ?b - 1) = pow2 (int ?a) / pow2 (int ?b + 1)"
      using pow2_diff [of "int ?a" "int ?b + 1"] by (simp only: diff_diff_eq)
    also have "\<dots> \<le> of_int p / pow2 (int ?b + 1)" using P(1) by (intro divide_right_mono) (auto intro: less_imp_le)
    also have "\<dots> \<le> r"
      unfolding r using Q(2) p q by (intro divide_left_mono) (auto intro: mult_pos_pos)
    finally show ?thesis .
  qed
  show "pow2 (ilog2 r) \<le> r" "r < pow2 (ilog2 r + 1)"
    using up lo by (auto simp: ilog2_def pq Let_def)
qed

lemma rhe_error:
  assumes "0 < d"
  shows "2 * \<bar>int (rhe c d) * int d - int c\<bar> \<le> int d"
proof -
  have "c = c div d * d + c mod d" by simp
  then have "int c = int (c div d) * int d + int (c mod d)" by (metis of_nat_add of_nat_mult)
  moreover have "c mod d < d" using assms by simp
  ultimately show ?thesis by (auto simp: rhe_def Let_def algebra_simps)
qed

lemma rat_rhe_error:
  assumes "0 \<le> r"
  shows "\<bar>of_nat (rat_rhe r) - r\<bar> \<le> 1 / 2"
proof -
  obtain p q where pq: "quotient_of r = (p, q)" by (cases "quotient_of r")
  then have r: "r = of_int p / of_int q" and q: "0 < q" using quotient_of_div quotient_of_denom_pos by auto
  with assms have p: "0 \<le> p" by (simp add: zero_le_divide_iff)
  have "2 * \<bar>int (rat_rhe r) * q - p\<bar> \<le> q"
    using rhe_error [of "nat q" "nat p"] p q by (simp add: rat_rhe_def pq)
  then have "of_int (2 * \<bar>int (rat_rhe r) * q - p\<bar>) \<le> (of_int q :: rat)" by (simp only: of_int_le_iff)
  then have "2 * \<bar>of_nat (rat_rhe r) * of_int q - of_int p :: rat\<bar> \<le> of_int q" by simp
  moreover have "\<bar>of_nat (rat_rhe r) - r\<bar> * of_int q = \<bar>of_nat (rat_rhe r) * of_int q - of_int p\<bar>"
    using q by (subst abs_mult_pos) (simp_all add: r left_diff_distrib)
  ultimately have "\<bar>of_nat (rat_rhe r) - r\<bar> * of_int q \<le> 1 / 2 * of_int q" by simp
  then show ?thesis using q by (simp only: mult_le_cancel_right of_int_0_less_iff)
qed

lemma rat_rhe_near:
  assumes "\<bar>r - of_nat n\<bar> < 1 / 2" and "0 \<le> r"
  shows "rat_rhe r = n"
proof -
  have "\<bar>of_nat (rat_rhe r) - of_nat n :: rat\<bar> < 1" using rat_rhe_error [OF assms(2)] assms(1) by linarith
  then have "of_int \<bar>int (rat_rhe r) - int n\<bar> < (of_int 1 :: rat)" by simp
  then have "\<bar>int (rat_rhe r) - int n\<bar> < 1" by (simp only: of_int_less_iff)
  then show ?thesis by linarith
qed

lemma round_mag_error:
  assumes "0 < r" and "r < pow2 k" and "- 1021 \<le> k" and "k \<le> 1023"
  obtains v where "round_mag r = Some v" and "\<bar>v - r\<bar> \<le> pow2 (k - 54)" and "0 \<le> v"
proof -
  let ?e = "max (ilog2 r - 52) (- 1074)"
  let ?v = "of_nat (rat_rhe (r / pow2 ?e)) * pow2 ?e"
  have "pow2 (ilog2 r) < pow2 k" using ilog2_bounds(1) [OF assms(1)] assms(2) by linarith
  then have e: "?e \<le> k - 53" using pow2_less_cancel [of "ilog2 r" k] assms(3) by linarith
  have "\<bar>?v - r\<bar> = \<bar>of_nat (rat_rhe (r / pow2 ?e)) - r / pow2 ?e\<bar> * pow2 ?e"
    by (subst abs_mult_pos) (simp_all add: left_diff_distrib less_imp_le)
  also have "\<dots> \<le> 1 / 2 * pow2 ?e"
    by (intro mult_right_mono rat_rhe_error divide_nonneg_nonneg less_imp_le [OF assms(1)] less_imp_le [OF pow2_pos])
  also have "\<dots> \<le> 1 / 2 * pow2 (k - 53)" using pow2_le [OF e] by simp
  also have "\<dots> = pow2 (k - 54)" using pow2_add [of "k - 53" "- 1"] by (simp add: pow2_def)
  finally have err: "\<bar>?v - r\<bar> \<le> pow2 (k - 54)" .
  have "?v < pow2 k + pow2 k" using err assms(2) pow2_le [of "k - 54" k] by linarith
  also have "\<dots> = pow2 (k + 1)" by (simp add: pow2_add) (simp add: pow2_def)
  also have "\<dots> \<le> pow2 1024" using assms(4) by (intro pow2_le) simp
  finally have "round_mag r = Some ?v" using assms(1) by (simp add: round_mag_def Let_def)
  moreover have "0 \<le> ?v" by (simp add: less_imp_le)
  ultimately show ?thesis using err that by blast
qed

text \<open>Formatting keeps every unit in the last decimal as long as the units fit the 53 bits with one to spare.\<close>

lemma fmt_dec_decimals:
  assumes "u < 2 ^ k * 10 ^ n" and "2 ^ k * 10 ^ n * 2 < (2 :: nat) ^ 54"
  shows "fmt_dec n (Fin s u (- int n)) = Some (fixed_str n s u)"
proof -
  let ?r = "of_nat u / 10 ^ n :: rat"
  have "- int n < 0 \<or> n = 0" by auto
  then have mag: "\<bar>dec_rat s u (- int n)\<bar> = ?r" by (auto simp: dec_rat_def abs_mult)
  have k: "pow2 (int k - 54) * 10 ^ n < 1 / 2"
  proof -
    have "(of_nat (2 ^ k * 10 ^ n * 2) :: rat) < of_nat (2 ^ 54)" using assms(2) by (simp only: of_nat_less_iff)
    moreover have "pow2 (int k) = 2 ^ k" "pow2 54 = 2 ^ 54" by (simp_all add: pow2_def)
    ultimately show ?thesis unfolding pow2_diff by simp
  qed
  obtain v where v: "round_mag ?r = Some v" "\<bar>v * 10 ^ n - of_nat u\<bar> < 1 / 2" "0 \<le> v"
  proof (cases "u = 0")
    case True
    then show ?thesis using that [of 0] by (simp add: round_mag_def)
  next
    case False
    have "(of_nat u :: rat) < of_nat (2 ^ k * 10 ^ n)" using assms(1) by (simp only: of_nat_less_iff)
    then have "?r < pow2 (int k)" by (simp add: pow2_def field_simps)
    moreover have "int k < 1023"
    proof -
      have "(2 :: nat) ^ k \<le> 2 ^ k * 10 ^ n * 2" by simp
      then have "(2 :: nat) ^ k < 2 ^ 54" using assms(2) by linarith
      then show ?thesis using power_less_imp_less_exp [of "2 :: nat" k 54] by simp
    qed
    ultimately obtain v where v: "round_mag ?r = Some v" "\<bar>v - ?r\<bar> \<le> pow2 (int k - 54)" "0 \<le> v"
      using round_mag_error [of ?r "int k"] False by auto
    have "\<bar>v * 10 ^ n - of_nat u\<bar> = \<bar>v - ?r\<bar> * 10 ^ n"
      by (subst abs_mult_pos) (simp_all add: left_diff_distrib)
    also have "\<dots> \<le> pow2 (int k - 54) * 10 ^ n" using v(2) by simp
    also note k
    finally show ?thesis using that v by blast
  qed
  then have "rat_rhe (v * 10 ^ n) = u" by (intro rat_rhe_near) auto
  then show ?thesis using v(1) by (simp add: fmt_dec_def mag round_float_def)
qed

text \<open>Amounts below \<^verbatim>\<open>2 ^ 26\<close> coins keep every unit in the text \<^verbatim>\<open>'%.8f'\<close>, times below \<^verbatim>\<open>2 ^ 45\<close> seconds every
  hundredth in the text \<^verbatim>\<open>'%.2f'\<close>.\<close>

lemma fmt_dec_exact: "u < 2 ^ 26 * 10 ^ 8 \<Longrightarrow> fmt_dec 8 (Fin s u (- 8)) = Some (fixed_str 8 s u)"
  using fmt_dec_decimals [of u 26 8] by simp

lemma fmt_dec_exact_two: "u < 2 ^ 45 * 10 ^ 2 \<Longrightarrow> fmt_dec 2 (Fin s u (- 2)) = Some (fixed_str 2 s u)"
  using fmt_dec_decimals [of u 45 2] by simp

section \<open>Evaluation\<close>

text \<open>Powers of two through integers, and the overflow test only where the exponent is large.\<close>

lemma pow2_code [code]: "pow2 e = (if 0 \<le> e then of_int (2 ^ nat e) else inverse (of_int (2 ^ nat (- e))))"
  by (simp add: pow2_def inverse_eq_divide)

lemma pow2_mono_max: "r < pow2 (l + 1) \<Longrightarrow> r < pow2 (max (l + 1) 0)"
  by (rule order.strict_trans2) (auto simp: pow2_def max_def divide_le_eq_1)

lemma round_mag_code [code]:
  "round_mag r = (if r = 0 then Some 0
     else let l = ilog2 r; e = max (l - 52) (- 1074); v = of_nat (rat_rhe (r / pow2 e)) * pow2 e in
          if 0 < r \<and> l < 1000 then Some v else if pow2 1024 \<le> v then None else Some v)"
proof (cases "0 < r \<and> ilog2 r < 1000")
  case True
  then have "r < pow2 (max (ilog2 r + 1) 0)" "- 1021 \<le> max (ilog2 r + 1) 0" "max (ilog2 r + 1) 0 \<le> 1023"
    using pow2_mono_max [OF ilog2_bounds(2)] by auto
  then obtain v where "round_mag r = Some v" using round_mag_error True by metis
  then show ?thesis using True by (auto simp: round_mag_def Let_def split: if_splits)
next
  case False
  then show ?thesis by (auto simp: round_mag_def Let_def)
qed

end
