(* ===== verification/BlockRows.thy ===== *)
theory BlockRows
  imports Floats Serialize KVStore PyDict
begin

text \<open>
  \<^verbatim>\<open>block_store.py\<close>, the module level: ledger rows and their column types, money in atomic units, the
  content transaction id of a row, the keys of the indexes and the fold of a row into balance deltas.
  A row is written with text fields (the digester and the genesis block write strings); the
  reader restores the column types, which \<^verbatim>\<open>tval\<close> holds.
\<close>

datatype pubkey = PubText pystr | PubId nat

record lrow =
  r_h :: nat
  r_ts :: pystr
  r_addr :: pystr
  r_recip :: pystr
  r_amount :: pystr
  r_sig :: pystr
  r_pub :: pubkey
  r_hash :: pystr
  r_fee :: pystr
  r_reward :: pystr
  r_op :: pystr
  r_of :: pystr

datatype tval = TInt int | TFloat pyfloat | TStr pystr

section \<open>Column typing\<close>

text \<open>The two patterns: an optional sign and digits between white space, and a decimal numeral with at least
  one digit and an optional exponent.\<close>

definition unsign :: "pystr \<Rightarrow> pystr" where
  "unsign t = (if t \<noteq> [] \<and> hd t \<in> {43, 45} then tl t else t)"

definition all_digits :: "pystr \<Rightarrow> bool" where
  "all_digits t \<longleftrightarrow> t \<noteq> [] \<and> list_all is_digit t"

definition INT_RE :: "pystr \<Rightarrow> bool" where
  "INT_RE v = all_digits (unsign (py_strip v))"

definition NUM_RE :: "pystr \<Rightarrow> bool" where
  "NUM_RE v =
     (let t = unsign (py_strip v);
          ip = takeWhile is_digit t; r = dropWhile is_digit t;
          point = (r \<noteq> [] \<and> hd r = 46);
          fp = (if point then takeWhile is_digit (tl r) else []);
          r2 = (if point then dropWhile is_digit (tl r) else r)
      in (ip \<noteq> [] \<or> fp \<noteq> []) \<and>
         (r2 = [] \<or> hd r2 \<in> {69, 101} \<and> all_digits (unsign (tl r2))))"

definition I64 :: int where "I64 = 2 ^ 63"

text \<open>A float without fractional part in the range of a 64-bit integer.\<close>

definition float_int :: "pyfloat \<Rightarrow> int option" where
  "float_int f = (case float_val f of
     None \<Rightarrow> None
   | Some q \<Rightarrow> if q = of_int \<lfloor>q\<rfloor> \<and> - I64 \<le> \<lfloor>q\<rfloor> \<and> \<lfloor>q\<rfloor> < I64 then Some \<lfloor>q\<rfloor> else None)"

definition numeric_float :: "pyfloat \<Rightarrow> tval" where
  "numeric_float f = (case float_int f of Some i \<Rightarrow> TInt i | None \<Rightarrow> TFloat f)"

definition numeric :: "tval \<Rightarrow> tval option" where
  "numeric v = (case v of
     TStr s \<Rightarrow>
       if INT_RE s then
         do { i \<leftarrow> py_int s; if - I64 \<le> i \<and> i < I64 then Some (TInt i) else map_option TFloat (int_float i) }
       else if NUM_RE s then map_option numeric_float (float_str s)
       else Some v
   | TFloat f \<Rightarrow> Some (numeric_float f)
   | TInt i \<Rightarrow> Some v)"

text \<open>\<^verbatim>\<open>"%.15g" % f\<close>: fifteen significant digits without trailing zeros.\<close>

definition strip_tail0 :: "pystr \<Rightarrow> pystr" where
  "strip_tail0 s = rev (dropWhile (\<lambda>c. c = 48) (rev s))"

definition dotted :: "pystr \<Rightarrow> pystr \<Rightarrow> pystr" where
  "dotted a b = (let f = strip_tail0 b in if f = [] then a else a @ 46 # f)"

definition g15 :: "bool \<Rightarrow> rat \<Rightarrow> pystr" where
  "g15 s m =
     (let (c, e) = (if m = 0 then (0, 0) else digits_at m 14);
          ds = nat_str c; x = int (length ds) - 1 + e;
          body = (if m = 0 then lit ''0''
                  else if x < - 4 \<or> 15 \<le> x then
                    dotted (take 1 ds) (drop 1 ds) @ 101 # (if x < 0 then [45] else [43]) @ zero_pad 2 (nat \<bar>x\<bar>)
                  else if 0 \<le> x then dotted (take (nat x + 1) ds) (drop (nat x + 1) ds)
                  else dotted (lit ''0'') (replicate (nat (- x - 1)) 48 @ ds))
      in (if s then [45] else []) @ body)"

definition real_text :: "pyfloat \<Rightarrow> pystr" where
  "real_text f = (case f of
     Fl n m \<Rightarrow> (let s = g15 n m in if list_ex (\<lambda>c. c \<in> {46, 101, 69, 110}) s then s else s @ lit ''.0'')
   | FInf n \<Rightarrow> (if n then lit ''-inf'' else lit ''inf'')
   | FNaN \<Rightarrow> lit ''nan'')"

fun text_of :: "tval \<Rightarrow> pystr" where
  "text_of (TStr s) = s"
| "text_of (TFloat f) = real_text f"
| "text_of (TInt i) = int_str i"

fun pub_text :: "pubkey \<Rightarrow> pystr" where
  "pub_text (PubText s) = s"
| "pub_text (PubId n) = nat_str n"

record trow =
  t_h :: tval
  t_time :: tval
  t_sender :: pystr
  t_rcpt :: pystr
  t_amt :: tval
  t_sign :: pystr
  t_pub :: pystr
  t_bhash :: pystr
  t_fee :: tval
  t_reward :: tval
  t_oper :: pystr
  t_open :: pystr

definition typed_row :: "lrow \<Rightarrow> trow option" where
  "typed_row r = do {
     ts \<leftarrow> numeric (TStr (r_ts r));
     am \<leftarrow> numeric (TStr (r_amount r));
     fe \<leftarrow> numeric (TStr (r_fee r));
     rw \<leftarrow> numeric (TStr (r_reward r));
     Some \<lparr>t_h = TInt (int (r_h r)), t_time = ts, t_sender = r_addr r, t_rcpt = r_recip r, t_amt = am,
           t_sign = r_sig r, t_pub = pub_text (r_pub r), t_bhash = r_hash r, t_fee = fe, t_reward = rw,
           t_oper = r_op r, t_open = r_of r\<rparr> }"

section \<open>Money\<close>

text \<open>\<^verbatim>\<open>Decimal(str(v))\<close> and \<^verbatim>\<open>Decimal(v)\<close>.\<close>

fun tval_dec :: "tval \<Rightarrow> decimal option" where
  "tval_dec (TInt i) = Some (Fin (i < 0) (nat \<bar>i\<bar>) 0)"
| "tval_dec (TFloat (Fl s m)) = Some (repr_dec s m)"
| "tval_dec (TFloat (FInf s)) = Some (Inf s)"
| "tval_dec (TFloat FNaN) = Some QNaN"
| "tval_dec (TStr s) = dec_parse s"

fun tval_py :: "tval \<Rightarrow> pyval" where
  "tval_py (TInt i) = PInt i"
| "tval_py (TFloat (Fl s m)) = PFloat (if s then - m else m)"
| "tval_py (TFloat (FInf s)) = PDec (Inf s)"
| "tval_py (TFloat FNaN) = PDec QNaN"
| "tval_py (TStr s) = PStr s"

definition units :: "bool \<Rightarrow> tval \<Rightarrow> int option" where
  "units li v =
     (if v = TStr [] then Some 0
      else if li then do { d \<leftarrow> tval_dec v; dec_int d }
      else to_units (tval_py v))"

definition is_coinbase_row :: "lrow \<Rightarrow> bool" where
  "is_coinbase_row r =
     (r_reward r \<noteq> [] \<and> (case float_str (r_reward r) of Some f \<Rightarrow> \<not> float_zero f | None \<Rightarrow> False))"

definition txid_of :: "hash_ext \<Rightarrow> bool \<Rightarrow> lrow \<Rightarrow> nat option \<Rightarrow> pystr option" where
  "txid_of H li row fork_height = do {
     d \<leftarrow> ledger_value li (PStr (r_amount row));
     amount_str \<leftarrow> fmt_dec 8 d;
     tx_id_at H (r_h row) fork_height (r_ts row) (r_addr row) (r_recip row) amount_str (r_op row) (r_of row) }"

section \<open>Keys\<close>

definition SIG_KEY_LEN :: nat where "SIG_KEY_LEN = 56"
definition ROLE_SENDER :: byte where "ROLE_SENDER = 0"
definition ROLE_RECIPIENT :: byte where "ROLE_RECIPIENT = 1"

definition sh :: "int \<Rightarrow> bytes option" where
  "sh h = to_bytes_be 8 (h + I64)"

definition unsh :: "bytes \<Rightarrow> int" where
  "unsh b = int (be_nat b) - I64"

definition abytes :: "pystr \<Rightarrow> bytes option" where
  "abytes a = map_option (take 255) (utf8_encode a)"

definition addr_prefix :: "byte \<Rightarrow> pystr \<Rightarrow> bytes option" where
  "addr_prefix role a = do { b \<leftarrow> abytes a; Some (role # byte_of (length b) # b) }"

definition addr_key :: "byte \<Rightarrow> pystr \<Rightarrow> int \<Rightarrow> nat \<Rightarrow> bytes option" where
  "addr_key role a h idx = do {
     p \<leftarrow> addr_prefix role a; s \<leftarrow> sh h; i \<leftarrow> to_bytes_be 2 (int idx); Some (p @ s @ i) }"

definition sig_key :: "pystr \<Rightarrow> int \<Rightarrow> nat \<Rightarrow> bytes option" where
  "sig_key sg h idx = do {
     b \<leftarrow> utf8_encode sg; s \<leftarrow> sh h; i \<leftarrow> to_bytes_be 2 (int idx);
     Some (take SIG_KEY_LEN b @ [0] @ s @ i) }"

definition key_tail :: "bytes \<Rightarrow> bytes" where
  "key_tail key = drop (length key - 10) key"

definition split_pos :: "bytes \<Rightarrow> int \<times> nat" where
  "split_pos key = (unsh (take 8 (key_tail key)), be_nat (drop 8 (key_tail key)))"

definition indexable_sig :: "pystr \<Rightarrow> bool" where
  "indexable_sig sg \<longleftrightarrow> sg \<notin> {[], lit ''0'', lit ''None''}"

text \<open>\<^verbatim>\<open>bytes.fromhex(s)\<close>, or the UTF-8 of a text that is not hexadecimal: the key of a block hash and of a txid.\<close>

definition hex_key :: "pystr \<Rightarrow> bytes option" where
  "hex_key s = Option.bind (case fromhex s of Some b \<Rightarrow> Some b | None \<Rightarrow> utf8_encode s) lmdb_key"

section \<open>Balances\<close>

text \<open>Pairs add componentwise, so the four balance parts form a commutative group.\<close>

instantiation prod :: (ab_group_add, ab_group_add) ab_group_add
begin

definition zero_prod_def: "0 = (0, 0)"
definition plus_prod_def: "x + y = (fst x + fst y, snd x + snd y)"
definition uminus_prod_def: "- x = (- fst x, - snd x)"
definition minus_prod_def: "x - y = (fst x - fst y, snd x - snd y)"

instance
  by standard (simp_all add: zero_prod_def plus_prod_def uminus_prod_def minus_prod_def ac_simps)

end

lemmas prod_group_defs = zero_prod_def plus_prod_def uminus_prod_def minus_prod_def

text \<open>Credited amount, rewards, debited amount and fees.\<close>

type_synonym parts = "int \<times> int \<times> int \<times> int"

text \<open>\<^verbatim>\<open>to_bytes\<close> raises OverflowError when a part is outside the signed 128-bit range.\<close>

definition bal_pack :: "parts \<Rightarrow> bytes option" where
  "bal_pack v = (case v of (a, b, c, d) \<Rightarrow> do {
     a' \<leftarrow> to_bytes_le_signed 16 a; b' \<leftarrow> to_bytes_le_signed 16 b;
     c' \<leftarrow> to_bytes_le_signed 16 c; d' \<leftarrow> to_bytes_le_signed 16 d;
     Some (a' @ b' @ c' @ d') })"

definition bal_unpack :: "bytes \<Rightarrow> parts" where
  "bal_unpack b = (from_bytes_le_signed (take 16 b), from_bytes_le_signed (take 16 (drop 16 b)),
     from_bytes_le_signed (take 16 (drop 32 b)), from_bytes_le_signed (take 16 (drop 48 b)))"

definition bump_acc :: "pystr \<Rightarrow> parts \<Rightarrow> (pystr, parts) dict \<Rightarrow> (pystr, parts) dict" where
  "bump_acc a d acc = dict_set a (dict_get acc a 0 + d) acc"

definition fold_row :: "bool \<Rightarrow> int \<Rightarrow> lrow \<Rightarrow> (pystr, parts) dict \<Rightarrow> (pystr, parts) dict option" where
  "fold_row li sign r acc = do {
     amt \<leftarrow> units li (TStr (r_amount r));
     rw \<leftarrow> units li (TStr (r_reward r));
     fee \<leftarrow> units li (TStr (r_fee r));
     Some (bump_acc (r_addr r) (0, 0, sign * amt, sign * fee)
            (bump_acc (r_recip r) (sign * amt, sign * rw, 0, 0) acc)) }"

end
