(* ===== verification/BlockStore.thy ===== *)
theory BlockStore
  imports BlockRows AddrBytes TxRec
begin

text \<open>
  The ledger, \<^verbatim>\<open>class BlockStore\<close> of \<^verbatim>\<open>block_store.py\<close>: the writing operations.  Each sub-database is an ordered
  map from raw keys.  Balances are kept as the packed bytes; heights, block records (msgpack, whose decoder
  returns what its encoder was given) and counters are kept decoded.  A write transaction that raises is None and leaves the
  store as it was.  The parameters are the hash functions \<^verbatim>\<open>H\<close>, the base58 codec \<^verbatim>\<open>X\<close> and the storage mode \<^verbatim>\<open>li\<close>
  (\<^verbatim>\<open>amounts.LEDGER_INTEGER\<close>).
\<close>

datatype stored_hash = HRaw bytes | HText pystr

datatype stored_tx = Blob bytes | Fields "pystr srow"

record stored_block =
  sb_h :: stored_hash
  sb_a :: "bytes list"
  sb_t :: "stored_tx list"

record block_store =
  bs_blocks :: "stored_block kvdb"
  bs_hashes :: "nat kvdb"
  bs_pk :: "nat kvdb"
  bs_pkr :: "bytes kvdb"
  bs_diff :: "pystr kvdb"
  bs_sig :: "unit kvdb"
  bs_addr :: "unit kvdb"
  bs_bal :: "bytes kvdb"
  bs_txid :: "nat kvdb"
  bs_pkref :: "(nat \<times> bytes) kvdb"
  bs_schema :: "int option"
  bs_txcount :: "nat option"
  bs_alloc :: "(pystr, int) dict option"

definition empty_store :: block_store where
  "empty_store = \<lparr>bs_blocks = [], bs_hashes = [], bs_pk = [], bs_pkr = [], bs_diff = [], bs_sig = [],
     bs_addr = [], bs_bal = [], bs_txid = [], bs_pkref = [], bs_schema = None, bs_txcount = None,
     bs_alloc = None\<rparr>"

definition SCHEMA :: int where "SCHEMA = 2"

text \<open>Opening a store for writing stamps the schema of an empty one.\<close>

definition open_store :: "block_store \<Rightarrow> bool \<Rightarrow> block_store" where
  "open_store s readonly =
     (if \<not> readonly \<and> bs_schema s = None \<and> bs_blocks s = [] then s\<lparr>bs_schema := Some SCHEMA\<rparr> else s)"

definition set_schema :: "int \<Rightarrow> block_store \<Rightarrow> block_store" where
  "set_schema v s = s\<lparr>bs_schema := Some v\<rparr>"

section \<open>Body codec\<close>

definition addr_ref ::
  "addr_ext \<Rightarrow> pystr \<Rightarrow> bytes list \<times> (pystr, nat) dict \<Rightarrow> (nat \<times> bytes list \<times> (pystr, nat) dict) option" where
  "addr_ref X a t = (case t of (block_addrs, addr_index) \<Rightarrow>
     (case map_of addr_index a of
        Some j \<Rightarrow> Some (j, t)
      | None \<Rightarrow> do {
          p \<leftarrow> pack_addr X a;
          Some (length block_addrs, block_addrs @ [p], dict_set a (length block_addrs) addr_index) }))"

definition fromhex_or :: "pystr \<Rightarrow> stored_hash" where
  "fromhex_or s = (case fromhex s of Some b \<Rightarrow> HRaw b | None \<Rightarrow> HText s)"

fun bh :: "stored_hash \<Rightarrow> bytes option" where
  "bh (HRaw b) = lmdb_key b"
| "bh (HText s) = hex_key s"

fun hash_text :: "stored_hash \<Rightarrow> pystr" where
  "hash_text (HRaw b) = bytes_hex b"
| "hash_text (HText s) = s"

definition pubkey_id ::
  "hash_ext \<Rightarrow> pystr \<Rightarrow> block_store \<times> (pystr, nat) dict \<Rightarrow> (nat \<times> block_store \<times> (pystr, nat) dict) option" where
  "pubkey_id H pk t = (case t of (s, cache) \<Rightarrow>
     (case map_of cache pk of
        Some i \<Rightarrow> Some (i, t)
      | None \<Rightarrow> do {
          pkb \<leftarrow> utf8_encode pk;
          let hk = blake2b H 32 pkb;
          let n = kv_count (bs_pk s);
          (i, s') \<leftarrow> (case kv_get (bs_pk s) hk of
             Some i \<Rightarrow> Some (i, s)
           | None \<Rightarrow> do {
               _ \<leftarrow> guard_opt (n < 2 ^ 64);
               Some (n, s\<lparr>bs_pk := kv_put (bs_pk s) hk n, bs_pkr := kv_put (bs_pkr s) (hkey n) pkb\<rparr>) });
          Some (i, s', dict_set pk i cache) }))"

text \<open>A stored transaction to the full row: the key text by its id, addresses by the block's table.\<close>

definition with_pub :: "block_store \<Rightarrow> nat \<Rightarrow> pubkey option" where
  "with_pub s i = (case kv_get (bs_pkr s) (hkey i) of
     None \<Rightarrow> Some (PubId i) | Some b \<Rightarrow> map_option PubText (utf8_decode b))"

definition nth_opt :: "'a list \<Rightarrow> nat \<Rightarrow> 'a option" where
  "nth_opt xs i = (if i < length xs then Some (xs ! i) else None)"

definition full_row :: "nat \<Rightarrow> pystr \<Rightarrow> pystr \<Rightarrow> pystr \<Rightarrow> pubkey \<Rightarrow> 'a srow \<Rightarrow> lrow" where
  "full_row height a rc hx p t =
     \<lparr>r_h = height, r_ts = s_ts t, r_addr = a, r_recip = rc, r_amount = s_amount t, r_sig = s_sig t,
      r_pub = p, r_hash = hx, r_fee = s_fee t, r_reward = s_reward t, r_op = s_op t, r_of = s_of t\<rparr>"

definition expand_tx ::
  "bool \<Rightarrow> block_store \<Rightarrow> nat \<Rightarrow> pystr \<Rightarrow> pystr list \<Rightarrow> stored_tx \<Rightarrow> lrow option" where
  "expand_tx li s height hx addr_dict elem = (case elem of
     Blob b \<Rightarrow> do {
       t \<leftarrow> unpack_row li b;
       a \<leftarrow> nth_opt addr_dict (s_addr t);
       rc \<leftarrow> nth_opt addr_dict (s_recip t);
       p \<leftarrow> with_pub s (s_pk t);
       Some (full_row height a rc hx p t) }
   | Fields t \<Rightarrow> do {
       p \<leftarrow> with_pub s (s_pk t);
       Some (full_row height (s_addr t) (s_recip t) (case s_bh t of Some x \<Rightarrow> x | None \<Rightarrow> lit ''None'') p t) })"

definition expand :: "bool \<Rightarrow> addr_ext \<Rightarrow> block_store \<Rightarrow> nat \<Rightarrow> stored_block \<Rightarrow> lrow list option" where
  "expand li X s height rec = do {
     addr_dict \<leftarrow> mapM_opt (unpack_addr X) (sb_a rec);
     mapM_opt (expand_tx li s height (hash_text (sb_h rec)) addr_dict) (sb_t rec) }"

text \<open>\<^verbatim>\<open>_raw_block\<close>: no such block is None inside the result.\<close>

definition raw_block :: "bool \<Rightarrow> addr_ext \<Rightarrow> block_store \<Rightarrow> nat \<Rightarrow> lrow list option option" where
  "raw_block li X s height = (case kv_get (bs_blocks s) (hkey height) of
     None \<Rightarrow> Some None | Some rec \<Rightarrow> map_option Some (expand li X s height rec))"

text \<open>The eleven stored fields of a row, with the id of its public key.\<close>

definition body_fields :: "lrow \<Rightarrow> nat \<Rightarrow> pystr srow" where
  "body_fields r i =
     \<lparr>s_ts = r_ts r, s_addr = r_addr r, s_recip = r_recip r, s_amount = r_amount r, s_sig = r_sig r, s_pk = i,
      s_bh = Some (r_hash r), s_fee = r_fee r, s_reward = r_reward r, s_op = r_op r, s_of = r_of r\<rparr>"

record body_state =
  b_store :: block_store
  b_cache :: "(pystr, nat) dict"
  b_txs :: "stored_tx list"
  b_addrs :: "bytes list"
  b_index :: "(pystr, nat) dict"

definition put_body_row ::
  "bool \<Rightarrow> hash_ext \<Rightarrow> addr_ext \<Rightarrow> bool \<Rightarrow> lrow \<Rightarrow> body_state \<Rightarrow> body_state option" where
  "put_body_row li H X post_fork r b = (case r_pub r of
     PubId _ \<Rightarrow> None
   | PubText pk \<Rightarrow> do {
       (i, s, cache) \<leftarrow> pubkey_id H pk (b_store b, b_cache b);
       let t = body_fields r i;
       if post_fork then do {
         (ai, addrs1, ix1) \<leftarrow> addr_ref X (r_addr r) (b_addrs b, b_index b);
         (ri, addrs2, ix2) \<leftarrow> addr_ref X (r_recip r) (addrs1, ix1);
         blob \<leftarrow> pack_row li X t ai ri;
         Some \<lparr>b_store = s, b_cache = cache, b_txs = b_txs b @ [Blob blob], b_addrs = addrs2, b_index = ix2\<rparr> }
       else Some (b\<lparr>b_store := s, b_cache := cache, b_txs := b_txs b @ [Fields t]\<rparr>) })"

definition put_body ::
  "bool \<Rightarrow> hash_ext \<Rightarrow> addr_ext \<Rightarrow> nat \<Rightarrow> pystr \<Rightarrow> lrow list \<Rightarrow> nat option \<Rightarrow> block_store \<Rightarrow> block_store option" where
  "put_body li H X height bhash rows fork_height s = do {
     let post_fork = at_fork height fork_height;
     b \<leftarrow> foldM_opt (put_body_row li H X post_fork)
            rows \<lparr>b_store = s, b_cache = [], b_txs = [], b_addrs = [], b_index = []\<rparr>;
     let rec = (if post_fork then \<lparr>sb_h = fromhex_or bhash, sb_a = b_addrs b, sb_t = b_txs b\<rparr>
                else \<lparr>sb_h = HText bhash, sb_a = [], sb_t = b_txs b\<rparr>);
     _ \<leftarrow> guard_opt (height < 2 ^ 64);
     k \<leftarrow> hex_key bhash;
     Some ((b_store b)\<lparr>bs_blocks := kv_put (bs_blocks (b_store b)) (hkey height) rec,
                       bs_hashes := kv_put (bs_hashes (b_store b)) k height\<rparr>) }"

section \<open>Index maintenance\<close>

definition set_entry :: "bool \<Rightarrow> 'v kvdb \<Rightarrow> bytes \<Rightarrow> 'v \<Rightarrow> 'v kvdb" where
  "set_entry del db k v = (if del then kv_delete db k else kv_put db k v)"

definition index_row ::
  "bool \<Rightarrow> hash_ext \<Rightarrow> nat \<Rightarrow> nat option \<Rightarrow> bool \<Rightarrow> nat \<times> lrow \<Rightarrow> block_store \<times> (pystr, parts) dict
     \<Rightarrow> (block_store \<times> (pystr, parts) dict) option" where
  "index_row li H height fork_height del ir sa = (case ir of (idx, r) \<Rightarrow> case sa of (s, acc) \<Rightarrow> do {
     s1 \<leftarrow> (if indexable_sig (r_sig r)
            then do { k \<leftarrow> sig_key (r_sig r) (int height) idx; Some (s\<lparr>bs_sig := set_entry del (bs_sig s) k ()\<rparr>) }
            else Some s);
     ks \<leftarrow> addr_key ROLE_SENDER (r_addr r) (int height) idx;
     kr \<leftarrow> addr_key ROLE_RECIPIENT (r_recip r) (int height) idx;
     let s2 = s1\<lparr>bs_addr := set_entry del (set_entry del (bs_addr s1) ks ()) kr ()\<rparr>;
     acc' \<leftarrow> fold_row li (if del then - 1 else 1) r acc;
     s3 \<leftarrow> (if at_fork height fork_height
            then do { x \<leftarrow> txid_of H li r fork_height; k \<leftarrow> hex_key x;
                      Some (s2\<lparr>bs_txid := set_entry del (bs_txid s2) k height\<rparr>) }
            else Some s2);
     Some (s3, acc') })"

definition register_pubkey :: "nat \<Rightarrow> lrow \<Rightarrow> block_store \<Rightarrow> block_store option" where
  "register_pubkey height r s =
     (if is_coinbase_row r then Some s
      else case r_pub r of
        PubId n \<Rightarrow>
          if n = 0 then Some s
          else do { k \<leftarrow> Option.bind (abytes (r_addr r)) lmdb_key;
                    Some (if kv_get (bs_pkref s) k = None
                          then s\<lparr>bs_pkref := kv_put (bs_pkref s) k (height, replicate n 0)\<rparr> else s) }
      | PubText pub \<Rightarrow>
          if py_strip pub = [] then Some s
          else do {
            k \<leftarrow> Option.bind (abytes (r_addr r)) lmdb_key;
            if kv_get (bs_pkref s) k \<noteq> None then Some s
            else do { pb \<leftarrow> utf8_encode pub; Some (s\<lparr>bs_pkref := kv_put (bs_pkref s) k (height, pb)\<rparr>) } })"

definition index_rows ::
  "bool \<Rightarrow> hash_ext \<Rightarrow> nat \<Rightarrow> lrow list \<Rightarrow> nat option \<Rightarrow> bool \<Rightarrow> block_store \<times> (pystr, parts) dict
     \<Rightarrow> (block_store \<times> (pystr, parts) dict) option" where
  "index_rows li H height rows fork_height del sa = do {
     (s, acc) \<leftarrow> foldM_opt (index_row li H height fork_height del) (enumerate 0 rows) sa;
     s' \<leftarrow> (if at_fork height fork_height \<and> \<not> del then foldM_opt (register_pubkey height) rows s else Some s);
     Some (s', acc) }"

definition apply_balance :: "pystr \<times> parts \<Rightarrow> bytes kvdb \<Rightarrow> bytes kvdb option" where
  "apply_balance e db = (case e of (a, d) \<Rightarrow>
     if d = 0 then Some db
     else do {
       k \<leftarrow> Option.bind (abytes a) lmdb_key;
       let cur = (case kv_get db k of Some v \<Rightarrow> bal_unpack v | None \<Rightarrow> 0);
       let new = cur + d;
       if new = 0 then Some (kv_delete db k)
       else do { v \<leftarrow> bal_pack new; Some (kv_put db k v) } })"

definition apply_balances :: "(pystr, parts) dict \<Rightarrow> block_store \<Rightarrow> block_store option" where
  "apply_balances acc s = do { db \<leftarrow> foldM_opt apply_balance acc (bs_bal s); Some (s\<lparr>bs_bal := db\<rparr>) }"

definition bump_txcount :: "int \<Rightarrow> block_store \<Rightarrow> block_store" where
  "bump_txcount delta s =
     s\<lparr>bs_txcount := Some (nat ((case bs_txcount s of Some n \<Rightarrow> int n | None \<Rightarrow> 0) + delta))\<rparr>"

definition tip_in :: "'v kvdb \<Rightarrow> nat option" where
  "tip_in db = (case kv_range db None None True of [] \<Rightarrow> None | (k, _) # _ \<Rightarrow> Some (unhkey k))"

section \<open>Writing\<close>

definition commit_block ::
  "bool \<Rightarrow> hash_ext \<Rightarrow> addr_ext \<Rightarrow> nat \<Rightarrow> pystr \<Rightarrow> lrow list \<Rightarrow> tval option \<Rightarrow> nat option
     \<Rightarrow> block_store \<Rightarrow> block_store option" where
  "commit_block li H X height bhash rows difficulty fork_height s = do {
     _ \<leftarrow> (case tip_in (bs_blocks s) of None \<Rightarrow> Some () | Some tip \<Rightarrow> guard_opt (height = tip + 1));
     s1 \<leftarrow> put_body li H X height bhash rows fork_height s;
     let s2 = (case difficulty of None \<Rightarrow> s1
        | Some d \<Rightarrow> s1\<lparr>bs_diff := kv_put (bs_diff s1) (hkey height) (text_of d)\<rparr>);
     (s3, acc) \<leftarrow> index_rows li H height rows fork_height False (s2, []);
     s4 \<leftarrow> apply_balances acc s3;
     Some (bump_txcount (int (length rows)) s4) }"

definition drop_block ::
  "bool \<Rightarrow> hash_ext \<Rightarrow> addr_ext \<Rightarrow> nat option \<Rightarrow> nat \<Rightarrow> block_store \<times> (pystr, parts) dict \<times> trow list
     \<Rightarrow> (block_store \<times> (pystr, parts) dict \<times> trow list) option" where
  "drop_block li H X fork_height h t = (case t of (s, acc, removed) \<Rightarrow> do {
     rr \<leftarrow> raw_block li X s h;
     rows \<leftarrow> rr;
     (s1, acc1) \<leftarrow> index_rows li H h rows fork_height True (s, acc);
     rec \<leftarrow> kv_get (bs_blocks s1) (hkey h);
     k \<leftarrow> bh (sb_h rec);
     let s2 = s1\<lparr>bs_hashes := kv_delete (bs_hashes s1) k, bs_blocks := kv_delete (bs_blocks s1) (hkey h),
                 bs_diff := kv_delete (bs_diff s1) (hkey h)\<rparr>;
     ts \<leftarrow> mapM_opt typed_row rows;
     Some (bump_txcount (- int (length rows)) s2, acc1, ts @ removed) })"

definition sweep :: "int \<Rightarrow> block_store \<Rightarrow> block_store" where
  "sweep to_height s =
     s\<lparr>bs_pkref := fold (\<lambda>e db. kv_delete db (fst e))
         (filter (\<lambda>e. to_height < int (fst (snd e))) (kv_iterate (bs_pkref s) [])) (bs_pkref s),
       bs_txid := fold (\<lambda>e db. kv_delete db (fst e))
         (filter (\<lambda>e. to_height < int (snd e)) (kv_iterate (bs_txid s) [])) (bs_txid s)\<rparr>"

definition rollback ::
  "bool \<Rightarrow> hash_ext \<Rightarrow> addr_ext \<Rightarrow> int \<Rightarrow> nat option \<Rightarrow> block_store \<Rightarrow> (trow list \<times> block_store) option" where
  "rollback li H X to_height fork_height s = do {
     start \<leftarrow> to_bytes_be 8 (to_height + 1);
     let heights = map (\<lambda>e. unhkey (fst e)) (kv_range (bs_blocks s) (Some start) None False);
     (s1, acc, removed) \<leftarrow> foldM_opt (drop_block li H X fork_height) (rev heights) (s, [], []);
     s2 \<leftarrow> apply_balances acc s1;
     Some (removed, if heights \<noteq> [] then sweep to_height s2 else s2) }"

definition put_difficulties :: "(nat \<times> tval) list \<Rightarrow> block_store \<Rightarrow> block_store" where
  "put_difficulties items s =
     s\<lparr>bs_diff := fold (\<lambda>(h, d) db. kv_put db (hkey h) (text_of d)) items (bs_diff s)\<rparr>"

definition allocations :: "block_store \<Rightarrow> (pystr, int) dict" where
  "allocations s = (case bs_alloc s of None \<Rightarrow> [] | Some d \<Rightarrow> d)"

text \<open>\<^verbatim>\<open>set(old) | set(alloc)\<close> has no order; the deltas of distinct addresses are applied in the order of the keys.\<close>

definition set_allocations :: "(pystr, int) dict \<Rightarrow> block_store \<Rightarrow> block_store option" where
  "set_allocations alloc s = do {
     let old = allocations s;
     let keys = remdups (map fst old @ map fst alloc);
     let acc = filter (\<lambda>e. snd e \<noteq> 0)
       (map (\<lambda>a. (a, (0, dict_get alloc a 0 - dict_get old a 0, 0, 0))) keys);
     s' \<leftarrow> apply_balances acc s;
     Some (s'\<lparr>bs_alloc := Some alloc\<rparr>) }"

text \<open>\<^verbatim>\<open>reindex\<close>: the derived indexes are dropped and rebuilt from the blocks in ascending order, in batches of
  consecutive heights; a batch is a transaction of its own but the scan continues where it stopped.  With an
  empty batch the loop of the source never ends, which is None.\<close>

definition reindex_block ::
  "bool \<Rightarrow> hash_ext \<Rightarrow> addr_ext \<Rightarrow> nat option \<Rightarrow> bytes \<times> stored_block \<Rightarrow> block_store \<times> (pystr, parts) dict \<times> nat
     \<Rightarrow> (block_store \<times> (pystr, parts) dict \<times> nat) option" where
  "reindex_block li H X fork_height e t = (case t of (s, acc, ntx) \<Rightarrow> do {
     let h = unhkey (fst e);
     rows \<leftarrow> expand li X s h (snd e);
     (s', acc') \<leftarrow> index_rows li H h rows fork_height False (s, acc);
     Some (s', acc', ntx + length rows) })"

definition credit_alloc :: "pystr \<times> int \<Rightarrow> (pystr, parts) dict \<Rightarrow> (pystr, parts) dict" where
  "credit_alloc e acc = bump_acc (fst e) (0, snd e, 0, 0) acc"

definition drop_indexes :: "block_store \<Rightarrow> block_store" where
  "drop_indexes s = s\<lparr>bs_sig := kv_drop (bs_sig s), bs_addr := kv_drop (bs_addr s), bs_bal := kv_drop (bs_bal s),
     bs_txid := kv_drop (bs_txid s), bs_pkref := kv_drop (bs_pkref s), bs_txcount := None\<rparr>"

function reindex_batches ::
  "bool \<Rightarrow> hash_ext \<Rightarrow> addr_ext \<Rightarrow> nat option \<Rightarrow> nat \<Rightarrow> nat \<Rightarrow> nat \<Rightarrow> block_store \<times> (pystr, parts) dict \<times> nat
     \<Rightarrow> (block_store \<times> (pystr, parts) dict \<times> nat) option" where
  "reindex_batches li H X fork_height batch tip h t =
     (if h \<le> tip then
        let hi = min tip (h + batch - 1) in
        if batch = 0 then None
        else do { t' \<leftarrow> foldM_opt (reindex_block li H X fork_height)
                   (kv_range (bs_blocks (fst t)) (Some (hkey h)) (Some (hkey (hi + 1))) False) t;
             reindex_batches li H X fork_height batch tip (hi + 1) t' }
      else Some t)"
  by pat_completeness auto
termination
  by (relation "measure (\<lambda>(_, _, _, _, batch, tip, h, _). Suc tip - h)") auto

definition reindex ::
  "bool \<Rightarrow> hash_ext \<Rightarrow> addr_ext \<Rightarrow> nat option \<Rightarrow> nat \<Rightarrow> block_store \<Rightarrow> (nat \<times> block_store) option" where
  "reindex li H X fork_height batch s = do {
     let s0 = drop_indexes s;
     let tip = (case tip_in (bs_blocks s0) of Some t \<Rightarrow> t | None \<Rightarrow> 0);
     (s1, acc, ntx) \<leftarrow> reindex_batches li H X fork_height batch tip 1 (s0, [], 0);
     s2 \<leftarrow> apply_balances (fold credit_alloc (allocations s1) acc) s1;
     Some (ntx, s2\<lparr>bs_txcount := Some ntx\<rparr>) }"

declare reindex_batches.simps [simp del]

end
