(* ===== verification/LedgerBody.thy ===== *)
theory LedgerBody
  imports BlockStore
begin

text \<open>
  The bodies of stored blocks: the table of public keys, the address table of a block, and that the rows a
  block is committed with are read back from the store, before the fork verbatim and after it with money and
  time in canonical text.
\<close>

section \<open>The table of public keys\<close>

text \<open>Every id below the size of the table names one key, which hashes to the entry of its id; the keys lie in
  a set \<^verbatim>\<open>K\<close> on which the hash does not collide.\<close>

definition pk_inv :: "hash_ext \<Rightarrow> bytes set \<Rightarrow> block_store \<Rightarrow> bool" where
  "pk_inv H K s \<longleftrightarrow> kv_ok (bs_pk s) \<and> kv_ok (bs_pkr s) \<and> kv_count (bs_pk s) \<le> 2 ^ 64 \<and>
     (\<forall>hk i. kv_get (bs_pk s) hk = Some i \<longrightarrow>
        i < kv_count (bs_pk s) \<and> (\<exists>b \<in> K. kv_get (bs_pkr s) (hkey i) = Some b \<and> blake2b H 32 b = hk)) \<and>
     (\<forall>i. kv_count (bs_pk s) \<le> i \<longrightarrow> i < 2 ^ 64 \<longrightarrow> kv_get (bs_pkr s) (hkey i) = None)"

definition pk_ext :: "block_store \<Rightarrow> block_store \<Rightarrow> bool" where
  "pk_ext s t \<longleftrightarrow> kv_get (bs_pkr s) \<subseteq>\<^sub>m kv_get (bs_pkr t) \<and> t = s\<lparr>bs_pk := bs_pk t, bs_pkr := bs_pkr t\<rparr>"

lemma pk_ext_refl [simp]: "pk_ext s s"
  by (simp add: pk_ext_def)

lemma pk_ext_trans: "pk_ext s t \<Longrightarrow> pk_ext t u \<Longrightarrow> pk_ext s u"
  unfolding pk_ext_def by (cases s; cases t; cases u) (auto intro: map_le_trans)

lemma with_pub_mono:
  "kv_get (bs_pkr s) \<subseteq>\<^sub>m kv_get (bs_pkr t) \<Longrightarrow> with_pub s i = Some (PubText p) \<Longrightarrow> with_pub t i = Some (PubText p)"
  by (auto simp: with_pub_def map_le_def dom_def split: option.splits)

lemma length_kv_put: "kv_get db k = None \<Longrightarrow> length (kv_put db k v) = Suc (length db)"
  by (induction db k v rule: kv_put.induct) (auto simp: kv_get_def split: if_splits)

lemma with_pub_get: "kv_get (bs_pkr s) (hkey i) = Some b \<Longrightarrow> utf8_encode p = Some b \<Longrightarrow> with_pub s i = Some (PubText p)"
  by (simp add: with_pub_def utf8_decode_encode)

lemma pk_inv_insert:
  assumes inv: "pk_inv H K s" and new: "kv_get (bs_pk s) hk = None" and b: "b \<in> K" "blake2b H 32 b = hk"
    and n: "n = kv_count (bs_pk s)" "n < 2 ^ 64"
  defines "t \<equiv> s\<lparr>bs_pk := kv_put (bs_pk s) hk n, bs_pkr := kv_put (bs_pkr s) (hkey n) b\<rparr>"
  shows "pk_inv H K t" and "pk_ext s t" and "kv_get (bs_pkr t) (hkey n) = Some b"
proof -
  have ok: "kv_ok (bs_pk s)" "kv_ok (bs_pkr s)" using inv by (simp_all add: pk_inv_def)
  have cnt: "kv_count (bs_pk t) = Suc n" using new by (simp add: t_def n kv_count_def length_kv_put)
  have gpk: "kv_get (bs_pk t) = (kv_get (bs_pk s))(hk \<mapsto> n)"
    using ok by (auto simp: t_def kv_get_put)
  have gpkr: "kv_get (bs_pkr t) = (kv_get (bs_pkr s))(hkey n \<mapsto> b)"
    using ok by (auto simp: t_def kv_get_put)
  have none: "kv_get (bs_pkr s) (hkey i) = None" if "n \<le> i" "i < 2 ^ 64" for i
    using inv that n by (auto simp: pk_inv_def)
  show "kv_get (bs_pkr t) (hkey n) = Some b" by (simp add: gpkr)
  show "pk_ext s t" using none [of n] n(2) by (auto simp: pk_ext_def gpkr map_le_def dom_def) (simp add: t_def)
  have "i < Suc n \<and> (\<exists>x \<in> K. kv_get (bs_pkr t) (hkey i) = Some x \<and> blake2b H 32 x = k)"
    if k: "kv_get (bs_pk t) k = Some i" for k i
  proof (cases "k = hk")
    case False
    then have "i < n" and "\<exists>x \<in> K. kv_get (bs_pkr s) (hkey i) = Some x \<and> blake2b H 32 x = k"
      using k inv n by (auto simp: gpk pk_inv_def)
    moreover from this have "hkey i \<noteq> hkey n" using n(2) by (simp add: hkey_inject)
    ultimately show ?thesis by (simp add: gpkr)
  qed (use k b in \<open>auto simp: gpk gpkr\<close>)
  moreover have "kv_get (bs_pkr t) (hkey i) = None" if "Suc n \<le> i" "i < 2 ^ 64" for i
    using none [of i] that n(2) by (simp add: gpkr hkey_inject)
  ultimately show "pk_inv H K t"
    using ok n cnt by (simp add: pk_inv_def) (simp add: t_def kv_ok_put)
qed

definition cache_ok :: "block_store \<Rightarrow> (pystr, nat) dict \<Rightarrow> bool" where
  "cache_ok s cache \<longleftrightarrow> (\<forall>p i. map_of cache p = Some i \<longrightarrow> with_pub s i = Some (PubText p))"

lemma pubkey_id_step:
  assumes call: "pubkey_id H pk (s, cache) = Some (i, t, cache')"
    and inv: "pk_inv H K s" and cache: "cache_ok s cache" and b: "utf8_encode pk = Some b" "b \<in> K"
    and inj: "inj_on (blake2b H 32) K"
  shows "pk_inv H K t" and "pk_ext s t" and "with_pub t i = Some (PubText pk)" and "cache_ok t cache'"
proof -
  have "pk_inv H K t \<and> pk_ext s t \<and> with_pub t i = Some (PubText pk) \<and> cache_ok t cache'"
  proof (cases "map_of cache pk")
    case (Some j)
    then show ?thesis using call inv cache by (auto simp: pubkey_id_def cache_ok_def)
  next
    case None
    let ?hk = "blake2b H 32 b" and ?n = "kv_count (bs_pk s)"
    have c: "cache' = AList.update pk i cache" using call None b by (auto simp: pubkey_id_def Let_def elim!: bind_SomeE)
    have main: "pk_inv H K t \<and> pk_ext s t \<and> with_pub t i = Some (PubText pk)"
    proof (cases "kv_get (bs_pk s) ?hk")
      case (Some j)
      then have t: "t = s" "i = j" using call None b by (auto simp: pubkey_id_def Let_def)
      obtain x where x: "x \<in> K" "kv_get (bs_pkr s) (hkey j) = Some x" "blake2b H 32 x = ?hk"
        using inv Some unfolding pk_inv_def by blast
      then have "x = b" using inj b(2) by (auto dest: inj_onD)
      then show ?thesis using inv x(2) b(1) by (simp add: t with_pub_get)
    next
      case n: None
      then have t: "t = s\<lparr>bs_pk := kv_put (bs_pk s) ?hk ?n, bs_pkr := kv_put (bs_pkr s) (hkey ?n) b\<rparr>"
          "i = ?n" "?n < 2 ^ 64"
        using call None b by (auto simp: pubkey_id_def Let_def split: if_splits)
      note ins = pk_inv_insert [OF inv n b(2) refl refl t(3)]
      show ?thesis using ins b(1) by (simp add: t with_pub_get)
    qed
    then have "cache_ok t cache'"
      using cache with_pub_mono [of s t] by (auto simp: cache_ok_def c update_conv' pk_ext_def)
    then show ?thesis using main by simp
  qed
  then show "pk_inv H K t" "pk_ext s t" "with_pub t i = Some (PubText pk)" "cache_ok t cache'" by simp_all
qed


section \<open>The address table of a block\<close>

definition addr_table :: "addr_ext \<Rightarrow> bytes list \<Rightarrow> (pystr, nat) dict \<Rightarrow> pystr list \<Rightarrow> bool" where
  "addr_table X addrs ix dict \<longleftrightarrow> mapM_opt (unpack_addr X) addrs = Some dict \<and>
     (\<forall>a j. map_of ix a = Some j \<longrightarrow> nth_opt dict j = Some a)"

lemma nth_opt_append: "nth_opt xs i = Some x \<Longrightarrow> nth_opt (xs @ ys) i = Some x"
  by (auto simp: nth_opt_def nth_append split: if_splits)

lemma addr_ref_step:
  assumes "addr_ref X a (addrs, ix) = Some (j, addrs', ix')" and "addr_table X addrs ix dict"
  obtains d where "addr_table X addrs' ix' (dict @ d)" and "nth_opt (dict @ d) j = Some a"
proof (cases "map_of ix a")
  case (Some i)
  then show ?thesis using assms that [of "[]"] by (auto simp: addr_ref_def addr_table_def)
next
  case None
  then obtain p where p: "pack_addr X a = Some p" "j = length addrs" "addrs' = addrs @ [p]"
      "ix' = AList.update a (length addrs) ix"
    using assms(1) by (auto simp: addr_ref_def elim!: bind_SomeE)
  have len: "length dict = length addrs" using assms(2) mapM_opt_length by (auto simp: addr_table_def)
  have "nth_opt (dict @ [a]) (length addrs) = Some a" using len by (simp add: nth_opt_def nth_append)
  moreover have "addr_table X addrs' ix' (dict @ [a])"
    using assms(2) p(1) calculation
    by (auto simp: addr_table_def p(3,4) mapM_opt_append unpack_pack_addr update_conv' nth_opt_append split: if_splits)
  ultimately show ?thesis using that p(2) by blast
qed

section \<open>Reading rows back\<close>

text \<open>A row as it is read back.\<close>

definition stored_form :: "bool \<Rightarrow> bool \<Rightarrow> nat \<Rightarrow> pystr \<Rightarrow> lrow \<Rightarrow> lrow" where
  "stored_form li pf h hx r =
     (if pf then r\<lparr>r_h := h, r_ts := canon_ts (r_ts r), r_amount := canon_num li (r_amount r), r_hash := hx,
                  r_fee := canon_num li (r_fee r), r_reward := canon_num li (r_reward r)\<rparr>
      else r\<lparr>r_h := h\<rparr>)"

lemma expand_tx_mono:
  assumes "expand_tx li s h hx d e = Some r" and "r_pub r = PubText p"
    and "kv_get (bs_pkr s) \<subseteq>\<^sub>m kv_get (bs_pkr t)"
  shows "expand_tx li t h hx (d @ d') e = Some r"
proof (cases e)
  case (Blob b)
  then obtain x a rc q where x: "unpack_row li b = Some x" "nth_opt d (s_addr x) = Some a"
      "nth_opt d (s_recip x) = Some rc" "with_pub s (s_pk x) = Some q" "r = full_row h a rc hx q x"
    using assms(1) by (auto simp: expand_tx_def elim!: bind_SomeE)
  then have "q = PubText p" using assms(2) by (simp add: full_row_def)
  then show ?thesis using x with_pub_mono [OF assms(3)] by (simp add: expand_tx_def Blob nth_opt_append)
next
  case (Fields x)
  then obtain q where q: "with_pub s (s_pk x) = Some q"
      "r = full_row h (s_addr x) (s_recip x) (case s_bh x of Some y \<Rightarrow> y | None \<Rightarrow> lit ''None'') q x"
    using assms(1) by (auto simp: expand_tx_def elim!: bind_SomeE)
  then have "q = PubText p" using assms(2) by (simp add: full_row_def)
  then show ?thesis using q with_pub_mono [OF assms(3)] by (simp add: expand_tx_def Fields)
qed

definition texts :: "lrow list \<Rightarrow> bool" where
  "texts rows \<longleftrightarrow> (\<forall>r \<in> set rows. \<exists>p. r_pub r = PubText p)"

lemma expand_txs_mono:
  assumes "mapM_opt (expand_tx li s h hx d) es = Some rows" and "texts rows"
    and "kv_get (bs_pkr s) \<subseteq>\<^sub>m kv_get (bs_pkr t)"
  shows "mapM_opt (expand_tx li t h hx (d @ d')) es = Some rows"
  using assms(1,2)
proof (induction es arbitrary: rows)
  case (Cons e es)
  then obtain r rs where "expand_tx li s h hx d e = Some r" "mapM_opt (expand_tx li s h hx d) es = Some rs"
    "rows = r # rs" by (auto elim!: bind_SomeE)
  then show ?case using Cons.IH [of rs] Cons.prems(2) expand_tx_mono [OF _ _ assms(3)] by (auto simp: texts_def)
qed simp

lemma expand_mono:
  assumes "expand li X s h rec = Some rows" and "texts rows" and "kv_get (bs_pkr s) \<subseteq>\<^sub>m kv_get (bs_pkr t)"
  shows "expand li X t h rec = Some rows"
  using assms(1) expand_txs_mono [OF _ assms(2,3), where d' = "[]"]
  by (auto simp: expand_def elim!: bind_SomeE)

definition row_keys :: "bytes set \<Rightarrow> lrow list \<Rightarrow> bool" where
  "row_keys K rows \<longleftrightarrow> (\<forall>r \<in> set rows. \<exists>p. r_pub r = PubText p \<and> (\<forall>b. utf8_encode p = Some b \<longrightarrow> b \<in> K))"

lemma row_keys_texts: "row_keys K rows \<Longrightarrow> texts rows"
  by (auto simp: row_keys_def texts_def)

definition body_inv ::
  "bool \<Rightarrow> hash_ext \<Rightarrow> addr_ext \<Rightarrow> bytes set \<Rightarrow> bool \<Rightarrow> nat \<Rightarrow> pystr \<Rightarrow> block_store \<Rightarrow> lrow list \<Rightarrow> body_state \<Rightarrow> bool" where
  "body_inv li H X K pf h hx s rows b \<longleftrightarrow>
     pk_inv H K (b_store b) \<and> pk_ext s (b_store b) \<and> cache_ok (b_store b) (b_cache b) \<and>
     (\<not> pf \<longrightarrow> b_addrs b = []) \<and>
     (\<exists>dict. addr_table X (b_addrs b) (b_index b) dict \<and>
        mapM_opt (expand_tx li (b_store b) h hx dict) (b_txs b) = Some (map (stored_form li pf h hx) rows))"

lemma texts_stored: "texts rows \<Longrightarrow> texts (map (stored_form li pf h hx) rows)"
  by (auto simp: texts_def stored_form_def)

lemma put_body_row_step:
  assumes call: "put_body_row li H X pf r b = Some b'" and inv: "body_inv li H X K pf h hx s rows b"
    and inj: "inj_on (blake2b H 32) K" and keys: "row_keys K (rows @ [r])"
  shows "body_inv li H X K pf h hx s (rows @ [r]) b'"
proof -
  obtain dict where T: "addr_table X (b_addrs b) (b_index b) dict"
      and E: "mapM_opt (expand_tx li (b_store b) h hx dict) (b_txs b) = Some (map (stored_form li pf h hx) rows)"
    using inv by (auto simp: body_inv_def)
  obtain pk where pk: "r_pub r = PubText pk" "\<And>x. utf8_encode pk = Some x \<Longrightarrow> x \<in> K"
    using keys by (auto simp: row_keys_def)
  obtain i t cache where pid: "pubkey_id H pk (b_store b, b_cache b) = Some (i, t, cache)"
    using call by (auto simp: put_body_row_def pk(1) elim!: bind_SomeE)
  have wp: "pk_inv H K t \<and> pk_ext (b_store b) t \<and> with_pub t i = Some (PubText pk) \<and> cache_ok t cache"
  proof (cases "map_of (b_cache b) pk")
    case (Some j)
    then show ?thesis using pid inv by (auto simp: pubkey_id_def body_inv_def cache_ok_def)
  next
    case None
    then obtain x where x: "utf8_encode pk = Some x" using pid by (auto simp: pubkey_id_def elim!: bind_SomeE)
    show ?thesis using pubkey_id_step [OF pid _ _ x pk(2) [OF x] inj] inv by (simp add: body_inv_def)
  qed
  have sub: "kv_get (bs_pkr (b_store b)) \<subseteq>\<^sub>m kv_get (bs_pkr t)" using wp unfolding pk_ext_def by blast
  have ext: "pk_ext s t" using wp inv pk_ext_trans unfolding body_inv_def by blast
  have tx: "texts (map (stored_form li pf h hx) rows)"
    using keys by (auto simp: row_keys_def texts_def stored_form_def)
  have "\<exists>d. addr_table X (b_addrs b') (b_index b') (dict @ d) \<and> b_store b' = t \<and> b_cache b' = cache \<and>
      (\<not> pf \<longrightarrow> b_addrs b' = []) \<and> (\<exists>e. b_txs b' = b_txs b @ [e] \<and> expand_tx li t h hx (dict @ d) e = Some (stored_form li pf h hx r))"
  proof (cases pf)
    case True
    then obtain ai a1 x1 ri a2 x2 blob where c: "addr_ref X (r_addr r) (b_addrs b, b_index b) = Some (ai, a1, x1)"
        "addr_ref X (r_recip r) (a1, x1) = Some (ri, a2, x2)" "pack_row li X (body_fields r i) ai ri = Some blob"
        "b' = \<lparr>b_store = t, b_cache = cache, b_txs = b_txs b @ [Blob blob], b_addrs = a2, b_index = x2\<rparr>"
      using call by (auto simp: put_body_row_def pk(1) pid Let_def elim!: bind_SomeE)
    obtain d1 where d1: "addr_table X a1 x1 (dict @ d1)" "nth_opt (dict @ d1) ai = Some (r_addr r)"
      using addr_ref_step [OF c(1) T] .
    obtain d2 where d2: "addr_table X a2 x2 ((dict @ d1) @ d2)" "nth_opt ((dict @ d1) @ d2) ri = Some (r_recip r)"
      using addr_ref_step [OF c(2) d1(1)] .
    have "expand_tx li t h hx ((dict @ d1) @ d2) (Blob blob) = Some (stored_form li pf h hx r)"
      using unpack_pack_row [OF c(3)] d2(2) nth_opt_append [OF d1(2), of d2] wp True pk(1)
      by (simp add: expand_tx_def canon_row_def body_fields_def full_row_def stored_form_def)
    then show ?thesis using d2(1) c(4) True by (intro exI [of _ "d1 @ d2"]) simp
  next
    case False
    then have c: "b' = b\<lparr>b_store := t, b_cache := cache, b_txs := b_txs b @ [Fields (body_fields r i)]\<rparr>"
      using call by (simp add: put_body_row_def pk(1) pid Let_def)
    have "expand_tx li t h hx (dict @ []) (Fields (body_fields r i)) = Some (stored_form li pf h hx r)"
      using wp False pk(1) by (simp add: expand_tx_def body_fields_def full_row_def stored_form_def)
    then show ?thesis using T c False inv by (intro exI [of _ "[]"]) (simp add: body_inv_def)
  qed
  then obtain d e where d: "addr_table X (b_addrs b') (b_index b') (dict @ d)" "b_store b' = t" "b_cache b' = cache"
      "b_txs b' = b_txs b @ [e]" "expand_tx li t h hx (dict @ d) e = Some (stored_form li pf h hx r)"
      "\<not> pf \<longrightarrow> b_addrs b' = []"
    by blast
  have "mapM_opt (expand_tx li t h hx (dict @ d)) (b_txs b') = Some (map (stored_form li pf h hx) (rows @ [r]))"
    using expand_txs_mono [OF E tx sub, of d] d(5) by (simp add: d(4) mapM_opt_append)
  then show ?thesis using wp ext d by (auto simp: body_inv_def)
qed


lemma put_body_rows:
  assumes "foldM_opt (put_body_row li H X pf) rs b = Some b'" and "body_inv li H X K pf h hx s rows b"
    and "inj_on (blake2b H 32) K" and "row_keys K (rows @ rs)"
  shows "body_inv li H X K pf h hx s (rows @ rs) b'"
  using assms
proof (induction rs arbitrary: rows b)
  case (Cons r rs)
  then obtain c where c: "put_body_row li H X pf r b = Some c" "foldM_opt (put_body_row li H X pf) rs c = Some b'"
    by (auto elim!: bind_SomeE)
  have "row_keys K (rows @ [r])" using Cons.prems(4) by (auto simp: row_keys_def)
  then have "body_inv li H X K pf h hx s (rows @ [r]) c"
    using put_body_row_step [OF c(1) Cons.prems(2,3)] by simp
  then show ?case using Cons.IH [OF c(2), of "rows @ [r]"] Cons.prems(3,4) by simp
qed simp

text \<open>The hash of a block as it is read back, and its key.\<close>

definition read_hash :: "bool \<Rightarrow> pystr \<Rightarrow> pystr" where
  "read_hash pf hs = (if pf then hash_text (fromhex_or hs) else hs)"

lemma hex_key_read_hash: "hex_key (read_hash pf hs) = hex_key hs"
  by (auto simp: read_hash_def fromhex_or_def hex_key_def fromhex_hex split: option.splits)

lemma bh_fromhex_or: "bh (fromhex_or hs) = hex_key hs"
  by (auto simp: fromhex_or_def hex_key_def split: option.splits)

lemma put_body_step:
  assumes call: "put_body li H X h hs rows fh s = Some s'" and inv: "pk_inv H K s"
    and inj: "inj_on (blake2b H 32) K" and keys: "row_keys K rows"
  defines "pf \<equiv> at_fork h fh"
  obtains t rec k where "pk_inv H K t" and "pk_ext s t" and "hex_key hs = Some k" and "h < 2 ^ 64"
    and "s' = t\<lparr>bs_blocks := kv_put (bs_blocks t) (hkey h) rec, bs_hashes := kv_put (bs_hashes t) k h\<rparr>"
    and "expand li X s' h rec = Some (map (stored_form li pf h (read_hash pf hs)) rows)"
    and "hash_text (sb_h rec) = read_hash pf hs" and "bh (sb_h rec) = Some k"
proof -
  let ?b0 = "\<lparr>b_store = s, b_cache = [], b_txs = [], b_addrs = [], b_index = []\<rparr>"
  obtain b k where b: "foldM_opt (put_body_row li H X pf) rows ?b0 = Some b" and k: "hex_key hs = Some k" "h < 2 ^ 64"
    and s': "s' = (b_store b)\<lparr>bs_blocks := kv_put (bs_blocks (b_store b)) (hkey h)
        (if pf then \<lparr>sb_h = fromhex_or hs, sb_a = b_addrs b, sb_t = b_txs b\<rparr>
         else \<lparr>sb_h = HText hs, sb_a = [], sb_t = b_txs b\<rparr>),
        bs_hashes := kv_put (bs_hashes (b_store b)) k h\<rparr>"
    using call unfolding put_body_def Let_def pf_def by (elim bind_SomeE) (simp split: if_splits)
  let ?hx = "read_hash pf hs"
  have "body_inv li H X K pf h ?hx s [] ?b0" using inv by (simp add: body_inv_def cache_ok_def addr_table_def)
  from put_body_rows [OF b this inj] keys have B: "body_inv li H X K pf h ?hx s rows b" by simp
  then obtain dict where d: "addr_table X (b_addrs b) (b_index b) dict"
      "mapM_opt (expand_tx li (b_store b) h ?hx dict) (b_txs b) = Some (map (stored_form li pf h ?hx) rows)"
    by (auto simp: body_inv_def)
  let ?rec = "if pf then \<lparr>sb_h = fromhex_or hs, sb_a = b_addrs b, sb_t = b_txs b\<rparr>
         else \<lparr>sb_h = HText hs, sb_a = [], sb_t = b_txs b\<rparr>"
  have hx: "hash_text (sb_h ?rec) = ?hx" "bh (sb_h ?rec) = Some k"
    using k(1) by (simp_all add: read_hash_def bh_fromhex_or)
  have "mapM_opt (unpack_addr X) (sb_a ?rec) = Some dict" "sb_t ?rec = b_txs b"
    using d(1) B by (auto simp: addr_table_def body_inv_def)
  then have "expand li X (b_store b) h ?rec = Some (map (stored_form li pf h ?hx) rows)"
    using d(2) hx(1) by (simp only: expand_def Option.bind.bind_lunit)
  moreover have "kv_get (bs_pkr (b_store b)) \<subseteq>\<^sub>m kv_get (bs_pkr s')" by (simp add: s')
  ultimately have "expand li X s' h ?rec = Some (map (stored_form li pf h ?hx) rows)"
    using expand_mono texts_stored [OF row_keys_texts [OF keys]] by blast
  then show ?thesis using that [OF _ _ k s' _ hx] B by (simp add: body_inv_def)
qed

end
