(* ===== verification/BlockIndex.thy ===== *)
theory BlockIndex
  imports BlockStore
begin

text \<open>
  What a block contributes to the indexes of the ledger, and that indexing a block, for a commit, a
  rollback or a rebuild, changes each sub-database by exactly that contribution.
\<close>

section \<open>Sub-databases as maps\<close>

lemma kv_get_put_fun: "kv_ok db \<Longrightarrow> kv_get (kv_put db k v) = (kv_get db)(k \<mapsto> v)"
  by (auto simp: kv_get_put)

lemma kv_get_delete_fun: "kv_get (kv_delete db k) = (kv_get db)(k := None)"
  by (auto simp: kv_get_delete)

definition mark :: "bool \<Rightarrow> 'k set \<Rightarrow> 'v \<Rightarrow> ('k \<Rightarrow> 'v option) \<Rightarrow> 'k \<Rightarrow> 'v option" where
  "mark del K v m = (\<lambda>k. if k \<in> K then (if del then None else Some v) else m k)"

lemma mark_empty [simp]: "mark del {} v m = m"
  by (simp add: mark_def)

lemma mark_Un: "mark del A v (mark del B v m) = mark del (A \<union> B) v m"
  by (auto simp: mark_def)

lemma mark_del_mark: "A \<inter> dom m = {} \<Longrightarrow> mark True A v (mark False A v m) = m"
  by (auto simp: mark_def fun_eq_iff domIff disjoint_iff)

lemma set_entry_mark: "kv_ok db \<Longrightarrow> kv_get (set_entry del db k v) = mark del {k} v (kv_get db)"
  by (auto simp: set_entry_def mark_def kv_get_put kv_get_delete fun_eq_iff)

lemma set_entry_ok [inv_intros]: "kv_ok db \<Longrightarrow> kv_ok (set_entry del db k v)"
  by (simp add: set_entry_def kv_ok_put kv_ok_delete)

section \<open>Keys end in the position of their row\<close>

lemma to_bytes_be_SomeD: "to_bytes_be w n = Some b \<Longrightarrow> 0 \<le> n \<and> length b = w \<and> int (be_nat b) = n"
  by (auto simp: to_bytes_be_def be_nat_be_bytes nat_less_iff split: if_splits)

lemma key_tail_append: "length t = 10 \<Longrightarrow> key_tail (p @ t) = t"
  by (simp add: key_tail_def)

lemma split_pos_append:
  assumes "sh h = Some s" and "to_bytes_be 2 (int i) = Some t"
  shows "split_pos (p @ s @ t) = (h, i)"
proof -
  have s: "length s = 8" "int (be_nat s) = h + I64"
    using to_bytes_be_SomeD [of 8 "h + I64" s] assms(1) by (simp_all add: sh_def)
  have t: "length t = 2" "be_nat t = i" using to_bytes_be_SomeD [OF assms(2)] by simp_all
  show ?thesis using s t by (simp add: split_pos_def key_tail_append unsh_def)
qed

lemma split_pos_addr_key:
  assumes "addr_key role a h i = Some k"
  shows "split_pos k = (h, i)"
proof -
  obtain p s t where "sh h = Some s" "to_bytes_be 2 (int i) = Some t" "k = p @ s @ t"
    using assms unfolding addr_key_def by (elim bind_SomeE) (simp only: option.inject, blast)
  then show ?thesis by (simp only: split_pos_append)
qed

lemma split_pos_sig_key:
  assumes "sig_key sg h i = Some k"
  shows "split_pos k = (h, i)"
proof -
  obtain p s t where "sh h = Some s" "to_bytes_be 2 (int i) = Some t" "k = (p @ [0]) @ s @ t"
    using assms unfolding sig_key_def by (elim bind_SomeE) (simp only: option.inject append.assoc, blast)
  then show ?thesis by (simp only: split_pos_append)
qed

section \<open>The contribution of a block\<close>

definition row_sigs :: "nat \<Rightarrow> nat \<times> lrow \<Rightarrow> bytes set" where
  "row_sigs h ir = {k. indexable_sig (r_sig (snd ir)) \<and> sig_key (r_sig (snd ir)) (int h) (fst ir) = Some k}"

definition row_addrs :: "nat \<Rightarrow> nat \<times> lrow \<Rightarrow> bytes set" where
  "row_addrs h ir = {k. addr_key ROLE_SENDER (r_addr (snd ir)) (int h) (fst ir) = Some k
     \<or> addr_key ROLE_RECIPIENT (r_recip (snd ir)) (int h) (fst ir) = Some k}"

definition row_txids :: "hash_ext \<Rightarrow> bool \<Rightarrow> nat option \<Rightarrow> nat \<Rightarrow> nat \<times> lrow \<Rightarrow> bytes set" where
  "row_txids H li fh h ir = {k. at_fork h fh \<and> Option.bind (txid_of H li (snd ir) fh) hex_key = Some k}"

definition rows_sigs :: "nat \<Rightarrow> nat \<Rightarrow> lrow list \<Rightarrow> bytes set" where
  "rows_sigs h n rows = (\<Union>ir \<in> set (enumerate n rows). row_sigs h ir)"

definition rows_addrs :: "nat \<Rightarrow> nat \<Rightarrow> lrow list \<Rightarrow> bytes set" where
  "rows_addrs h n rows = (\<Union>ir \<in> set (enumerate n rows). row_addrs h ir)"

definition rows_txids :: "hash_ext \<Rightarrow> bool \<Rightarrow> nat option \<Rightarrow> nat \<Rightarrow> nat \<Rightarrow> lrow list \<Rightarrow> bytes set" where
  "rows_txids H li fh h n rows = (\<Union>ir \<in> set (enumerate n rows). row_txids H li fh h ir)"

definition money :: "bool \<Rightarrow> pystr \<Rightarrow> int" where
  "money li v = the (units li (TStr v))"

definition row_delta :: "bool \<Rightarrow> lrow \<Rightarrow> pystr \<Rightarrow> parts" where
  "row_delta li r a =
     (if r_recip r = a then (money li (r_amount r), money li (r_reward r), 0, 0) else 0) +
     (if r_addr r = a then (0, 0, money li (r_amount r), money li (r_fee r)) else 0)"

definition rows_delta :: "bool \<Rightarrow> lrow list \<Rightarrow> pystr \<Rightarrow> parts" where
  "rows_delta li rows a = (\<Sum>r\<leftarrow>rows. row_delta li r a)"

text \<open>A row whose keys and amounts can all be computed.\<close>

definition row_indexable :: "hash_ext \<Rightarrow> bool \<Rightarrow> nat option \<Rightarrow> nat \<Rightarrow> nat \<times> lrow \<Rightarrow> bool" where
  "row_indexable H li fh h ir = (case ir of (i, r) \<Rightarrow>
     (indexable_sig (r_sig r) \<longrightarrow> sig_key (r_sig r) (int h) i \<noteq> None) \<and>
     addr_key ROLE_SENDER (r_addr r) (int h) i \<noteq> None \<and>
     addr_key ROLE_RECIPIENT (r_recip r) (int h) i \<noteq> None \<and>
     units li (TStr (r_amount r)) \<noteq> None \<and> units li (TStr (r_reward r)) \<noteq> None \<and>
     units li (TStr (r_fee r)) \<noteq> None \<and>
     (at_fork h fh \<longrightarrow> Option.bind (txid_of H li r fh) hex_key \<noteq> None))"

text \<open>A dict of balance deltas as a function.\<close>

definition acc_fun :: "(pystr, parts) dict \<Rightarrow> pystr \<Rightarrow> parts" where
  "acc_fun acc a = dict_get acc a 0"

lemma acc_fun_bump: "acc_fun (bump_acc a d acc) x = acc_fun acc x + (if a = x then d else 0)"
  by (simp add: acc_fun_def bump_acc_def)

lemma bump_acc_ok [simp]: "dict_ok acc \<Longrightarrow> dict_ok (bump_acc a d acc)"
  by (simp add: bump_acc_def)

lemma bump_acc_keys: "fst ` set (bump_acc a d acc) \<subseteq> insert a (fst ` set acc)"
  using set_dict_set [of a _ acc] unfolding bump_acc_def by fastforce

definition bal_sgn :: "bool \<Rightarrow> parts \<Rightarrow> parts" where
  "bal_sgn del d = (if del then - d else d)"

lemma bal_sgn_add: "bal_sgn del (a + b) = bal_sgn del a + bal_sgn del b"
  by (simp add: bal_sgn_def)

lemma fold_row_eq:
  "fold_row li (if del then - 1 else 1) r acc =
     (if units li (TStr (r_amount r)) \<noteq> None \<and> units li (TStr (r_reward r)) \<noteq> None \<and> units li (TStr (r_fee r)) \<noteq> None
      then Some (bump_acc (r_addr r) (bal_sgn del (0, 0, money li (r_amount r), money li (r_fee r)))
             (bump_acc (r_recip r) (bal_sgn del (money li (r_amount r), money li (r_reward r), 0, 0)) acc))
      else None)"
  by (auto simp: fold_row_def money_def bal_sgn_def prod_group_defs split: option.split)

lemma fold_row_SomeD:
  assumes "fold_row li (if del then - 1 else 1) r acc = Some acc'"
  shows "acc_fun acc' = (\<lambda>a. acc_fun acc a + bal_sgn del (row_delta li r a))"
    and "dict_ok acc \<Longrightarrow> dict_ok acc'"
    and "fst ` set acc' \<subseteq> {r_addr r, r_recip r} \<union> fst ` set acc"
proof -
  have e: "acc' = bump_acc (r_addr r) (bal_sgn del (0, 0, money li (r_amount r), money li (r_fee r)))
      (bump_acc (r_recip r) (bal_sgn del (money li (r_amount r), money li (r_reward r), 0, 0)) acc)"
    using assms by (simp only: fold_row_eq split: if_splits) simp_all
  show "acc_fun acc' = (\<lambda>a. acc_fun acc a + bal_sgn del (row_delta li r a))"
    by (auto simp: e acc_fun_bump row_delta_def bal_sgn_add fun_eq_iff add.assoc) (auto simp: bal_sgn_def)
  show "dict_ok acc \<Longrightarrow> dict_ok acc'" by (simp add: e)
  show "fst ` set acc' \<subseteq> {r_addr r, r_recip r} \<union> fst ` set acc"
    unfolding e by (rule order_trans [OF bump_acc_keys insert_subsetI [OF _ order_trans [OF bump_acc_keys]]]) blast+
qed


text \<open>Indexing one row: three sub-databases change by the row's keys, nothing else changes.\<close>

definition idx_ok :: "block_store \<Rightarrow> bool" where
  "idx_ok s \<longleftrightarrow> kv_ok (bs_sig s) \<and> kv_ok (bs_addr s) \<and> kv_ok (bs_txid s)"

definition idx_step ::
  "bool \<Rightarrow> nat \<Rightarrow> bytes set \<Rightarrow> bytes set \<Rightarrow> bytes set \<Rightarrow> block_store \<Rightarrow> block_store \<Rightarrow> bool" where
  "idx_step del h S A T s s' \<longleftrightarrow> idx_ok s' \<and>
     kv_get (bs_sig s') = mark del S () (kv_get (bs_sig s)) \<and>
     kv_get (bs_addr s') = mark del A () (kv_get (bs_addr s)) \<and>
     kv_get (bs_txid s') = mark del T h (kv_get (bs_txid s)) \<and>
     s' = s\<lparr>bs_sig := bs_sig s', bs_addr := bs_addr s', bs_txid := bs_txid s'\<rparr>"

lemma idx_step_refl: "idx_ok s \<Longrightarrow> idx_step del h {} {} {} s s"
  by (simp add: idx_step_def)

lemma idx_step_trans:
  assumes "idx_step del h S A T s t" and "idx_step del h S' A' T' t u"
  shows "idx_step del h (S' \<union> S) (A' \<union> A) (T' \<union> T) s u"
proof -
  have "u = s\<lparr>bs_sig := bs_sig u, bs_addr := bs_addr u, bs_txid := bs_txid u\<rparr>"
    using assms unfolding idx_step_def by (cases s; cases t; cases u) simp
  then show ?thesis using assms unfolding idx_step_def by (simp only: mark_Un)
qed

lemma index_row_step:
  assumes "index_row li H h fh del (i, r) (s, acc) = Some (s', acc')" and "idx_ok s"
  shows "idx_step del h (row_sigs h (i, r)) (row_addrs h (i, r)) (row_txids H li fh h (i, r)) s s'"
    and "fold_row li (if del then - 1 else 1) r acc = Some acc'"
    and "row_indexable H li fh h (i, r)"
proof -
  obtain s1 ks kr where
    s1: "(if indexable_sig (r_sig r)
            then do { k \<leftarrow> sig_key (r_sig r) (int h) i; Some (s\<lparr>bs_sig := set_entry del (bs_sig s) k ()\<rparr>) }
            else Some s) = Some s1"
    and ks: "addr_key ROLE_SENDER (r_addr r) (int h) i = Some ks"
    and kr: "addr_key ROLE_RECIPIENT (r_recip r) (int h) i = Some kr"
    and fr: "fold_row li (if del then - 1 else 1) r acc = Some acc'"
    and s3: "(if at_fork h fh
            then do { x \<leftarrow> txid_of H li r fh; k \<leftarrow> hex_key x;
                      Some (s1\<lparr>bs_addr := set_entry del (set_entry del (bs_addr s1) ks ()) kr (),
                               bs_txid := set_entry del (bs_txid s1) k h\<rparr>) }
            else Some (s1\<lparr>bs_addr := set_entry del (set_entry del (bs_addr s1) ks ()) kr ()\<rparr>)) = Some s'"
    using assms(1) unfolding index_row_def Let_def prod.case
    by (elim bind_SomeE) (simp split: if_splits)
  show "fold_row li (if del then - 1 else 1) r acc = Some acc'" by (fact fr)
  have u: "units li (TStr (r_amount r)) \<noteq> None \<and> units li (TStr (r_reward r)) \<noteq> None \<and> units li (TStr (r_fee r)) \<noteq> None"
    using fr by (simp only: fold_row_eq split: if_splits) simp_all
  have sig: "indexable_sig (r_sig r) \<Longrightarrow> sig_key (r_sig r) (int h) i \<noteq> None"
    using s1 by (auto elim!: bind_SomeE)
  have tx: "at_fork h fh \<Longrightarrow> Option.bind (txid_of H li r fh) hex_key \<noteq> None"
    using s3 by (auto elim!: bind_SomeE)
  show "row_indexable H li fh h (i, r)"
    using sig tx ks kr u by (simp only: row_indexable_def prod.case) auto
  have S: "idx_step del h (row_sigs h (i, r)) {} {} s s1"
    using s1 assms(2) by (auto simp: idx_step_def idx_ok_def row_sigs_def set_entry_mark inv_intros
        elim!: bind_SomeE split: if_splits)
  have A: "row_addrs h (i, r) = {ks, kr}" using ks kr by (auto simp: row_addrs_def)
  have ok1: "idx_ok s1" using S by (simp add: idx_step_def)
  have "idx_step del h {} (row_addrs h (i, r)) (row_txids H li fh h (i, r)) s1 s'"
  proof (cases "at_fork h fh")
    case True
    then obtain x k where x: "txid_of H li r fh = Some x" "hex_key x = Some k"
      and s': "s' = s1\<lparr>bs_addr := set_entry del (set_entry del (bs_addr s1) ks ()) kr (),
                       bs_txid := set_entry del (bs_txid s1) k h\<rparr>"
      using s3 by (auto elim!: bind_SomeE)
    have "row_txids H li fh h (i, r) = {k}" using x True by (auto simp: row_txids_def)
    then show ?thesis
      using ok1 by (simp add: s' A idx_step_def idx_ok_def set_entry_mark set_entry_ok mark_Un)
  next
    case False
    then have "s' = s1\<lparr>bs_addr := set_entry del (set_entry del (bs_addr s1) ks ()) kr ()\<rparr>"
      and "row_txids H li fh h (i, r) = {}" using s3 by (simp_all add: row_txids_def)
    then show ?thesis
      using ok1 by (simp add: A idx_step_def idx_ok_def set_entry_mark set_entry_ok mark_Un)
  qed
  from idx_step_trans [OF S this]
  show "idx_step del h (row_sigs h (i, r)) (row_addrs h (i, r)) (row_txids H li fh h (i, r)) s s'" by simp
qed


lemma index_fold:
  assumes "foldM_opt (index_row li H h fh del) (enumerate n rows) (s, acc) = Some (s', acc')" and "idx_ok s"
  shows "idx_step del h (rows_sigs h n rows) (rows_addrs h n rows) (rows_txids H li fh h n rows) s s'
    \<and> acc_fun acc' = (\<lambda>a. acc_fun acc a + bal_sgn del (rows_delta li rows a))
    \<and> (dict_ok acc \<longrightarrow> dict_ok acc')
    \<and> fst ` set acc' \<subseteq> r_addr ` set rows \<union> r_recip ` set rows \<union> fst ` set acc
    \<and> list_all (row_indexable H li fh h) (enumerate n rows)"
  using assms
proof (induction rows arbitrary: n s acc)
  case Nil
  then show ?case
    by (simp add: rows_sigs_def rows_addrs_def rows_txids_def rows_delta_def idx_step_refl bal_sgn_def)
next
  case (Cons r rows)
  obtain s1 acc1 where 1: "index_row li H h fh del (n, r) (s, acc) = Some (s1, acc1)"
    and 2: "foldM_opt (index_row li H h fh del) (enumerate (Suc n) rows) (s1, acc1) = Some (s', acc')"
    using Cons.prems(1) by (auto elim!: bind_SomeE)
  note r = index_row_step [OF 1 Cons.prems(2)]
  have "idx_ok s1" using r(1) by (simp add: idx_step_def)
  note IH = Cons.IH [OF 2 this]
  note f = fold_row_SomeD [OF r(2)]
  have "idx_step del h (rows_sigs h n (r # rows)) (rows_addrs h n (r # rows)) (rows_txids H li fh h n (r # rows)) s s'"
    using idx_step_trans [OF r(1) conjunct1 [OF IH]] by (simp add: rows_sigs_def rows_addrs_def rows_txids_def Un_commute)
  moreover have "acc_fun acc' = (\<lambda>a. acc_fun acc a + bal_sgn del (rows_delta li (r # rows) a))"
    using IH f(1) by (simp add: rows_delta_def bal_sgn_add add.assoc)
  moreover have "fst ` set acc' \<subseteq> r_addr ` set (r # rows) \<union> r_recip ` set (r # rows) \<union> fst ` set acc"
    using IH f(3) unfolding list.set(2) image_insert by blast
  ultimately show ?case using IH f(2) r(3) by simp
qed

text \<open>A block whose rows are indexable can always be indexed.\<close>

lemma index_row_total:
  assumes "row_indexable H li fh h ir"
  shows "\<exists>t. index_row li H h fh del ir sa = Some t"
proof -
  obtain i r s acc where e: "ir = (i, r)" "sa = (s, acc)" by (cases ir; cases sa)
  obtain ks kr where k: "addr_key ROLE_SENDER (r_addr r) (int h) i = Some ks"
      "addr_key ROLE_RECIPIENT (r_recip r) (int h) i = Some kr"
    using assms by (auto simp: e row_indexable_def)
  obtain acc' where f: "fold_row li (if del then - 1 else 1) r acc = Some acc'"
    using assms by (auto simp: e row_indexable_def fold_row_eq)
  have sig: "\<exists>k. sig_key (r_sig r) (int h) i = Some k" if "indexable_sig (r_sig r)"
    using that assms by (auto simp: e row_indexable_def)
  have tx: "\<exists>x k. txid_of H li r fh = Some x \<and> hex_key x = Some k" if "at_fork h fh"
    using that assms by (auto simp: e row_indexable_def bind_eq_Some_conv)
  show ?thesis
    using sig tx unfolding e index_row_def prod.case
    by (cases "indexable_sig (r_sig r)"; cases "at_fork h fh") (auto simp: k f Let_def)
qed

lemma index_fold_total:
  assumes "list_all (row_indexable H li fh h) irs"
  shows "\<exists>t. foldM_opt (index_row li H h fh del) irs sa = Some t"
  using assms
proof (induction irs arbitrary: sa)
  case (Cons ir irs)
  then obtain t where "index_row li H h fh del ir sa = Some t"
    using index_row_total [of H li fh h ir del sa] by auto
  with Cons show ?case by simp
qed simp

end
