(* ===== verification/LedgerBalances.thy ===== *)
theory LedgerBalances
  imports BlockIndex
begin

text \<open>
  The balance sub-database represents a function from addresses to balance parts: the stored value is the
  packed parts, an absent entry is zero.  Applying deltas adds them pointwise.
\<close>

section \<open>Packed balances\<close>

lemma bal_unpack_pack:
  assumes "bal_pack v = Some b"
  shows "bal_unpack b = v"
proof -
  obtain p q r s where v: "v = (p, q, r, s)" by (cases v)
  obtain a' b' c' d' where x: "to_bytes_le_signed 16 p = Some a'" "to_bytes_le_signed 16 q = Some b'"
      "to_bytes_le_signed 16 r = Some c'" "to_bytes_le_signed 16 s = Some d'" "b = a' @ b' @ c' @ d'"
    using assms unfolding v bal_pack_def prod.case by (elim bind_SomeE) (metis option.inject)
  have l: "length a' = 16" "length b' = 16" "length c' = 16" "length d' = 16"
    using x(1-4) by (auto simp: to_bytes_le_signed_def split: if_splits)
  have "take 16 b = a'" "take 16 (drop 16 b) = b'" "take 16 (drop 32 b) = c'" "take 16 (drop 48 b) = d'"
    using l by (simp_all add: x(5))
  then show ?thesis
    by (simp add: bal_unpack_def v to_bytes_le_signed_roundtrip [OF x(1)] to_bytes_le_signed_roundtrip [OF x(2)]
        to_bytes_le_signed_roundtrip [OF x(3)] to_bytes_le_signed_roundtrip [OF x(4)])
qed

section \<open>Keys of addresses\<close>

text \<open>The ledger cuts addresses to 56 characters before it stores them.\<close>

definition short :: "pystr \<Rightarrow> bool" where
  "short a \<longleftrightarrow> length a \<le> 56"

definition akey :: "pystr \<Rightarrow> bytes option" where
  "akey a = Option.bind (abytes a) lmdb_key"

lemma utf8_char_length: "utf8_char c = Some b \<Longrightarrow> length b \<le> 4"
  by (auto simp: utf8_char_def split: if_splits)

lemma utf8_encode_length: "utf8_encode s = Some b \<Longrightarrow> length b \<le> 4 * length s"
proof (induction s arbitrary: b)
  case (Cons c s)
  then obtain x y where xy: "utf8_char c = Some x" "utf8_encode s = Some y" "b = x @ y" by (auto elim!: bind_SomeE)
  then show ?case using utf8_char_length [OF xy(1)] Cons.IH [OF xy(2)] by simp
qed simp

lemma abytes_short: "short a \<Longrightarrow> abytes a = utf8_encode a"
  using utf8_encode_length [of a] by (auto simp: abytes_def short_def map_option_case split: option.splits)

lemma akey_inject: "short a \<Longrightarrow> short b \<Longrightarrow> akey a = Some k \<Longrightarrow> akey b = Some k \<Longrightarrow> a = b"
  by (auto simp: akey_def abytes_short elim!: bind_SomeE dest!: lmdb_key_SomeD intro: utf8_encode_inject)

section \<open>The representation\<close>

definition bal_fits :: "parts \<Rightarrow> bool" where
  "bal_fits v \<longleftrightarrow> v = 0 \<or> bal_pack v \<noteq> None"

definition bal_entry :: "parts \<Rightarrow> bytes option" where
  "bal_entry v = (if v = 0 then None else bal_pack v)"

definition bal_rel :: "bytes kvdb \<Rightarrow> (pystr \<Rightarrow> parts) \<Rightarrow> bool" where
  "bal_rel db f \<longleftrightarrow> kv_ok db \<and>
     (\<forall>a k. short a \<longrightarrow> akey a = Some k \<longrightarrow> kv_get db k = bal_entry (f a)) \<and>
     (\<forall>k. kv_get db k \<noteq> None \<longrightarrow> (\<exists>a. short a \<and> akey a = Some k)) \<and>
     (\<forall>a. f a \<noteq> 0 \<longrightarrow> short a \<and> akey a \<noteq> None \<and> bal_pack (f a) \<noteq> None)"

lemma bal_rel_unique: "bal_rel db f \<Longrightarrow> bal_rel db' f \<Longrightarrow> db = db'"
  by (rule kv_ext) (auto simp: bal_rel_def, metis option.distinct(1) not_None_eq)

lemma bal_rel_get: "bal_rel db f \<Longrightarrow> short a \<Longrightarrow> akey a = Some k \<Longrightarrow> kv_get db k = bal_entry (f a)"
  by (simp add: bal_rel_def)

lemma bal_rel_read:
  assumes "bal_rel db f" "short a" "akey a = Some k"
  shows "(case kv_get db k of Some v \<Rightarrow> bal_unpack v | None \<Rightarrow> 0) = f a"
proof (cases "f a = 0")
  case False
  then obtain v where "bal_pack (f a) = Some v" using assms(1) by (auto simp: bal_rel_def)
  then show ?thesis using False by (simp add: bal_rel_get [OF assms] bal_entry_def bal_unpack_pack)
qed (simp add: bal_rel_get [OF assms] bal_entry_def)

lemma bal_rel_set:
  assumes "bal_rel db f" "short a" "akey a = Some k" "bal_fits v"
  shows "bal_rel (case bal_entry v of None \<Rightarrow> kv_delete db k | Some w \<Rightarrow> kv_put db k w) (f(a := v))"
proof -
  let ?d = "case bal_entry v of None \<Rightarrow> kv_delete db k | Some w \<Rightarrow> kv_put db k w"
  have ok: "kv_ok db" using assms(1) by (simp add: bal_rel_def)
  have get: "kv_get ?d = (kv_get db)(k := bal_entry v)"
    by (simp add: kv_get_put_fun [OF ok] kv_get_delete_fun split: option.split)
  have inj: "x = a" if "short x" "akey x = Some k" for x using akey_inject that assms(2,3) by blast
  have "kv_ok ?d" using ok by (simp add: kv_ok_put kv_ok_delete split: option.split)
  moreover have "kv_get ?d j = bal_entry ((f(a := v)) x)" if "short x" "akey x = Some j" for x j
    using bal_rel_get [OF assms(1) that] inj [OF that(1)] that assms(3) by (auto simp: get)
  moreover have "\<exists>x. short x \<and> akey x = Some j" if "kv_get ?d j \<noteq> None" for j
    using that assms(1-3) unfolding get bal_rel_def by (cases "j = k") auto
  moreover have "short x \<and> akey x \<noteq> None \<and> bal_pack ((f(a := v)) x) \<noteq> None" if "(f(a := v)) x \<noteq> 0" for x
    using that assms unfolding bal_rel_def bal_fits_def by (cases "x = a") auto
  ultimately show ?thesis unfolding bal_rel_def by blast
qed

lemma apply_balance_eq:
  assumes "bal_rel db f" and "short a" and "d \<noteq> 0"
  shows "apply_balance (a, d) db = (case akey a of None \<Rightarrow> None
     | Some k \<Rightarrow> if bal_fits (f a + d)
         then Some (case bal_entry (f a + d) of None \<Rightarrow> kv_delete db k | Some w \<Rightarrow> kv_put db k w) else None)"
proof (cases "akey a")
  case (Some k)
  then show ?thesis
    using assms(3) bal_rel_read [OF assms(1,2) Some]
    by (auto simp: apply_balance_def akey_def [symmetric] bal_fits_def bal_entry_def Let_def split: option.splits)
qed (use assms in \<open>simp add: apply_balance_def akey_def [symmetric]\<close>)

lemma acc_fun_Cons: "acc_fun ((a, d) # acc) x = (if x = a then d else acc_fun acc x)"
  by (simp add: acc_fun_def dict_get_def)

lemma acc_fun_absent: "a \<notin> fst ` set acc \<Longrightarrow> acc_fun acc a = 0"
  by (simp add: acc_fun_def dict_get_def map_of_eq_None_iff [symmetric])

lemma acc_fun_keys: "acc_fun acc a \<noteq> 0 \<Longrightarrow> a \<in> fst ` set acc"
  using acc_fun_absent by blast

lemma apply_fold_rel:
  assumes "foldM_opt apply_balance acc db = Some db'" and "bal_rel db f"
    and "dict_ok acc" and "\<forall>a \<in> fst ` set acc. short a"
  shows "bal_rel db' (\<lambda>a. f a + acc_fun acc a)"
  using assms
proof (induction acc arbitrary: db f)
  case Nil
  then show ?case by (simp add: acc_fun_def)
next
  case (Cons e acc)
  obtain a d where e: "e = (a, d)" by (cases e)
  obtain db1 where 1: "apply_balance (a, d) db = Some db1" and 2: "foldM_opt apply_balance acc db1 = Some db'"
    using Cons.prems(1) by (auto simp: e elim!: bind_SomeE)
  have rel: "bal_rel db1 (f(a := f a + d))"
  proof (cases "d = 0")
    case False
    have sa: "short a" using Cons.prems(4) e by simp
    with 1 False obtain k where "akey a = Some k" "bal_fits (f a + d)"
        "db1 = (case bal_entry (f a + d) of None \<Rightarrow> kv_delete db k | Some w \<Rightarrow> kv_put db k w)"
      by (auto simp: apply_balance_eq [OF Cons.prems(2)] split: option.splits if_splits)
    then show ?thesis using bal_rel_set [OF Cons.prems(2) sa] by blast
  qed (use 1 Cons.prems(2) in \<open>simp add: apply_balance_def\<close>)
  have "bal_rel db' (\<lambda>x. (f(a := f a + d)) x + acc_fun acc x)"
    using Cons.IH [OF 2 rel] Cons.prems(3,4) by (simp add: e)
  moreover have "acc_fun acc a = 0" using Cons.prems(3) by (intro acc_fun_absent) (simp add: e)
  then have "(\<lambda>x. (f(a := f a + d)) x + acc_fun acc x) = (\<lambda>x. f x + acc_fun (e # acc) x)"
    by (auto simp: e acc_fun_Cons fun_eq_iff)
  ultimately show ?case by simp
qed

lemma apply_fold_total:
  assumes "bal_rel db f" and "dict_ok acc" and "\<forall>a \<in> fst ` set acc. short a"
    and "\<forall>a. acc_fun acc a \<noteq> 0 \<longrightarrow> akey a \<noteq> None" and "\<forall>a. bal_fits (f a + acc_fun acc a)"
  shows "\<exists>db'. foldM_opt apply_balance acc db = Some db'"
  using assms
proof (induction acc arbitrary: db f)
  case (Cons e acc)
  obtain a d where e: "e = (a, d)" by (cases e)
  have sa: "short a" using Cons.prems(3) e by simp
  have fits: "bal_fits (f a + d)" using Cons.prems(5) [rule_format, of a] by (simp add: e acc_fun_Cons)
  obtain db1 where 1: "apply_balance (a, d) db = Some db1"
  proof (cases "d = 0")
    case False
    then obtain k where "akey a = Some k"
      using Cons.prems(4) [rule_format, of a] by (auto simp: e acc_fun_Cons)
    then show ?thesis using that fits by (simp add: apply_balance_eq [OF Cons.prems(1) sa False])
  qed (use that in \<open>simp add: apply_balance_def\<close>)
  have "foldM_opt apply_balance [e] db = Some db1" using 1 by (simp add: e)
  from apply_fold_rel [OF this Cons.prems(1)] sa
  have rel: "bal_rel db1 (\<lambda>x. f x + acc_fun [e] x)" by (simp add: e)
  have a0: "acc_fun acc a = 0" using Cons.prems(2) by (intro acc_fun_absent) (simp add: e)
  have sum: "f x + acc_fun [e] x + acc_fun acc x = f x + acc_fun (e # acc) x" for x
    using a0 by (auto simp: e acc_fun_Cons) (simp add: acc_fun_def)
  have "acc_fun acc x \<noteq> 0 \<longrightarrow> akey x \<noteq> None" for x
    using Cons.prems(4) [rule_format, of x] a0 by (cases "x = a") (simp_all add: e acc_fun_Cons)
  moreover have "bal_fits (f x + acc_fun [e] x + acc_fun acc x)" for x
    using Cons.prems(5) unfolding sum by blast
  ultimately obtain db' where "foldM_opt apply_balance acc db1 = Some db'"
    using Cons.IH [OF rel] Cons.prems(2,3) by auto
  then show ?case using 1 by (simp add: e)
qed simp

end
