(* ===== verification/LedgerRows.thy ===== *)
theory LedgerRows
  imports LedgerBody LedgerBalances
begin

text \<open>
  Rows as the digester and the genesis block write them, and that the text a row is read back with has the
  same effect on every index: the same money, the same transaction id, the same keys.
\<close>

section \<open>Canonical numbers\<close>

lemma dec_parse_nat_str: "dec_parse (nat_str n) = Some (Fin False n 0)"
proof -
  let ?s = "nat_str n"
  obtain d ds where ds: "?s = d # ds" using nat_str_nonempty [of n] by (cases ?s) auto
  have dig: "is_digit c" if "c \<in> set ?s" for c using nat_str_digits that by blast
  then have "is_digit d" by (simp add: ds)
  then have d: "is_digit d" "d \<noteq> 45" "d \<noteq> 43" by (auto simp: is_digit_def)
  have "\<not> uni_space (hd ?s)" "\<not> uni_space (last ?s)"
    using dig digit_not_space hd_in_set [OF nat_str_nonempty] last_in_set [OF nat_str_nonempty] by blast+
  then have strip: "py_strip ?s = ?s" by (intro py_strip_id) simp
  have filt: "filter (\<lambda>c. c \<noteq> 95) ?s = ?s" using dig [of 95] by (auto simp: is_digit_def filter_id_conv)
  have tw: "takeWhile is_digit ?s = ?s" "dropWhile is_digit ?s = []"
    using dig by (auto simp: takeWhile_eq_all_conv dropWhile_eq_Nil_conv)
  have "dec_numeral False ?s = Some (Fin False n 0)"
    unfolding dec_numeral_def Let_def tw by (simp add: dec_exponent_def)
  moreover have "dec_special False ?s = None" using d by (simp add: ds dec_special_digit)
  ultimately show ?thesis using d unfolding dec_parse_def Let_def strip filt by (simp add: ds)
qed

lemma units_nat_str: "units True (TStr (nat_str n)) = Some (int n)"
  by (simp add: units_def dec_parse_nat_str dsigned_def)

lemma int_str_int: "int_str (int n) = nat_str n"
  by (simp add: int_str_def)

section \<open>Zero rewards\<close>

lemma rat_rhe_pos: "1 \<le> r \<Longrightarrow> 0 < rat_rhe r"
  using rat_rhe_error [of r] by (cases "rat_rhe r = 0") auto

lemma round_mag_zero:
  assumes "pow2 (- 1074) \<le> r"
  shows "round_mag r \<noteq> Some 0"
proof -
  have r: "0 < r" using assms pow2_pos [of "- 1074"] by linarith
  let ?e = "max (ilog2 r - 52) (- 1074)"
  have "pow2 ?e \<le> r"
  proof (cases "- 1074 \<le> ilog2 r - 52")
    case True
    then have "pow2 ?e \<le> pow2 (ilog2 r)" by (intro pow2_le) simp
    then show ?thesis using ilog2_bounds(1) [OF r] by linarith
  qed (use assms in simp)
  then have "1 \<le> r / pow2 ?e" by simp
  then have "0 < rat_rhe (r / pow2 ?e)" by (rule rat_rhe_pos)
  then show ?thesis using r by (simp add: round_mag_def Let_def)
qed

lemma dec_float_zero_iff:
  assumes "- 8 \<le> e" and "e \<le> 0"
  shows "\<exists>f. dec_float (Fin s c e) = Some f \<and> (float_zero f \<longleftrightarrow> c = 0)"
proof (cases "c = 0")
  case False
  let ?r = "\<bar>dec_rat s c e\<bar>"
  have "1 / 10 ^ nat (- e) \<le> ?r" using False assms by (simp add: dec_rat_def abs_mult divide_right_mono)
  moreover have "1 / 10 ^ 8 \<le> (1 :: rat) / 10 ^ nat (- e)"
    using assms by (intro divide_left_mono power_increasing) auto
  moreover have "pow2 (- 1074) \<le> pow2 (- 30)" by (intro pow2_le) simp
  moreover have "pow2 (- 30) \<le> 1 / 10 ^ 8" by (simp add: pow2_def)
  ultimately have "pow2 (- 1074) \<le> ?r" by linarith
  then have "round_mag ?r \<noteq> Some 0" by (rule round_mag_zero)
  then show ?thesis using False by (auto simp: round_float_def split: option.splits)
qed (simp add: dec_rat_def round_float_def round_mag_def)

lemma underscores_ok_digits: "list_all (\<lambda>c. c \<noteq> 95) t \<Longrightarrow> underscores_ok d t"
  by (induction t arbitrary: d) auto

lemma float_str_numeral:
  assumes "py_strip t = t" and "list_all (\<lambda>c. c \<noteq> 95) t" and "t \<noteq> []" and "is_digit (hd t)"
    and "dec_parse t = Some (Fin s c e)"
  shows "float_str t = dec_float (Fin s c e)"
proof -
  have "hd t \<noteq> 43" "hd t \<noteq> 45" "to_lower_ascii t \<noteq> lit ''nan''"
    using assms(3,4) by (cases t; auto simp: is_digit_def to_lower_ascii_def lit_def)+
  then have "\<not> is_nan_text t" by (auto simp: is_nan_text_def Let_def)
  then show ?thesis using assms underscores_ok_digits by (simp add: float_str_def Let_def)
qed


lemma num_str_text:
  fixes w :: nat and li :: bool
  defines "t \<equiv> num_str li (int w)"
  shows "py_strip t = t" and "list_all (\<lambda>c. c \<noteq> 95) t" and "t \<noteq> []" and "is_digit (hd t)"
    and "\<exists>e. dec_parse t = Some (Fin False w e) \<and> - 8 \<le> e \<and> e \<le> 0"
proof -
  obtain a b where t: "t = nat_str a @ b" "\<forall>c \<in> set b. c = 46 \<or> is_digit c" "b \<noteq> [] \<Longrightarrow> is_digit (last b)"
  proof (cases li)
    case True
    then show ?thesis using that [of w "[]"] by (simp add: t_def num_str_def int_str_int)
  next
    case False
    let ?z = "zero_pad 8 (w mod SATOSHIS_PER_BIS)"
    have "t = nat_str (w div SATOSHIS_PER_BIS) @ 46 # ?z"
      using False by (simp add: t_def num_str_def from_units_def Let_def)
    moreover have "\<forall>c \<in> set (46 # ?z). c = 46 \<or> is_digit c" using zero_pad_digits by auto
    moreover have "is_digit (last (46 # ?z))" using zero_pad_digits [OF last_in_set [OF zero_pad_nonempty]] by simp
    ultimately show ?thesis using that by blast
  qed
  have hd: "hd t = hd (nat_str a)" "is_digit (hd (nat_str a))"
    using nat_str_digits [OF hd_in_set [OF nat_str_nonempty]] by (simp_all add: t(1))
  have lst: "is_digit (last t)"
    using t(3) nat_str_digits [OF last_in_set [OF nat_str_nonempty]] by (cases "b = []") (simp_all add: t(1))
  show "t \<noteq> []" by (simp add: t(1))
  show "is_digit (hd t)" using hd by simp
  show "py_strip t = t" using hd lst digit_not_space by (intro py_strip_id) simp
  have "c \<noteq> 95" if "c \<in> set t" for c
    using that t(2) nat_str_digits [of c a] by (auto simp: t(1) is_digit_def)
  then show "list_all (\<lambda>c. c \<noteq> 95) t" by (simp add: list_all_iff)
  show "\<exists>e. dec_parse t = Some (Fin False w e) \<and> - 8 \<le> e \<and> e \<le> 0"
    by (cases li) (simp_all add: t_def num_str_def int_str_int dec_parse_nat_str from_units_parse)
qed

lemma coinbase_num_str: "r_reward r = num_str li (int w) \<Longrightarrow> is_coinbase_row r \<longleftrightarrow> w \<noteq> 0"
proof -
  assume r: "r_reward r = num_str li (int w)"
  note n = num_str_text [of li w]
  obtain e where e: "dec_parse (num_str li (int w)) = Some (Fin False w e)" "- 8 \<le> e" "e \<le> 0" using n(5) by blast
  obtain f where f: "dec_float (Fin False w e) = Some f" "float_zero f \<longleftrightarrow> w = 0"
    using dec_float_zero_iff [OF e(2,3)] by blast
  have "float_str (r_reward r) = Some f" unfolding r using float_str_numeral [OF n(1-4) e(1)] f(1) by simp
  then show ?thesis using n(3) f(2) by (simp add: is_coinbase_row_def r)
qed

section \<open>Well-formed rows\<close>

text \<open>The money texts of a row: integer units, or in the legacy mode the text with eight decimals or a whole
  number of coins (\<^verbatim>\<open>"0"\<close> in a coinbase row, \<^verbatim>\<open>"1"\<close> in the genesis block).\<close>

definition ledger_num :: "bool \<Rightarrow> pystr \<Rightarrow> nat \<Rightarrow> bool" where
  "ledger_num li v u \<longleftrightarrow> u < 10 ^ 28 \<and>
     (v = num_str li (int u) \<or> \<not> li \<and> (\<exists>n. u = n * 10 ^ 8 \<and> v = num_str True (int n)))"

definition row_wf :: "bool \<Rightarrow> nat \<Rightarrow> lrow \<Rightarrow> bool" where
  "row_wf li h r \<longleftrightarrow> r_h r = h \<and> short (r_addr r) \<and> short (r_recip r) \<and>
     (\<exists>cs < 10 ^ 28. r_ts r = ts_str cs) \<and> (\<exists>u. ledger_num li (r_amount r) u) \<and>
     (\<exists>u. ledger_num li (r_fee r) u) \<and> (\<exists>u. ledger_num li (r_reward r) u)"

lemma ledger_num_bound: "ledger_num li v u \<Longrightarrow> \<bar>int u\<bar> < 10 ^ 28"
proof -
  assume "ledger_num li v u"
  then have "int u < int (10 ^ 28)" unfolding ledger_num_def by (simp only: of_nat_less_iff)
  then show ?thesis by simp
qed

lemma ledger_num_nonempty: "ledger_num li v u \<Longrightarrow> v \<noteq> []"
  unfolding ledger_num_def by (metis num_str_text(3))

text \<open>In the legacy mode both texts denote the same decimal.\<close>

lemma ledger_num_quantize:
  assumes "ledger_num False v u"
  shows "quantize_eight (PStr v) = Some (Fin False u (- 8))"
proof -
  have u: "ndigits u \<le> prec"
    using assms length_nat_str_le [of u 28] by (simp add: ledger_num_def ndigits_def prec_def)
  have "dec_parse v = Some (Fin False u (- 8)) \<or> (\<exists>n. u = n * 10 ^ 8 \<and> dec_parse v = Some (Fin False n 0))"
    using assms by (auto simp: ledger_num_def num_str_def int_str_int dec_parse_nat_str from_units_parse)
  then show ?thesis
    using u ledger_num_nonempty [OF assms] by (auto simp: quantize_eight_def quantize_dp_def rescale_def Let_def)
qed

lemma to_units_ledger_num: "ledger_num False v u \<Longrightarrow> to_units (PStr v) = Some (int u)"
proof -
  assume l: "ledger_num False v u"
  have "to_units (PStr (from_units (int u))) = Some (int u)" using to_units_from_units ledger_num_bound [OF l] by blast
  moreover have "ledger_num False (from_units (int u)) u" using l by (simp add: ledger_num_def num_str_def)
  ultimately show ?thesis
    using ledger_num_quantize [OF l] ledger_num_quantize [of "from_units (int u)" u] by (simp add: to_units_def)
qed

lemma units_ledger_num:
  assumes "ledger_num li v u"
  shows "units li (TStr v) = Some (int u)" and "canon_num li v = num_str li (int u)"
    and "ledger_num li (canon_num li v) u"
proof -
  have v: "v = nat_str u" if li using assms that by (simp add: ledger_num_def num_str_def int_str_int)
  show "units li (TStr v) = Some (int u)"
    using assms ledger_num_nonempty [OF assms] to_units_ledger_num v
    by (cases li) (simp_all add: units_def dec_parse_nat_str dsigned_def)
  show c: "canon_num li v = num_str li (int u)"
    using assms to_units_ledger_num v py_int_int_str [of "int u", unfolded int_str_int]
    by (cases li) (simp_all add: canon_num_def num_units_def)
  show "ledger_num li (canon_num li v) u" unfolding c using assms by (simp add: ledger_num_def)
qed

lemma ledger_value_canon:
  assumes "ledger_num li v u"
  shows "ledger_value li (PStr (canon_num li v)) = ledger_value li (PStr v)"
proof (cases li)
  case True
  then show ?thesis using assms units_ledger_num(2) [OF assms] by (simp add: ledger_num_def)
next
  case False
  then show ?thesis
    using ledger_num_quantize assms units_ledger_num(3) [OF assms] by (simp add: ledger_value_def)
qed

lemma coinbase_ledger_num: "ledger_num li (r_reward r) u \<Longrightarrow> is_coinbase_row r \<longleftrightarrow> u \<noteq> 0"
  using coinbase_num_str [of r li u] coinbase_num_str [of r True] by (auto simp: ledger_num_def)

lemma canon_ts_id: "cs < 10 ^ 28 \<Longrightarrow> canon_ts (ts_str cs) = ts_str cs"
  by (simp add: canon_ts_def centiseconds_ts_str)

text \<open>The text a row is read back with has the same effect.\<close>

lemma stored_row_same:
  assumes "row_wf li h r" and q_def: "q = stored_form li pf h hx r"
  shows "r_sig q = r_sig r" and "r_addr q = r_addr r" and "r_recip q = r_recip r" and "r_pub q = r_pub r"
    and "units li (TStr (r_amount q)) = units li (TStr (r_amount r))"
    and "units li (TStr (r_fee q)) = units li (TStr (r_fee r))"
    and "units li (TStr (r_reward q)) = units li (TStr (r_reward r))"
    and "txid_of H li q fh = txid_of H li r fh" and "is_coinbase_row q \<longleftrightarrow> is_coinbase_row r"
    and "row_wf li h q"
proof -
  obtain cs ua uf ur where w: "cs < 10 ^ 28" "r_ts r = ts_str cs" "ledger_num li (r_amount r) ua"
      "ledger_num li (r_fee r) uf" "ledger_num li (r_reward r) ur" "r_h r = h" "short (r_addr r)" "short (r_recip r)"
    using assms(1) unfolding row_wf_def by blast
  show "r_sig q = r_sig r" "r_addr q = r_addr r" "r_recip q = r_recip r" "r_pub q = r_pub r"
    by (simp_all add: q_def stored_form_def)
  show "units li (TStr (r_amount q)) = units li (TStr (r_amount r))"
    "units li (TStr (r_fee q)) = units li (TStr (r_fee r))"
    "units li (TStr (r_reward q)) = units li (TStr (r_reward r))"
    using units_ledger_num(1) [OF units_ledger_num(3)] units_ledger_num(1) w(3-5)
    by (simp_all add: q_def stored_form_def)
  show "txid_of H li q fh = txid_of H li r fh"
    using w(1,2,6) ledger_value_canon [OF w(3)] by (simp add: q_def stored_form_def txid_of_def canon_ts_id)
  have num: "ledger_num li (r_amount q) ua" "ledger_num li (r_fee q) uf" "ledger_num li (r_reward q) ur"
    using w(3-5) units_ledger_num(3) by (simp_all add: q_def stored_form_def)
  show "is_coinbase_row q \<longleftrightarrow> is_coinbase_row r"
    using coinbase_ledger_num [OF num(3)] coinbase_ledger_num [OF w(5)] by simp
  have "r_ts q = ts_str cs" "r_h q = h" "r_addr q = r_addr r" "r_recip q = r_recip r"
    using w by (simp_all add: q_def stored_form_def canon_ts_id)
  then show "row_wf li h q" using num w unfolding row_wf_def by auto
qed

section \<open>Typed rows\<close>

lemma int_float_total: "n < 10 ^ 28 \<Longrightarrow> \<exists>f. int_float (int n) = Some f"
proof (cases "n = 0")
  case False
  assume "n < 10 ^ 28"
  then have "(of_nat n :: rat) < of_nat (10 ^ 28)" by (simp only: of_nat_less_iff)
  also have "\<dots> < pow2 100" by (simp add: pow2_def)
  finally obtain v where "round_mag (of_nat n) = Some v" using round_mag_error [of "of_nat n" 100] False by auto
  then show ?thesis by (simp add: int_float_def)
qed (simp add: int_float_def round_mag_def)

lemma INT_RE_dot: "46 \<in> set t \<Longrightarrow> py_strip t = t \<Longrightarrow> is_digit (hd t) \<Longrightarrow> \<not> INT_RE t"
  by (auto simp: INT_RE_def all_digits_def unsign_def list_all_iff is_digit_def dest!: bspec [where x = 46])

lemma numeric_total:
  assumes "py_strip t = t" "list_all (\<lambda>c. c \<noteq> 95) t" "t \<noteq> []" "is_digit (hd t)"
    and "dec_parse t = Some (Fin s c e)" and "46 \<in> set t \<or> (\<exists>n < 10 ^ 28. t = nat_str n)"
  shows "numeric (TStr t) \<noteq> None"
proof (cases "46 \<in> set t")
  case True
  then have "\<not> INT_RE t" using INT_RE_dot assms by blast
  then show ?thesis using float_str_numeral [OF assms(1-5)] by (simp add: numeric_def)
next
  case False
  then obtain n where n: "n < 10 ^ 28" "t = nat_str n" using assms(6) by blast
  have "py_int t = Some (int n)" using py_int_int_str [of "int n"] by (simp add: n(2) int_str_int)
  then show ?thesis
    using int_float_total [OF n(1)] float_str_numeral [OF assms(1-5)] by (auto simp: numeric_def)
qed

lemma numeric_ledger_num: "ledger_num li v u \<Longrightarrow> numeric (TStr v) \<noteq> None"
proof -
  assume l: "ledger_num li v u"
  then obtain li' m where v: "v = num_str li' (int m)" "m < 10 ^ 28"
    unfolding ledger_num_def by fastforce
  note n = num_str_text [of li' m]
  obtain e where e: "dec_parse v = Some (Fin False m e)" using n(5) v(1) by blast
  have "46 \<in> set v \<or> (\<exists>n < 10 ^ 28. v = nat_str n)"
    using v by (cases li') (auto simp: num_str_def int_str_int from_units_def Let_def)
  then show ?thesis using numeric_total [OF n(1-4) e [unfolded v(1)]] v(1) by simp
qed

lemma numeric_ts: "cs < 10 ^ 28 \<Longrightarrow> numeric (TStr (ts_str cs)) \<noteq> None"
proof -
  let ?z = "zero_pad 2 (cs mod 100)" and ?n = "nat_str (cs div 100)"
  have t: "ts_str cs = ?n @ 46 # ?z" by (simp add: ts_str_def)
  have dig: "\<forall>c \<in> set ?n. is_digit c" "\<forall>c \<in> set ?z. is_digit c" using nat_str_digits zero_pad_digits by auto
  have hd: "is_digit (hd (ts_str cs))" and lst: "is_digit (last (ts_str cs))"
    using nat_str_digits [OF hd_in_set [OF nat_str_nonempty]] zero_pad_digits [OF last_in_set [OF zero_pad_nonempty]]
    by (simp_all add: t)
  have "list_all (\<lambda>c. c \<noteq> 95) (ts_str cs)" using dig by (auto simp: t list_all_iff is_digit_def)
  moreover have "py_strip (ts_str cs) = ts_str cs" using hd lst digit_not_space by (intro py_strip_id) simp
  moreover have "\<exists>c e. dec_parse (ts_str cs) = Some (Fin False c e)"
    using dec_parse_fixed [of ?n ?z False] dig by (simp add: t)
  ultimately show ?thesis using numeric_total [of "ts_str cs"] hd by (auto simp: t)
qed

lemma typed_row_total:
  assumes "row_wf li h r"
  shows "\<exists>t. typed_row r = Some t"
proof -
  obtain cs ua uf ur where w: "cs < 10 ^ 28" "r_ts r = ts_str cs" "ledger_num li (r_amount r) ua"
      "ledger_num li (r_fee r) uf" "ledger_num li (r_reward r) ur"
    using assms unfolding row_wf_def by blast
  obtain a b c d where "numeric (TStr (r_ts r)) = Some a" "numeric (TStr (r_amount r)) = Some b"
      "numeric (TStr (r_fee r)) = Some c" "numeric (TStr (r_reward r)) = Some d"
    using numeric_ts [OF w(1)] w(2) numeric_ledger_num [OF w(3)] numeric_ledger_num [OF w(4)]
      numeric_ledger_num [OF w(5)] by auto
  then show ?thesis by (simp add: typed_row_def)
qed

lemma typed_rows_total: "\<forall>r \<in> set rows. row_wf li h r \<Longrightarrow> \<exists>ts. mapM_opt typed_row rows = Some ts"
  unfolding mapM_opt_Some_iff using typed_row_total by blast

end
