(* ===== verification/Ledger.thy ===== *)
theory Ledger
  imports LedgerRows
begin

text \<open>
  The ledger as a chain of blocks.  A store represents a chain when every sub-database is the function of the
  chain that the layout of \<^verbatim>\<open>block_store.py\<close> describes: a signature is indexed iff a row carries it, a balance is
  the sum over all rows, a public key is registered with its first use.  Committing a block appends to the
  chain, rolling back truncates it, and rebuilding the indexes from the blocks gives back the same indexes.
\<close>

record ablock =
  a_h :: nat
  a_hash :: pystr
  a_rows :: "lrow list"
  a_diff :: "pystr option"

section \<open>What a chain determines\<close>

definition chain_sigs :: "ablock list \<Rightarrow> bytes set" where
  "chain_sigs ch = (\<Union>b \<in> set ch. rows_sigs (a_h b) 0 (a_rows b))"

definition chain_addrs :: "ablock list \<Rightarrow> bytes set" where
  "chain_addrs ch = (\<Union>b \<in> set ch. rows_addrs (a_h b) 0 (a_rows b))"

abbreviation block_txids :: "hash_ext \<Rightarrow> bool \<Rightarrow> nat option \<Rightarrow> ablock \<Rightarrow> bytes set" where
  "block_txids H li fh b \<equiv> rows_txids H li fh (a_h b) 0 (a_rows b)"

definition chain_txids :: "hash_ext \<Rightarrow> bool \<Rightarrow> nat option \<Rightarrow> ablock list \<Rightarrow> bytes \<Rightarrow> nat option" where
  "chain_txids H li fh ch = fold (\<lambda>b. mark False (block_txids H li fh b) (a_h b)) ch Map.empty"

definition chain_hashes :: "ablock list \<Rightarrow> bytes \<Rightarrow> nat option" where
  "chain_hashes ch = fold (\<lambda>b m. m(the (hex_key (a_hash b)) \<mapsto> a_h b)) ch Map.empty"

definition chain_diffs :: "ablock list \<Rightarrow> bytes \<Rightarrow> pystr option" where
  "chain_diffs ch = fold (\<lambda>b m. m(hkey (a_h b) := a_diff b)) ch Map.empty"

definition reg_row :: "nat \<Rightarrow> lrow \<Rightarrow> (bytes \<Rightarrow> (nat \<times> bytes) option) \<Rightarrow> bytes \<Rightarrow> (nat \<times> bytes) option" where
  "reg_row h r m = (case r_pub r of
     PubText p \<Rightarrow>
       if is_coinbase_row r \<or> py_strip p = [] then m
       else (case akey (r_addr r) of None \<Rightarrow> m
         | Some k \<Rightarrow> if m k = None then m(k \<mapsto> (h, the (utf8_encode p))) else m)
   | PubId _ \<Rightarrow> m)"

definition reg_block ::
  "nat option \<Rightarrow> ablock \<Rightarrow> (bytes \<Rightarrow> (nat \<times> bytes) option) \<Rightarrow> bytes \<Rightarrow> (nat \<times> bytes) option" where
  "reg_block fh b m = (if at_fork (a_h b) fh then fold (reg_row (a_h b)) (a_rows b) m else m)"

definition chain_keys :: "nat option \<Rightarrow> ablock list \<Rightarrow> bytes \<Rightarrow> (nat \<times> bytes) option" where
  "chain_keys fh ch = fold (reg_block fh) ch Map.empty"

text \<open>The balance of an address: its fixed allocation and what every row moves.\<close>

definition chain_balance :: "bool \<Rightarrow> (pystr, int) dict \<Rightarrow> ablock list \<Rightarrow> pystr \<Rightarrow> parts" where
  "chain_balance li al ch a = (0, dict_get al a 0, 0, 0) + (\<Sum>b\<leftarrow>ch. rows_delta li (a_rows b) a)"

definition chain_txcount :: "ablock list \<Rightarrow> nat" where
  "chain_txcount ch = (\<Sum>b\<leftarrow>ch. length (a_rows b))"

section \<open>Representation\<close>

definition heights_ok :: "ablock list \<Rightarrow> bool" where
  "heights_ok ch \<longleftrightarrow> (\<exists>b0. map a_h ch = [b0..<b0 + length ch]) \<and> (\<forall>b \<in> set ch. a_h b < 2 ^ 64)"

text \<open>A key that is registered has a key of its own in the registry.\<close>

definition key_ok :: "lrow \<Rightarrow> bool" where
  "key_ok r \<longleftrightarrow> is_coinbase_row r \<or> (\<exists>p. r_pub r = PubText p \<and>
     (py_strip p = [] \<or> akey (r_addr r) \<noteq> None \<and> utf8_encode p \<noteq> None))"

definition block_ok :: "hash_ext \<Rightarrow> bool \<Rightarrow> nat option \<Rightarrow> ablock \<Rightarrow> bool" where
  "block_ok H li fh b \<longleftrightarrow> list_all (row_indexable H li fh (a_h b)) (enumerate 0 (a_rows b)) \<and>
     (\<forall>r \<in> set (a_rows b). row_wf li (a_h b) r) \<and> texts (a_rows b) \<and>
     (at_fork (a_h b) fh \<longrightarrow> (\<forall>r \<in> set (a_rows b). key_ok r))"

definition block_stored :: "bool \<Rightarrow> addr_ext \<Rightarrow> block_store \<Rightarrow> ablock \<Rightarrow> bool" where
  "block_stored li X s b \<longleftrightarrow> (\<exists>rec k. kv_get (bs_blocks s) (hkey (a_h b)) = Some rec \<and>
     expand li X s (a_h b) rec = Some (a_rows b) \<and> bh (sb_h rec) = Some k \<and> hex_key (a_hash b) = Some k \<and>
     hash_text (sb_h rec) = a_hash b)"

text \<open>No block repeats a hash or a transaction id of the blocks below it.\<close>

definition chain_fresh :: "hash_ext \<Rightarrow> bool \<Rightarrow> nat option \<Rightarrow> ablock list \<Rightarrow> bool" where
  "chain_fresh H li fh ch \<longleftrightarrow> (\<forall>i < length ch. the (hex_key (a_hash (ch ! i))) \<notin> dom (chain_hashes (take i ch)) \<and>
     block_txids H li fh (ch ! i) \<inter> dom (chain_txids H li fh (take i ch)) = {})"

text \<open>Everything but the balances and the key registry, which a rollback adjusts after its loop.\<close>

definition core ::
  "bool \<Rightarrow> hash_ext \<Rightarrow> addr_ext \<Rightarrow> nat option \<Rightarrow> bytes set \<Rightarrow> ablock list \<Rightarrow> block_store \<Rightarrow> bool" where
  "core li H X fh K ch s \<longleftrightarrow>
     heights_ok ch \<and> chain_fresh H li fh ch \<and> (\<forall>b \<in> set ch. block_ok H li fh b) \<and>
     map fst (bs_blocks s) = map (\<lambda>b. hkey (a_h b)) ch \<and> (\<forall>b \<in> set ch. block_stored li X s b) \<and>
     idx_ok s \<and> kv_ok (bs_hashes s) \<and> kv_ok (bs_diff s) \<and>
     kv_get (bs_hashes s) = chain_hashes ch \<and> kv_get (bs_diff s) = chain_diffs ch \<and>
     kv_get (bs_sig s) = mark False (chain_sigs ch) () Map.empty \<and>
     kv_get (bs_addr s) = mark False (chain_addrs ch) () Map.empty \<and>
     kv_get (bs_txid s) = chain_txids H li fh ch \<and>
     (case bs_txcount s of Some n \<Rightarrow> n | None \<Rightarrow> 0) = chain_txcount ch \<and>
     pk_inv H K s"

text \<open>A chain whose balances can be stored at every height.\<close>

definition bal_good :: "(pystr \<Rightarrow> parts) \<Rightarrow> bool" where
  "bal_good f \<longleftrightarrow> (\<forall>a. f a \<noteq> 0 \<longrightarrow> short a \<and> akey a \<noteq> None \<and> bal_pack (f a) \<noteq> None)"

definition represents ::
  "bool \<Rightarrow> hash_ext \<Rightarrow> addr_ext \<Rightarrow> nat option \<Rightarrow> bytes set \<Rightarrow> ablock list \<Rightarrow> block_store \<Rightarrow> bool" where
  "represents li H X fh K ch s \<longleftrightarrow> core li H X fh K ch s \<and>
     kv_ok (bs_pkref s) \<and> kv_get (bs_pkref s) = chain_keys fh ch \<and>
     bal_rel (bs_bal s) (chain_balance li (allocations s) ch) \<and>
     (\<forall>n. bal_good (chain_balance li (allocations s) (take n ch)))"

section \<open>The effect of stored rows\<close>

lemma enumerate_map: "enumerate n (map f xs) = map (\<lambda>(i, x). (i, f x)) (enumerate n xs)"
  by (induction xs arbitrary: n) auto

lemma stored_rows_same:
  assumes "\<forall>r \<in> set rows. row_wf li h r" and rows'_def: "rows' = map (stored_form li pf h hx) rows"
  shows "rows_sigs h n rows' = rows_sigs h n rows" and "rows_addrs h n rows' = rows_addrs h n rows"
    and "rows_txids H li fh h n rows' = rows_txids H li fh h n rows"
    and "rows_delta li rows' = rows_delta li rows"
    and "list_all (row_indexable H li fh h) (enumerate n rows') = list_all (row_indexable H li fh h) (enumerate n rows)"
    and "\<forall>r \<in> set rows'. row_wf li h r"
    and "fold (reg_row h) rows' m = fold (reg_row h) rows m"
proof -
  have same: "row_wf li h r" if "(i, r) \<in> set (enumerate n rows)" for i r
    using assms(1) that by (auto simp: in_set_enumerate_eq)
  note S = stored_row_same [OF _ refl, where pf = pf and hx = hx]
  show "rows_sigs h n rows' = rows_sigs h n rows"
    unfolding rows_sigs_def rows'_def enumerate_map set_map image_image
    by (intro SUP_cong refl) (auto simp: row_sigs_def S(1) [OF same])
  show "rows_addrs h n rows' = rows_addrs h n rows"
    unfolding rows_addrs_def rows'_def enumerate_map set_map image_image
    by (intro SUP_cong refl) (auto simp: row_addrs_def S(2,3) [OF same])
  show "rows_txids H li fh h n rows' = rows_txids H li fh h n rows"
    unfolding rows_txids_def rows'_def enumerate_map set_map image_image
    by (intro SUP_cong refl) (auto simp: row_txids_def S(8) [OF same])
  have "row_delta li (stored_form li pf h hx r) = row_delta li r" if "r \<in> set rows" for r
    using S(2,3,5,6,7) [where r = r] assms(1) that by (simp add: row_delta_def money_def fun_eq_iff)
  then show "rows_delta li rows' = rows_delta li rows"
    by (simp add: rows_delta_def rows'_def o_def fun_eq_iff cong: map_cong)
  have "row_indexable H li fh h (i, stored_form li pf h hx r) = row_indexable H li fh h (i, r)"
    if "(i, r) \<in> set (enumerate n rows)" for i r
    using S [OF same [OF that]] by (simp add: row_indexable_def)
  then show "list_all (row_indexable H li fh h) (enumerate n rows') = list_all (row_indexable H li fh h) (enumerate n rows)"
    by (auto simp: rows'_def enumerate_map list_all_iff)
  show "\<forall>r \<in> set rows'. row_wf li h r" using S(10) assms(1) by (auto simp: rows'_def)
  have "reg_row h (stored_form li pf h hx r) = reg_row h r" if "r \<in> set rows" for r
    using S(2,4,9) [where r = r] assms(1) that by (simp add: reg_row_def fun_eq_iff split: pubkey.split)
  then show "fold (reg_row h) rows' m = fold (reg_row h) rows m"
    unfolding rows'_def fold_map o_def by (intro fold_cong) auto
qed


section \<open>Registering public keys\<close>

lemma register_pubkey_eq:
  assumes "key_ok r" and "kv_ok (bs_pkref s)"
  shows "\<exists>db. register_pubkey h r s = Some (s\<lparr>bs_pkref := db\<rparr>) \<and> kv_ok db \<and> kv_get db = reg_row h r (kv_get (bs_pkref s))"
proof (cases "is_coinbase_row r")
  case True
  then show ?thesis using assms(2)
    by (intro exI [of _ "bs_pkref s"]) (simp add: register_pubkey_def reg_row_def split: pubkey.split)
next
  case False
  then obtain p where p: "r_pub r = PubText p" using assms(1) by (auto simp: key_ok_def)
  show ?thesis
  proof (cases "py_strip p = []")
    case True
    then show ?thesis using False p assms(2)
      by (intro exI [of _ "bs_pkref s"]) (simp add: register_pubkey_def reg_row_def)
  next
    case ne: False
    then obtain k b where k: "akey (r_addr r) = Some k" "utf8_encode p = Some b"
      using False p assms(1) by (auto simp: key_ok_def)
    show ?thesis
    proof (cases "kv_get (bs_pkref s) k")
      case None
      then show ?thesis using False ne p k assms(2)
        by (intro exI [of _ "kv_put (bs_pkref s) k (h, b)"])
           (simp add: register_pubkey_def reg_row_def akey_def [symmetric] kv_ok_put kv_get_put_fun)
    next
      case (Some v)
      then show ?thesis using False ne p k assms(2)
        by (intro exI [of _ "bs_pkref s"]) (simp add: register_pubkey_def reg_row_def akey_def [symmetric])
    qed
  qed
qed

lemma register_fold:
  assumes "\<forall>r \<in> set rows. key_ok r" and "kv_ok (bs_pkref s)"
  shows "\<exists>db. foldM_opt (register_pubkey h) rows s = Some (s\<lparr>bs_pkref := db\<rparr>) \<and> kv_ok db \<and>
    kv_get db = fold (reg_row h) rows (kv_get (bs_pkref s))"
  using assms
proof (induction rows arbitrary: s)
  case Nil
  then show ?case by (intro exI [of _ "bs_pkref s"]) simp
next
  case (Cons r rows)
  then obtain db where db: "register_pubkey h r s = Some (s\<lparr>bs_pkref := db\<rparr>)" "kv_ok db"
      "kv_get db = reg_row h r (kv_get (bs_pkref s))"
    using register_pubkey_eq [of r s h] by auto
  obtain db' where "foldM_opt (register_pubkey h) rows (s\<lparr>bs_pkref := db\<rparr>) = Some (s\<lparr>bs_pkref := db'\<rparr>)" "kv_ok db'"
      "kv_get db' = fold (reg_row h) rows (kv_get db)"
    using Cons.IH [of "s\<lparr>bs_pkref := db\<rparr>"] Cons.prems db(2) by auto
  then show ?case using db by auto
qed

lemma register_pubkey_key:
  assumes "register_pubkey h r s = Some s'" and "r_pub r = PubText p" and "utf8_encode p \<noteq> None"
  shows "key_ok r"
  using assms by (auto simp: register_pubkey_def key_ok_def akey_def split: if_splits elim!: bind_SomeE)

lemma register_fold_keys:
  assumes "foldM_opt (register_pubkey h) rows s = Some s'"
    and "\<forall>r \<in> set rows. \<exists>p. r_pub r = PubText p \<and> utf8_encode p \<noteq> None"
  shows "\<forall>r \<in> set rows. key_ok r"
  using assms
proof (induction rows arbitrary: s)
  case (Cons r rows)
  then obtain t where "register_pubkey h r s = Some t" "foldM_opt (register_pubkey h) rows t = Some s'"
    by (auto elim!: bind_SomeE)
  then show ?case using Cons register_pubkey_key by auto
qed simp

section \<open>Indexing a whole block\<close>

definition index_effect ::
  "bool \<Rightarrow> hash_ext \<Rightarrow> nat option \<Rightarrow> bool \<Rightarrow> nat \<Rightarrow> lrow list \<Rightarrow> block_store \<Rightarrow> block_store \<Rightarrow> bool" where
  "index_effect li H fh del h rows s t \<longleftrightarrow> idx_ok t \<and> kv_ok (bs_pkref t) \<and>
     kv_get (bs_sig t) = mark del (rows_sigs h 0 rows) () (kv_get (bs_sig s)) \<and>
     kv_get (bs_addr t) = mark del (rows_addrs h 0 rows) () (kv_get (bs_addr s)) \<and>
     kv_get (bs_txid t) = mark del (rows_txids H li fh h 0 rows) h (kv_get (bs_txid s)) \<and>
     kv_get (bs_pkref t) = (if at_fork h fh \<and> \<not> del then fold (reg_row h) rows (kv_get (bs_pkref s))
                            else kv_get (bs_pkref s)) \<and>
     t = s\<lparr>bs_sig := bs_sig t, bs_addr := bs_addr t, bs_txid := bs_txid t, bs_pkref := bs_pkref t\<rparr>"

lemma idx_step_others:
  "idx_step del h S A T s t \<Longrightarrow> bs_pkref t = bs_pkref s"
  "idx_step del h S A T s t \<Longrightarrow> t = s\<lparr>bs_sig := bs_sig t, bs_addr := bs_addr t, bs_txid := bs_txid t\<rparr>"
  unfolding idx_step_def by (cases s; cases t; simp)+

lemma index_rows_effect:
  assumes "index_rows li H h rows fh del (s, acc) = Some (t, acc')" and "idx_ok s" "kv_ok (bs_pkref s)"
    and "at_fork h fh \<and> \<not> del \<Longrightarrow> \<forall>r \<in> set rows. \<exists>p. r_pub r = PubText p \<and> utf8_encode p \<noteq> None"
  shows "index_effect li H fh del h rows s t"
    and "acc_fun acc' = (\<lambda>a. acc_fun acc a + bal_sgn del (rows_delta li rows a))"
    and "dict_ok acc \<Longrightarrow> dict_ok acc'"
    and "fst ` set acc' \<subseteq> r_addr ` set rows \<union> r_recip ` set rows \<union> fst ` set acc"
    and "list_all (row_indexable H li fh h) (enumerate 0 rows)"
    and "at_fork h fh \<and> \<not> del \<Longrightarrow> \<forall>r \<in> set rows. key_ok r"
proof -
  obtain u where u: "foldM_opt (index_row li H h fh del) (enumerate 0 rows) (s, acc) = Some (u, acc')"
    and t: "(if at_fork h fh \<and> \<not> del then foldM_opt (register_pubkey h) rows u else Some u) = Some t"
    using assms(1) unfolding index_rows_def by (auto elim!: bind_SomeE simp del: foldM_opt.simps)
  note F = index_fold [OF u assms(2)]
  then show "acc_fun acc' = (\<lambda>a. acc_fun acc a + bal_sgn del (rows_delta li rows a))"
    and "dict_ok acc \<Longrightarrow> dict_ok acc'"
    and "fst ` set acc' \<subseteq> r_addr ` set rows \<union> r_recip ` set rows \<union> fst ` set acc"
    and "list_all (row_indexable H li fh h) (enumerate 0 rows)" by blast+
  have st: "idx_step del h (rows_sigs h 0 rows) (rows_addrs h 0 rows) (rows_txids H li fh h 0 rows) s u"
    using F by blast
  note o = idx_step_others [OF st]
  show keys: "\<forall>r \<in> set rows. key_ok r" if "at_fork h fh \<and> \<not> del"
    using register_fold_keys [of h rows u t] t assms(4) that by simp
  show "index_effect li H fh del h rows s t"
  proof (cases "at_fork h fh \<and> \<not> del")
    case True
    have "kv_ok (bs_pkref u)" using assms(3) o(1) by simp
    then obtain db where "t = u\<lparr>bs_pkref := db\<rparr>" "kv_ok db" "kv_get db = fold (reg_row h) rows (kv_get (bs_pkref u))"
      using register_fold [OF keys [OF True], of u h] t True by auto
    then show ?thesis using st o True unfolding index_effect_def idx_step_def idx_ok_def by (cases s; cases u) simp
  next
    case False
    then show ?thesis using st o t assms(3) unfolding index_effect_def idx_step_def by (cases s; cases u) auto
  qed
qed

lemma index_rows_total:
  assumes "list_all (row_indexable H li fh h) (enumerate 0 rows)" and "idx_ok s" "kv_ok (bs_pkref s)"
    and "at_fork h fh \<and> \<not> del \<Longrightarrow> \<forall>r \<in> set rows. key_ok r"
  shows "\<exists>t acc'. index_rows li H h rows fh del (s, acc) = Some (t, acc')"
proof -
  obtain u acc' where u: "foldM_opt (index_row li H h fh del) (enumerate 0 rows) (s, acc) = Some (u, acc')"
    using index_fold_total [OF assms(1), of del "(s, acc)"] by auto
  have "kv_ok (bs_pkref u)" using index_fold [OF u assms(2)] idx_step_others(1) assms(3) by fastforce
  then show ?thesis using register_fold [of rows u h] assms(4) by (auto simp: index_rows_def u)
qed


section \<open>Appending to a chain\<close>

lemma chain_snoc:
  "chain_sigs (ch @ [b]) = rows_sigs (a_h b) 0 (a_rows b) \<union> chain_sigs ch"
  "chain_addrs (ch @ [b]) = rows_addrs (a_h b) 0 (a_rows b) \<union> chain_addrs ch"
  "chain_txids H li fh (ch @ [b]) = mark False (block_txids H li fh b) (a_h b) (chain_txids H li fh ch)"
  "chain_hashes (ch @ [b]) = (chain_hashes ch)(the (hex_key (a_hash b)) \<mapsto> a_h b)"
  "chain_diffs (ch @ [b]) = (chain_diffs ch)(hkey (a_h b) := a_diff b)"
  "chain_keys fh (ch @ [b]) = reg_block fh b (chain_keys fh ch)"
  "chain_balance li al (ch @ [b]) = (\<lambda>a. chain_balance li al ch a + rows_delta li (a_rows b) a)"
  "chain_txcount (ch @ [b]) = chain_txcount ch + length (a_rows b)"
  by (auto simp: chain_sigs_def chain_addrs_def chain_txids_def chain_hashes_def chain_diffs_def chain_keys_def
      chain_balance_def chain_txcount_def fun_eq_iff add.assoc)

lemma heights_ok_snoc:
  "heights_ok (ch @ [b]) \<longleftrightarrow> heights_ok ch \<and> a_h b < 2 ^ 64 \<and> (ch \<noteq> [] \<longrightarrow> a_h b = a_h (last ch) + 1)"
proof -
  have "(\<exists>b0. map a_h (ch @ [b]) = [b0..<b0 + length (ch @ [b])]) \<longleftrightarrow>
      (\<exists>b0. map a_h ch = [b0..<b0 + length ch]) \<and> (ch \<noteq> [] \<longrightarrow> a_h b = a_h (last ch) + 1)"
  proof (cases "ch = []")
    case False
    have "a_h (last ch) = b0 + length ch - 1" if "map a_h ch = [b0..<b0 + length ch]" for b0
    proof -
      have "a_h (last ch) = last (map a_h ch)" using False by (simp add: last_map)
      also have "\<dots> = b0 + length ch - 1" using that False by simp
      finally show ?thesis .
    qed
    then show ?thesis using False by (auto simp: Suc_le_eq)
  qed simp
  then show ?thesis by (auto simp: heights_ok_def)
qed

lemma heights_less:
  assumes "heights_ok (ch @ [b])" and "c \<in> set ch"
  shows "a_h c < a_h b"
proof -
  obtain b0 where m: "map a_h (ch @ [b]) = [b0..<b0 + length (ch @ [b])]" using assms(1) by (auto simp: heights_ok_def)
  have "sorted_wrt (<) (map a_h (ch @ [b]))" unfolding m by (rule sorted_wrt_upt)
  then show ?thesis using assms(2) by (auto simp: sorted_wrt_append)
qed

lemma chain_fresh_snoc:
  "chain_fresh H li fh (ch @ [b]) \<longleftrightarrow> chain_fresh H li fh ch \<and>
     the (hex_key (a_hash b)) \<notin> dom (chain_hashes ch) \<and> block_txids H li fh b \<inter> dom (chain_txids H li fh ch) = {}"
  unfolding chain_fresh_def by (simp add: All_less_Suc nth_append conj_ac cong: conj_cong)

lemma chain_diffs_dom:
  assumes "heights_ok ch" and "h < 2 ^ 64" and "\<forall>c \<in> set ch. a_h c \<noteq> h"
  shows "chain_diffs ch (hkey h) = None"
  using assms
proof (induction ch rule: rev_induct)
  case (snoc b ch)
  then show ?case by (simp add: chain_snoc heights_ok_snoc hkey_inject)
qed (simp add: chain_diffs_def)

lemma core_kv_ok_blocks:
  assumes "core li H X fh K ch s"
  shows "kv_ok (bs_blocks s)"
proof -
  obtain b0 where m: "map a_h ch = [b0..<b0 + length ch]" and lt: "\<forall>b \<in> set ch. a_h b < 2 ^ 64"
    using assms by (auto simp: core_def heights_ok_def)
  have "sorted_wrt (<) (map a_h ch)" unfolding m by (rule sorted_wrt_upt)
  then have "sorted_wrt (\<lambda>b c. a_h b < a_h c) ch" by (simp add: sorted_wrt_map)
  then have "sorted_wrt (\<lambda>b c. hkey (a_h b) < hkey (a_h c)) ch"
    by (rule sorted_wrt_mono_rel [rotated]) (use lt hkey_less_iff in auto)
  then have "sorted_wrt (<) (map fst (bs_blocks s))" using assms by (simp add: core_def sorted_wrt_map)
  then show ?thesis by (simp add: kv_ok_def)
qed

lemma core_tip:
  assumes "core li H X fh K ch s"
  shows "tip_in (bs_blocks s) = (if ch = [] then None else Some (a_h (last ch)))"
proof (cases ch rule: rev_cases)
  case Nil
  then have "bs_blocks s = []" using assms by (simp add: core_def)
  then show ?thesis using Nil by (simp add: tip_in_def kv_range_def)
next
  case (snoc c b)
  have "map fst (bs_blocks s) = map (\<lambda>b. hkey (a_h b)) c @ [hkey (a_h b)]" using assms by (simp add: core_def snoc)
  then obtain d v where d: "bs_blocks s = d @ [(hkey (a_h b), v)]"
    by (auto simp: map_eq_append_conv)
  have "a_h b < 2 ^ 64" using assms by (simp add: core_def snoc heights_ok_def)
  then show ?thesis by (simp add: tip_in_def kv_range_def d snoc unhkey_hkey)
qed

lemma block_stored_mono:
  assumes "block_stored li X s b" and "texts (a_rows b)" and "kv_get (bs_pkr s) \<subseteq>\<^sub>m kv_get (bs_pkr t)"
    and "kv_get (bs_blocks t) (hkey (a_h b)) = kv_get (bs_blocks s) (hkey (a_h b))"
  shows "block_stored li X t b"
  using assms(1,4) expand_mono [OF _ assms(2,3)] unfolding block_stored_def by auto

lemma core_append:
  assumes core: "core li H X fh K ch s"
    and hts: "heights_ok (ch @ [b])" and fresh: "chain_fresh H li fh (ch @ [b])" and ok: "block_ok H li fh b"
    and blocks: "bs_blocks t = kv_put (bs_blocks s) (hkey (a_h b)) rec"
    and pkr: "kv_get (bs_pkr s) \<subseteq>\<^sub>m kv_get (bs_pkr t)" "pk_inv H K t"
    and rec: "expand li X t (a_h b) rec = Some (a_rows b)" "bh (sb_h rec) = Some k" "hex_key (a_hash b) = Some k"
      "hash_text (sb_h rec) = a_hash b"
    and hashes: "kv_ok (bs_hashes t)" "kv_get (bs_hashes t) = (kv_get (bs_hashes s))(k \<mapsto> a_h b)"
    and diff: "kv_ok (bs_diff t)" "kv_get (bs_diff t) = (kv_get (bs_diff s))(hkey (a_h b) := a_diff b)"
    and idx: "idx_ok t" "kv_get (bs_sig t) = mark False (rows_sigs (a_h b) 0 (a_rows b)) () (kv_get (bs_sig s))"
      "kv_get (bs_addr t) = mark False (rows_addrs (a_h b) 0 (a_rows b)) () (kv_get (bs_addr s))"
      "kv_get (bs_txid t) = mark False (block_txids H li fh b) (a_h b) (kv_get (bs_txid s))"
    and cnt: "(case bs_txcount t of Some n \<Rightarrow> n | None \<Rightarrow> 0) =
      (case bs_txcount s of Some n \<Rightarrow> n | None \<Rightarrow> 0) + length (a_rows b)"
  shows "core li H X fh K (ch @ [b]) t"
proof -
  have lt: "a_h c < a_h b" "a_h c < 2 ^ 64" "a_h b < 2 ^ 64" if "c \<in> set ch" for c
    using heights_less [OF hts that] hts that by (auto simp: heights_ok_def)
  have "\<forall>e \<in> set (bs_blocks s). fst e < hkey (a_h b)"
  proof
    fix e assume "e \<in> set (bs_blocks s)"
    then have "fst e \<in> set (map fst (bs_blocks s))" by simp
    moreover have "map fst (bs_blocks s) = map (\<lambda>b. hkey (a_h b)) ch" using core by (simp add: core_def)
    ultimately obtain c where "c \<in> set ch" "fst e = hkey (a_h c)" by auto
    then show "fst e < hkey (a_h b)" using lt hkey_less_iff by simp
  qed
  then have B: "bs_blocks t = bs_blocks s @ [(hkey (a_h b), rec)]" using kv_put_last blocks by simp
  have okb: "kv_ok (bs_blocks s)" using core_kv_ok_blocks core .
  have stored: "block_stored li X t c" if c: "c \<in> set ch" for c
  proof (rule block_stored_mono [OF _ _ pkr(1)])
    show "block_stored li X s c" "texts (a_rows c)" using core c by (auto simp: core_def block_ok_def)
    show "kv_get (bs_blocks t) (hkey (a_h c)) = kv_get (bs_blocks s) (hkey (a_h c))"
      unfolding blocks kv_get_put [OF okb] using lt [OF c] hkey_inject [of "a_h c" "a_h b"] by auto
  qed
  have "kv_get (bs_blocks t) (hkey (a_h b)) = Some rec" by (simp add: blocks kv_get_put [OF okb])
  then have "block_stored li X t b" using rec by (auto simp: block_stored_def)
  then show ?thesis
    using core hts fresh ok stored hashes diff idx cnt pkr(2) rec(3) B
    unfolding core_def by (simp add: chain_snoc mark_Un)
qed

end
