(* ===== verification/LedgerOps.thy ===== *)
theory LedgerOps
  imports Ledger
begin

text \<open>
  The operations of the ledger refine the chain: \<^verbatim>\<open>commit_block\<close> appends, \<^verbatim>\<open>rollback\<close> truncates and returns the
  removed rows, \<^verbatim>\<open>reindex\<close> rebuilds what the live maintenance keeps.
\<close>

section \<open>Committing a block\<close>

lemma mapM_opt_in: "mapM_opt f xs = Some ys \<Longrightarrow> y \<in> set ys \<Longrightarrow> \<exists>x \<in> set xs. f x = Some y"
  by (induction xs arbitrary: ys) (auto elim!: bind_SomeE)

lemma with_pub_utf8: "with_pub s i = Some (PubText p) \<Longrightarrow> utf8_encode p \<noteq> None"
  by (auto simp: with_pub_def utf8_encode_decode split: option.splits)

lemma expand_tx_utf8: "expand_tx li s h hx d e = Some r \<Longrightarrow> r_pub r = PubText p \<Longrightarrow> utf8_encode p \<noteq> None"
  using with_pub_utf8 by (cases e) (auto simp: expand_tx_def full_row_def elim!: bind_SomeE)

lemma expand_utf8: "expand li X s h rec = Some rows \<Longrightarrow> r \<in> set rows \<Longrightarrow> r_pub r = PubText p \<Longrightarrow> utf8_encode p \<noteq> None"
  unfolding expand_def by (elim bind_SomeE) (blast dest: mapM_opt_in expand_tx_utf8)

definition new_block ::
  "bool \<Rightarrow> nat option \<Rightarrow> nat \<Rightarrow> pystr \<Rightarrow> lrow list \<Rightarrow> tval option \<Rightarrow> ablock" where
  "new_block li fh h hs rows d =
     (let pf = at_fork h fh; hx = read_hash pf hs in
      \<lparr>a_h = h, a_hash = hx, a_rows = map (stored_form li pf h hx) rows, a_diff = map_option text_of d\<rparr>)"

lemma bal_rel_good: "bal_rel db f \<Longrightarrow> bal_good f"
  by (simp add: bal_rel_def bal_good_def)

lemma apply_balances_SomeD:
  "apply_balances acc s = Some t \<Longrightarrow> \<exists>db. foldM_opt apply_balance acc (bs_bal s) = Some db \<and> t = s\<lparr>bs_bal := db\<rparr>"
  by (auto simp: apply_balances_def elim!: bind_SomeE)

lemma commit_represents:
  assumes rep: "represents li H X fh K ch s" and call: "commit_block li H X h hs rows d fh s = Some s'"
    and wf: "\<forall>r \<in> set rows. row_wf li h r" and keys: "row_keys K rows" and inj: "inj_on (blake2b H 32) K"
    and hash: "\<And>k. hex_key hs = Some k \<Longrightarrow> kv_get (bs_hashes s) k = None"
    and txids: "rows_txids H li fh h 0 rows \<inter> dom (kv_get (bs_txid s)) = {}"
  shows "represents li H X fh K (ch @ [new_block li fh h hs rows d]) s'" and "allocations s' = allocations s"
proof -
  define B where "B = new_block li fh h hs rows d"
  let ?pf = "at_fork h fh"
  let ?hx = "read_hash ?pf hs" and ?rows = "map (stored_form li ?pf h (read_hash ?pf hs)) rows"
  have b: "a_h B = h" "a_hash B = ?hx" "a_rows B = ?rows" "a_diff B = map_option text_of d"
    by (simp_all add: B_def new_block_def Let_def)
  note same = stored_rows_same [OF wf refl, where pf = ?pf and hx = ?hx]
  have core: "core li H X fh K ch s" using rep by (simp add: represents_def)
  have tip: "ch \<noteq> [] \<longrightarrow> h = a_h (last ch) + 1"
    using call core_tip [OF core] by (auto simp: commit_block_def split: if_splits)
  obtain s1 s3 acc s4 where c1: "put_body li H X h hs rows fh s = Some s1"
    and c2: "index_rows li H h rows fh False
        (case d of None \<Rightarrow> s1 | Some x \<Rightarrow> s1\<lparr>bs_diff := kv_put (bs_diff s1) (hkey h) (text_of x)\<rparr>, []) = Some (s3, acc)"
    and c3: "apply_balances acc s3 = Some s4" and s': "s' = bump_txcount (int (length rows)) s4"
    using call unfolding commit_block_def Let_def by (elim bind_SomeE) (auto elim!: bind_SomeE)
  define s2 where "s2 = (case d of None \<Rightarrow> s1 | Some x \<Rightarrow> s1\<lparr>bs_diff := kv_put (bs_diff s1) (hkey h) (text_of x)\<rparr>)"
  note c2 = c2 [folded s2_def]
  have pk0: "pk_inv H K s" using core by (simp add: core_def)
  obtain t rec k where t: "pk_inv H K t" "pk_ext s t" "hex_key hs = Some k" "h < 2 ^ 64"
    and s1: "s1 = t\<lparr>bs_blocks := kv_put (bs_blocks t) (hkey h) rec, bs_hashes := kv_put (bs_hashes t) k h\<rparr>"
    and rec: "expand li X s1 h rec = Some ?rows" "hash_text (sb_h rec) = ?hx" "bh (sb_h rec) = Some k"
    by (rule put_body_step [OF c1 pk0 inj keys])
  obtain tp tr where te: "t = s\<lparr>bs_pk := tp, bs_pkr := tr\<rparr>" using t(2) unfolding pk_ext_def by blast
  have pubs: "\<exists>p. r_pub r = PubText p \<and> utf8_encode p \<noteq> None" if r: "r \<in> set rows" for r
  proof -
    obtain p where p: "r_pub r = PubText p" using keys r by (auto simp: row_keys_def)
    have "stored_form li ?pf h ?hx r \<in> set ?rows" using r by simp
    moreover have "r_pub (stored_form li ?pf h ?hx r) = PubText p" using p by (simp add: stored_form_def)
    ultimately show ?thesis using expand_utf8 [OF rec(1)] p by blast
  qed
  have ok2: "idx_ok s2" "kv_ok (bs_pkref s2)"
    using rep core by (simp_all add: s2_def s1 te represents_def core_def idx_ok_def split: option.split)
  note E = index_rows_effect [OF c2 ok2]
  have eff: "index_effect li H fh False h rows s2 s3" using E(1) pubs by blast
  have acc: "acc_fun acc = rows_delta li rows" "dict_ok acc" "fst ` set acc \<subseteq> r_addr ` set rows \<union> r_recip ` set rows"
    using E(2-4) pubs by (auto simp: acc_fun_def bal_sgn_def fun_eq_iff)
  have idxable: "list_all (row_indexable H li fh h) (enumerate 0 rows)" and kok: "?pf \<Longrightarrow> \<forall>r \<in> set rows. key_ok r"
    using E(5,6) pubs by blast+
  obtain db where db: "foldM_opt apply_balance acc (bs_bal s3) = Some db" "s4 = s3\<lparr>bs_bal := db\<rparr>"
    using apply_balances_SomeD [OF c3] by blast
  have e3: "s3 = s2\<lparr>bs_sig := bs_sig s3, bs_addr := bs_addr s3, bs_txid := bs_txid s3, bs_pkref := bs_pkref s3\<rparr>"
    using eff by (simp add: index_effect_def)
  have e': "bs_blocks s' = kv_put (bs_blocks s) (hkey h) rec" "bs_hashes s' = kv_put (bs_hashes s) k h"
      "bs_diff s' = (case d of None \<Rightarrow> bs_diff s | Some x \<Rightarrow> kv_put (bs_diff s) (hkey h) (text_of x))"
      "bs_pk s' = bs_pk t" "bs_pkr s' = bs_pkr t" "bs_sig s' = bs_sig s3" "bs_addr s' = bs_addr s3" "bs_txid s' = bs_txid s3"
      "bs_pkref s' = bs_pkref s3" "bs_bal s' = db" "bs_bal s3 = bs_bal s" "allocations s' = allocations s"
      "bs_txcount s' = Some ((case bs_txcount s of Some n \<Rightarrow> n | None \<Rightarrow> 0) + length rows)"
    by (simp_all add: s' bump_txcount_def db(2) allocations_def,
        (subst e3, simp add: s2_def s1 te nat_add_distrib split: option.split)+)
  have g2: "bs_sig s2 = bs_sig s" "bs_addr s2 = bs_addr s" "bs_txid s2 = bs_txid s" "bs_pkref s2 = bs_pkref s"
    by (simp_all add: s2_def s1 te split: option.split)
  have okk: "kv_ok (bs_hashes s)" "kv_ok (bs_diff s)" using core by (simp_all add: core_def)
  have hts: "heights_ok (ch @ [B])" using core tip t(4) by (simp add: heights_ok_snoc b core_def)
  have hk: "hex_key (a_hash B) = Some k" using t(3) by (simp add: b hex_key_read_hash)
  have fresh: "chain_fresh H li fh (ch @ [B])"
    using core hash [OF t(3)] txids hk by (auto simp: chain_fresh_snoc core_def b same(3))
  have bok: "block_ok H li fh B"
    using idxable same(5) [of H fh 0] same(6) kok texts_stored [OF row_keys_texts [OF keys]]
    by (auto simp: block_ok_def b key_ok_def stored_row_same(2,4,9) [OF _ refl] wf)
  have nodiff: "chain_diffs ch (hkey h) = None"
    using heights_less [OF hts] core t(4) by (intro chain_diffs_dom) (auto simp: core_def b)
  have "core li H X fh K (ch @ [B]) s'"
  proof (rule core_append [OF core hts fresh bok])
    show "bs_blocks s' = kv_put (bs_blocks s) (hkey (a_h B)) rec" by (simp add: e' b)
    show "kv_get (bs_pkr s) \<subseteq>\<^sub>m kv_get (bs_pkr s')" using t(2) by (simp add: e' pk_ext_def)
    show "pk_inv H K s'" using t(1) by (simp add: pk_inv_def e')
    show "expand li X s' (a_h B) rec = Some (a_rows B)"
      using expand_mono [OF rec(1), of s'] texts_stored [OF row_keys_texts [OF keys]] by (simp add: e' b s1)
    show "bh (sb_h rec) = Some k" "hex_key (a_hash B) = Some k" "hash_text (sb_h rec) = a_hash B"
      using rec hk by (simp_all add: b)
    show "kv_ok (bs_hashes s')" "kv_get (bs_hashes s') = (kv_get (bs_hashes s))(k \<mapsto> a_h B)"
      using okk by (simp_all add: e' b kv_ok_put kv_get_put_fun)
    show "kv_ok (bs_diff s')" "kv_get (bs_diff s') = (kv_get (bs_diff s))(hkey (a_h B) := a_diff B)"
      using okk nodiff core by (auto simp: e' b kv_ok_put kv_get_put_fun core_def split: option.split)
    show "idx_ok s'" "kv_get (bs_sig s') = mark False (rows_sigs (a_h B) 0 (a_rows B)) () (kv_get (bs_sig s))"
      "kv_get (bs_addr s') = mark False (rows_addrs (a_h B) 0 (a_rows B)) () (kv_get (bs_addr s))"
      "kv_get (bs_txid s') = mark False (block_txids H li fh B) (a_h B) (kv_get (bs_txid s))"
      using eff by (simp_all add: index_effect_def idx_ok_def e' b same(1-3) g2)
    show "(case bs_txcount s' of Some n \<Rightarrow> n | None \<Rightarrow> 0) =
        (case bs_txcount s of Some n \<Rightarrow> n | None \<Rightarrow> 0) + length (a_rows B)" by (simp add: e' b)
  qed
  moreover have "kv_ok (bs_pkref s') \<and> kv_get (bs_pkref s') = chain_keys fh (ch @ [B])"
  proof -
    have "kv_get (bs_pkref s3) = (if ?pf then fold (reg_row h) rows (chain_keys fh ch) else chain_keys fh ch)"
      and "kv_ok (bs_pkref s3)"
      using eff rep by (simp_all add: index_effect_def g2 represents_def)
    then show ?thesis by (simp only: e' chain_snoc reg_block_def b same(7))
  qed
  moreover have bal: "bal_rel (bs_bal s') (chain_balance li (allocations s') (ch @ [B]))"
  proof -
    have "bal_rel (bs_bal s3) (chain_balance li (allocations s) ch)" using rep by (simp add: e' represents_def)
    moreover have "\<forall>a \<in> fst ` set acc. short a" using acc(3) wf by (auto simp: row_wf_def)
    ultimately have "bal_rel db (\<lambda>a. chain_balance li (allocations s) ch a + acc_fun acc a)"
      using apply_fold_rel [OF db(1) _ acc(2)] by blast
    then show ?thesis by (simp add: e' chain_snoc b same(4) acc(1))
  qed
  moreover have "bal_good (chain_balance li (allocations s') (take n (ch @ [B])))" for n
    using rep bal_rel_good [OF bal] by (cases "n \<le> length ch") (auto simp: represents_def e')
  ultimately show "represents li H X fh K (ch @ [new_block li fh h hs rows d]) s'"
    unfolding represents_def B_def by blast
  show "allocations s' = allocations s" by (rule e')
qed


section \<open>Dropping the last block\<close>

lemma rows_sigs_height: "k \<in> rows_sigs h n rows \<Longrightarrow> fst (split_pos k) = int h"
  by (auto simp: rows_sigs_def row_sigs_def split_pos_sig_key)

lemma rows_addrs_height: "k \<in> rows_addrs h n rows \<Longrightarrow> fst (split_pos k) = int h"
  by (auto simp: rows_addrs_def row_addrs_def split_pos_addr_key)

lemma chain_index_disjoint:
  assumes "heights_ok (ch @ [b])"
  shows "rows_sigs (a_h b) 0 (a_rows b) \<inter> chain_sigs ch = {}"
    and "rows_addrs (a_h b) 0 (a_rows b) \<inter> chain_addrs ch = {}"
proof -
  have "False" if "c \<in> set ch" "fst (split_pos k) = int (a_h c)" "fst (split_pos k) = int (a_h b)" for c k
    using heights_less [OF assms that(1)] that(2,3) by simp
  then show "rows_sigs (a_h b) 0 (a_rows b) \<inter> chain_sigs ch = {}"
      "rows_addrs (a_h b) 0 (a_rows b) \<inter> chain_addrs ch = {}"
    unfolding chain_sigs_def chain_addrs_def by (blast dest: rows_sigs_height rows_addrs_height)+
qed

lemma mark_del_Un: "A \<inter> B = {} \<Longrightarrow> mark True A v (mark False (A \<union> B) v Map.empty) = mark False B v Map.empty"
  by (auto simp: mark_def fun_eq_iff)

lemma core_remove:
  assumes core: "core li H X fh K (ch @ [b]) s"
    and t: "idx_ok t" "bs_blocks t = kv_delete (bs_blocks s) (hkey (a_h b))"
      "bs_hashes t = kv_delete (bs_hashes s) (the (hex_key (a_hash b)))"
      "bs_diff t = kv_delete (bs_diff s) (hkey (a_h b))" "bs_pk t = bs_pk s" "bs_pkr t = bs_pkr s"
      "kv_get (bs_sig t) = mark True (rows_sigs (a_h b) 0 (a_rows b)) () (kv_get (bs_sig s))"
      "kv_get (bs_addr t) = mark True (rows_addrs (a_h b) 0 (a_rows b)) () (kv_get (bs_addr s))"
      "kv_get (bs_txid t) = mark True (block_txids H li fh b) (a_h b) (kv_get (bs_txid s))"
      "(case bs_txcount t of Some n \<Rightarrow> n | None \<Rightarrow> 0) =
       (case bs_txcount s of Some n \<Rightarrow> n | None \<Rightarrow> 0) - length (a_rows b)"
  shows "core li H X fh K ch t"
proof -
  have hts: "heights_ok (ch @ [b])" and fr: "chain_fresh H li fh (ch @ [b])" using core by (simp_all add: core_def)
  have lt: "a_h c < a_h b" "a_h c < 2 ^ 64" "a_h b < 2 ^ 64" if "c \<in> set ch" for c
    using heights_less [OF hts that] hts that by (auto simp: heights_ok_def)
  have neq: "hkey (a_h c) \<noteq> hkey (a_h b)" if "c \<in> set ch" for c using lt [OF that] hkey_inject by auto
  have "map fst (bs_blocks s) = map (\<lambda>c. hkey (a_h c)) ch @ [hkey (a_h b)]" using core by (simp add: core_def)
  then obtain d v where d: "bs_blocks s = d @ [(hkey (a_h b), v)]" "map fst d = map (\<lambda>c. hkey (a_h c)) ch"
    by (auto simp: map_eq_append_conv)
  have "fst e \<noteq> hkey (a_h b)" if "e \<in> set d" for e
  proof -
    have "fst e \<in> set (map (\<lambda>c. hkey (a_h c)) ch)" using that d(2) by (metis image_eqI list.set_map)
    then obtain c where "c \<in> set ch" "fst e = hkey (a_h c)" by auto
    then show ?thesis using neq [of c] by simp
  qed
  then have B: "bs_blocks t = d" unfolding t(2) d(1) kv_delete_def by (auto simp: filter_id_conv)
  have stored: "block_stored li X t c" if c: "c \<in> set ch" for c
  proof (rule block_stored_mono)
    show "block_stored li X s c" "texts (a_rows c)" using core c by (auto simp: core_def block_ok_def)
    show "kv_get (bs_pkr s) \<subseteq>\<^sub>m kv_get (bs_pkr t)" by (simp add: t)
    show "kv_get (bs_blocks t) (hkey (a_h c)) = kv_get (bs_blocks s) (hkey (a_h c))"
      using neq [OF c] by (simp add: t kv_get_delete)
  qed
  have dd: "chain_diffs ch (hkey (a_h b)) = None"
  proof (rule chain_diffs_dom)
    show "heights_ok ch" "a_h b < 2 ^ 64" using hts by (simp_all add: heights_ok_snoc)
    show "\<forall>c \<in> set ch. a_h c \<noteq> a_h b" using neq by metis
  qed
  note dis = chain_index_disjoint [OF hts]
  have "kv_get (bs_hashes t) = chain_hashes ch"
    using core fr by (auto simp: t core_def chain_snoc kv_get_delete_fun chain_fresh_snoc domIff)
  moreover have "kv_get (bs_diff t) = chain_diffs ch"
    using core dd by (auto simp: t core_def chain_snoc kv_get_delete_fun)
  moreover have "kv_get (bs_sig t) = mark False (chain_sigs ch) () Map.empty"
      "kv_get (bs_addr t) = mark False (chain_addrs ch) () Map.empty"
    using core dis by (simp_all add: t core_def chain_snoc mark_del_Un)
  moreover have "kv_get (bs_txid t) = chain_txids H li fh ch"
    using core fr by (simp add: t core_def chain_snoc chain_fresh_snoc mark_del_mark)
  moreover have "kv_ok (bs_hashes t)" "kv_ok (bs_diff t)" using core by (simp_all add: t core_def kv_ok_delete)
  ultimately show ?thesis
    using core hts fr stored B d(2) t(1,5,6,10) unfolding core_def
    by (simp add: heights_ok_snoc chain_fresh_snoc chain_snoc pk_inv_def)
qed

lemma drop_block_core:
  assumes core: "core li H X fh K (ch @ [b]) s" and pk: "kv_ok (bs_pkref s)"
    and acc: "dict_ok acc" "\<forall>a \<in> fst ` set acc. short a"
  obtains s' acc' ts where "drop_block li H X fh (a_h b) (s, acc, removed) = Some (s', acc', ts @ removed)"
    and "core li H X fh K ch s'" and "mapM_opt typed_row (a_rows b) = Some ts"
    and "bs_bal s' = bs_bal s" and "bs_pkref s' = bs_pkref s" and "bs_alloc s' = bs_alloc s"
    and "acc_fun acc' = (\<lambda>a. acc_fun acc a - rows_delta li (a_rows b) a)" and "dict_ok acc'" and "\<forall>a \<in> fst ` set acc'. short a"
proof -
  have ok: "block_ok H li fh b" and st: "block_stored li X s b" and idx: "idx_ok s" using core by (auto simp: core_def)
  obtain rec k where rec: "kv_get (bs_blocks s) (hkey (a_h b)) = Some rec"
      "expand li X s (a_h b) rec = Some (a_rows b)" "bh (sb_h rec) = Some k" "hex_key (a_hash b) = Some k"
    using st by (auto simp: block_stored_def)
  have wf: "\<forall>r \<in> set (a_rows b). row_wf li (a_h b) r" using ok by (simp add: block_ok_def)
  obtain ts where ts: "mapM_opt typed_row (a_rows b) = Some ts" using typed_rows_total [OF wf] by blast
  have ix: "list_all (row_indexable H li fh (a_h b)) (enumerate 0 (a_rows b))" using ok by (simp add: block_ok_def)
  obtain s1 acc1 where s1: "index_rows li H (a_h b) (a_rows b) fh True (s, acc) = Some (s1, acc1)"
    using index_rows_total [OF ix idx pk, of True acc] by auto
  note E = index_rows_effect [OF s1 idx pk]
  have eff: "index_effect li H fh True (a_h b) (a_rows b) s s1" using E(1) by simp
  then have e1: "s1 = s\<lparr>bs_sig := bs_sig s1, bs_addr := bs_addr s1, bs_txid := bs_txid s1, bs_pkref := bs_pkref s1\<rparr>"
    and pkr: "bs_pkref s1 = bs_pkref s"
    using pk by (auto simp: index_effect_def intro: kv_ext)
  let ?s2 = "s1\<lparr>bs_hashes := kv_delete (bs_hashes s1) k, bs_blocks := kv_delete (bs_blocks s1) (hkey (a_h b)),
                 bs_diff := kv_delete (bs_diff s1) (hkey (a_h b))\<rparr>"
  let ?t = "bump_txcount (- int (length (a_rows b))) ?s2"
  have f: "bs_blocks s1 = bs_blocks s" "bs_hashes s1 = bs_hashes s" "bs_diff s1 = bs_diff s" "bs_pk s1 = bs_pk s"
      "bs_pkr s1 = bs_pkr s" "bs_bal s1 = bs_bal s" "bs_txcount s1 = bs_txcount s" "bs_alloc s1 = bs_alloc s"
    by (subst e1, simp)+
  have "drop_block li H X fh (a_h b) (s, acc, removed) = Some (?t, acc1, ts @ removed)"
    using rec s1 ts by (simp add: drop_block_def raw_block_def f)
  moreover have "core li H X fh K ch ?t"
    using eff rec(4)
    by (intro core_remove [OF core]) (auto simp: bump_txcount_def f index_effect_def idx_ok_def nat_diff_distrib split: option.split)
  moreover have "bs_bal ?t = bs_bal s" "bs_pkref ?t = bs_pkref s" "bs_alloc ?t = bs_alloc s"
    by (simp_all add: bump_txcount_def f pkr)
  moreover have "acc_fun acc1 = (\<lambda>a. acc_fun acc a - rows_delta li (a_rows b) a)" "dict_ok acc1"
    using E(2,3) acc(1) by (simp_all add: bal_sgn_def)
  moreover have "\<forall>a \<in> fst ` set acc1. short a"
  proof -
    have "\<forall>r \<in> set (a_rows b). short (r_addr r) \<and> short (r_recip r)" using wf unfolding row_wf_def by blast
    moreover have "fst ` set acc1 \<subseteq> r_addr ` set (a_rows b) \<union> r_recip ` set (a_rows b) \<union> fst ` set acc"
      using E(4) by simp
    ultimately have "\<forall>a \<in> fst ` set acc1. a \<in> r_addr ` set (a_rows b) \<or> a \<in> r_recip ` set (a_rows b) \<or> a \<in> fst ` set acc"
      "\<forall>a \<in> r_addr ` set (a_rows b). short a" "\<forall>a \<in> r_recip ` set (a_rows b). short a" by auto
    then show ?thesis using acc(2) by meson
  qed
  ultimately show ?thesis by (rule that [OF _ _ ts])
qed

end
