(* ===== verification/LedgerRollback.thy ===== *)
theory LedgerRollback
  imports LedgerOps
begin

text \<open>
  Rolling a store back: from a store that represents a chain, the blocks above the target height are dropped one
  by one and what is left represents the blocks that are kept.
\<close>

section \<open>Dropping several blocks\<close>

abbreviation chain_rows :: "ablock list \<Rightarrow> lrow list" where
  "chain_rows ch \<equiv> concat (map a_rows ch)"

definition chain_delta :: "bool \<Rightarrow> ablock list \<Rightarrow> pystr \<Rightarrow> parts" where
  "chain_delta li ch a = (\<Sum>b\<leftarrow>ch. rows_delta li (a_rows b) a)"

lemma chain_delta_append [simp]: "chain_delta li (ch @ ch') a = chain_delta li ch a + chain_delta li ch' a"
  by (simp add: chain_delta_def)

lemma chain_balance_append: "chain_balance li al (ch @ ch') a = chain_balance li al ch a + chain_delta li ch' a"
  by (simp add: chain_balance_def chain_delta_def add.assoc)

lemma drop_blocks_core:
  assumes "core li H X fh K (keep @ gone) s" and "kv_ok (bs_pkref s)"
    and "dict_ok acc" and "\<forall>a \<in> fst ` set acc. short a"
  shows "\<exists>s' acc' ts. foldM_opt (drop_block li H X fh) (rev (map a_h gone)) (s, acc, removed) = Some (s', acc', ts @ removed) \<and>
    core li H X fh K keep s' \<and> mapM_opt typed_row (chain_rows gone) = Some ts \<and>
    bs_bal s' = bs_bal s \<and> bs_pkref s' = bs_pkref s \<and> bs_alloc s' = bs_alloc s \<and>
    acc_fun acc' = (\<lambda>a. acc_fun acc a - chain_delta li gone a) \<and> dict_ok acc' \<and> (\<forall>a \<in> fst ` set acc'. short a)"
  using assms
proof (induction gone arbitrary: s acc removed rule: rev_induct)
  case Nil
  then show ?case by (simp add: chain_delta_def)
next
  case (snoc b gone)
  have core: "core li H X fh K ((keep @ gone) @ [b]) s" using snoc.prems(1) by simp
  obtain s1 acc1 ts1 where 1: "drop_block li H X fh (a_h b) (s, acc, removed) = Some (s1, acc1, ts1 @ removed)"
    "core li H X fh K (keep @ gone) s1" "mapM_opt typed_row (a_rows b) = Some ts1" "bs_bal s1 = bs_bal s"
    "bs_pkref s1 = bs_pkref s" "bs_alloc s1 = bs_alloc s"
    "acc_fun acc1 = (\<lambda>a. acc_fun acc a - rows_delta li (a_rows b) a)" "dict_ok acc1" "\<forall>a \<in> fst ` set acc1. short a"
    by (rule drop_block_core [OF core snoc.prems(2-4)])
  obtain s' acc' ts where 2: "foldM_opt (drop_block li H X fh) (rev (map a_h gone)) (s1, acc1, ts1 @ removed) = Some (s', acc', ts @ ts1 @ removed)"
    "core li H X fh K keep s'" "mapM_opt typed_row (chain_rows gone) = Some ts" "bs_bal s' = bs_bal s1"
    "bs_pkref s' = bs_pkref s1" "bs_alloc s' = bs_alloc s1"
    "acc_fun acc' = (\<lambda>a. acc_fun acc1 a - chain_delta li gone a)" "dict_ok acc'" "\<forall>a \<in> fst ` set acc'. short a"
    using snoc.IH [OF 1(2) _ 1(8,9), of "ts1 @ removed"] snoc.prems(2) unfolding 1(5) by blast
  have "foldM_opt (drop_block li H X fh) (rev (map a_h (gone @ [b]))) (s, acc, removed) = Some (s', acc', (ts @ ts1) @ removed)"
    using 1(1) 2(1) by simp
  moreover have "mapM_opt typed_row (chain_rows (gone @ [b])) = Some (ts @ ts1)"
    using 1(3) 2(3) by (simp add: mapM_opt_append)
  moreover have "acc_fun acc' = (\<lambda>a. acc_fun acc a - chain_delta li (gone @ [b]) a)"
    by (simp add: 2(7) 1(7) chain_delta_def algebra_simps)
  ultimately show ?case using 1(4-6) 2(2,4-6,8,9) by (intro exI conjI) (assumption | simp only:)+
qed

section \<open>The heights that are dropped\<close>

lemma rollback_heights:
  assumes core: "core li H X fh K (keep @ gone) s" and start: "to_bytes_be 8 (int n) = Some start"
    and "\<forall>b \<in> set keep. a_h b < n" and "\<forall>b \<in> set gone. n \<le> a_h b"
  shows "map (\<lambda>e. unhkey (fst e)) (kv_range (bs_blocks s) (Some start) None False) = map a_h gone"
proof -
  have n: "n < 2 ^ 64" "start = hkey n" using start by (auto simp: to_bytes_be_def hkey_def split: if_splits)
  have small: "a_h b < 2 ^ 64" if "b \<in> set (keep @ gone)" for b
    using core that unfolding core_def heights_ok_def by blast
  have keys: "map fst (bs_blocks s) = map (\<lambda>b. hkey (a_h b)) (keep @ gone)" using core by (simp add: core_def)
  have "map fst (filter (\<lambda>e. start \<le> fst e) (bs_blocks s)) = filter ((\<le>) start) (map fst (bs_blocks s))"
    by (simp add: filter_map comp_def)
  also have "\<dots> = map (\<lambda>b. hkey (a_h b)) (filter (\<lambda>b. hkey n \<le> hkey (a_h b)) (keep @ gone))"
    by (simp only: keys n(2) filter_map comp_def)
  also have "filter (\<lambda>b. hkey n \<le> hkey (a_h b)) (keep @ gone) = filter (\<lambda>b. n \<le> a_h b) (keep @ gone)"
    using hkey_less_iff [OF small n(1)] by (intro filter_cong refl) (metis linorder_not_less)
  also have "\<dots> = gone" using assms(3,4) by (auto simp: filter_id_conv filter_empty_conv)
  finally have "map unhkey (map fst (filter (\<lambda>e. start \<le> fst e) (bs_blocks s))) = map a_h gone"
    using small by (auto simp: unhkey_hkey)
  then show ?thesis
    by (simp add: kv_range_eq_filter [OF core_kv_ok_blocks [OF core]] in_range_def comp_def)
qed

section \<open>The sweep\<close>

lemma reg_row_old: "m k = Some e \<Longrightarrow> reg_row h r m k = Some e"
  by (auto simp: reg_row_def split: pubkey.split option.split)

lemma reg_row_new: "m k = None \<Longrightarrow> reg_row h r m k = Some e \<Longrightarrow> fst e = h"
  by (auto simp: reg_row_def split: pubkey.splits option.splits if_splits)

lemma reg_rows_old: "m k = Some e \<Longrightarrow> fold (reg_row h) rows m k = Some e"
  by (induction rows arbitrary: m) (auto simp: reg_row_old)

lemma reg_rows_new: "m k = None \<Longrightarrow> fold (reg_row h) rows m k = Some e \<Longrightarrow> fst e = h"
proof (induction rows arbitrary: m)
  case (Cons r rows)
  then show ?case
  proof (cases "reg_row h r m k")
    case (Some e')
    then show ?thesis using Cons.prems reg_rows_old [of "reg_row h r m" k e'] reg_row_new [of m k h r e'] by simp
  qed (use Cons in simp)
qed simp

lemma reg_blocks_sweep:
  "fold (reg_block fh) ch m k =
     (case m k of Some e \<Rightarrow> Some e | None \<Rightarrow> fold (reg_block fh) ch m k)"
  "m k = None \<Longrightarrow> fold (reg_block fh) ch m k = Some e \<Longrightarrow> \<exists>b \<in> set ch. fst e = a_h b"
proof (induction ch arbitrary: m)
  case (Cons b ch)
  {
    case 1
    then show ?case
      using Cons.IH(1) [of "reg_block fh b m"] reg_rows_old [of m k _ "a_h b" "a_rows b"]
      by (auto simp: reg_block_def split: option.split)
  next
    case 2
    show ?case
    proof (cases "reg_block fh b m k")
      case None
      then show ?thesis using Cons.IH(2) [of "reg_block fh b m"] 2 by auto
    next
      case (Some e')
      then have "e' = e" using Cons.IH(1) [of "reg_block fh b m"] 2(2) by simp
      then show ?thesis using Some 2(1) reg_rows_new [of m k "a_h b" "a_rows b"] by (auto simp: reg_block_def split: if_splits)
    qed
  }
qed (simp_all split: option.split)

lemma chain_keys_keep:
  assumes "\<forall>b \<in> set keep. a_h b < n" and "\<forall>b \<in> set gone. n \<le> a_h b"
  shows "(case chain_keys fh (keep @ gone) k of Some e \<Rightarrow> if n \<le> fst e then None else Some e | None \<Rightarrow> None) =
    chain_keys fh keep k"
proof (cases "chain_keys fh keep k")
  case (Some e)
  then have "chain_keys fh (keep @ gone) k = Some e"
    using reg_blocks_sweep(1) [of fh gone "chain_keys fh keep" k] by (simp add: chain_keys_def)
  moreover have "fst e < n"
    using reg_blocks_sweep(2) [of Map.empty k fh keep e] Some assms(1) by (auto simp: chain_keys_def)
  ultimately show ?thesis using Some by simp
next
  case None
  have "n \<le> fst e" if "chain_keys fh (keep @ gone) k = Some e" for e
    using reg_blocks_sweep(2) [of "chain_keys fh keep" k fh gone e] None that assms(2) by (auto simp: chain_keys_def)
  then show ?thesis using None by (auto split: option.split)
qed

lemma chain_txids_height: "chain_txids H li fh ch k = Some h \<Longrightarrow> \<exists>b \<in> set ch. h = a_h b"
  by (induction ch rule: rev_induct) (auto simp: chain_txids_def mark_def split: if_splits)

lemma kv_get_sweep:
  assumes ok: "kv_ok db"
  shows "kv_get (fold (\<lambda>e d. kv_delete d (fst e)) (filter P db) db) k =
    (case kv_get db k of Some v \<Rightarrow> if P (k, v) then None else Some v | None \<Rightarrow> None)"
    and "kv_ok (fold (\<lambda>e d. kv_delete d (fst e)) (filter P db) db)"
proof -
  have fold_get: "kv_get (fold (\<lambda>e d. kv_delete d (fst e)) es d) k = (if k \<in> fst ` set es then None else kv_get d k)"
    for es :: "(bytes \<times> 'a) list" and d :: "'a kvdb"
    by (induction es arbitrary: d) (auto simp: kv_get_delete)
  have mem: "(k, v) \<in> set db \<longleftrightarrow> kv_get db k = Some v" for v
    using ok by (simp add: kv_get_eq_Some)
  show "kv_get (fold (\<lambda>e d. kv_delete d (fst e)) (filter P db) db) k =
    (case kv_get db k of Some v \<Rightarrow> if P (k, v) then None else Some v | None \<Rightarrow> None)"
    unfolding fold_get by (auto simp: image_iff mem split: option.split)
  have "kv_ok d \<Longrightarrow> kv_ok (fold (\<lambda>e d. kv_delete d (fst e)) es d)" for es :: "(bytes \<times> 'a) list" and d :: "'a kvdb"
    by (induction es arbitrary: d) (auto simp: kv_ok_delete)
  then show "kv_ok (fold (\<lambda>e d. kv_delete d (fst e)) (filter P db) db)" using ok .
qed


section \<open>The rollback\<close>

lemma core_update:
  assumes "core li H X fh K ch s" and t: "t = s\<lparr>bs_pkref := p, bs_bal := d\<rparr>"
  shows "core li H X fh K ch t"
proof -
  have "block_stored li X t c" if "c \<in> set ch" for c
    using assms(1) that
    by (intro block_stored_mono [of li X s c t]) (auto simp: core_def block_ok_def t)
  then show ?thesis using assms(1) by (simp add: core_def t idx_ok_def pk_inv_def)
qed

lemma sweep_core:
  assumes core: "core li H X fh K keep s" and "\<forall>b \<in> set keep. int (a_h b) \<le> n"
  shows "sweep n s = s\<lparr>bs_pkref := fold (\<lambda>e db. kv_delete db (fst e))
     (filter (\<lambda>e. n < int (fst (snd e))) (bs_pkref s)) (bs_pkref s)\<rparr>"
proof -
  have "\<not> n < int (snd e)" if e: "e \<in> set (bs_txid s)" for e
  proof -
    have "kv_ok (bs_txid s)" using core by (simp add: core_def idx_ok_def)
    then have "kv_get (bs_txid s) (fst e) = Some (snd e)" using e by (simp add: kv_get_eq_Some)
    then have "chain_txids H li fh keep (fst e) = Some (snd e)" using core by (simp add: core_def)
    then show ?thesis using chain_txids_height assms(2) by fastforce
  qed
  then have "filter (\<lambda>e. n < int (snd e)) (bs_txid s) = []" by (simp add: filter_empty_conv)
  then show ?thesis by (simp add: sweep_def kv_iterate_def)
qed

lemma sweep_keys:
  assumes "kv_get db = chain_keys fh (keep @ gone)" and "kv_ok db"
    and "\<forall>b \<in> set keep. int (a_h b) < int n" and "\<forall>b \<in> set gone. n \<le> a_h b"
    and p_def: "p = fold (\<lambda>e db. kv_delete db (fst e)) (filter (\<lambda>e. int n - 1 < int (fst (snd e))) db) db"
  shows "kv_ok p" and "kv_get p = chain_keys fh keep"
proof -
  show "kv_ok p" unfolding p_def using kv_get_sweep(2) [OF assms(2)] .
  have "kv_get p k = chain_keys fh keep k" for k
  proof -
    have keep: "\<forall>b \<in> set keep. a_h b < n" using assms(3) by simp
    have "kv_get p k = (case chain_keys fh (keep @ gone) k of Some e \<Rightarrow> if n \<le> fst e then None else Some e | None \<Rightarrow> None)"
      unfolding p_def kv_get_sweep(1) [OF assms(2)] assms(1) by (auto split: option.split)
    also have "\<dots> = chain_keys fh keep k" by (rule chain_keys_keep [OF keep assms(4)])
    finally show ?thesis .
  qed
  then show "kv_get p = chain_keys fh keep" by blast
qed

lemma undo_balances:
  assumes bal: "bal_rel db (chain_balance li al (keep @ gone))"
    and good: "\<forall>n. bal_good (chain_balance li al (take n (keep @ gone)))"
    and acc: "acc_fun acc = (\<lambda>a. - chain_delta li gone a)" "dict_ok acc" "\<forall>a \<in> fst ` set acc. short a"
  obtains db' where "foldM_opt apply_balance acc db = Some db'" and "bal_rel db' (chain_balance li al keep)"
proof -
  have g: "bal_good (chain_balance li al keep)" "bal_good (chain_balance li al (keep @ gone))"
    using spec [OF good, of "length keep"] spec [OF good, of "length (keep @ gone)"] by simp_all
  have eq: "chain_balance li al (keep @ gone) a + acc_fun acc a = chain_balance li al keep a" for a
    by (simp add: chain_balance_append acc(1))
  have key: "\<forall>a. acc_fun acc a \<noteq> 0 \<longrightarrow> akey a \<noteq> None" using g eq unfolding bal_good_def by (metis add_0)
  have fits: "\<forall>a. bal_fits (chain_balance li al (keep @ gone) a + acc_fun acc a)"
    using g(1) unfolding eq by (auto simp: bal_good_def bal_fits_def)
  obtain db' where db': "foldM_opt apply_balance acc db = Some db'"
    using apply_fold_total [OF bal acc(2,3) key fits] by blast
  then show ?thesis using that apply_fold_rel [OF db' bal acc(2,3)] by (simp add: eq)
qed

theorem rollback_represents:
  assumes rep: "represents li H X fh K (keep @ gone) s" and n: "n < 2 ^ 64"
    and keep: "\<forall>b \<in> set keep. a_h b < n" and gone: "\<forall>b \<in> set gone. n \<le> a_h b"
  shows "\<exists>ts s'. rollback li H X (int n - 1) fh s = Some (ts, s') \<and>
    mapM_opt typed_row (chain_rows gone) = Some ts \<and> represents li H X fh K keep s' \<and> bs_alloc s' = bs_alloc s"
proof -
  have core: "core li H X fh K (keep @ gone) s" and pk: "kv_ok (bs_pkref s)" "kv_get (bs_pkref s) = chain_keys fh (keep @ gone)"
    and bal: "bal_rel (bs_bal s) (chain_balance li (allocations s) (keep @ gone))"
    and good: "\<forall>n. bal_good (chain_balance li (allocations s) (take n (keep @ gone)))"
    using rep by (simp_all add: represents_def)
  obtain start where start: "to_bytes_be 8 (int n) = Some start" using n by (auto simp: to_bytes_be_def)
  note heights = rollback_heights [OF core start keep gone]
  have none: "kv_range (bs_blocks s) (Some start) None False = [] \<longleftrightarrow> gone = []"
    using heights by (metis map_is_Nil_conv)
  have nil: "dict_ok ([] :: (pystr, parts) dict)" "\<forall>a \<in> fst ` set ([] :: (pystr, parts) dict). short a"
    by simp_all
  obtain s1 acc ts where s1: "foldM_opt (drop_block li H X fh) (rev (map a_h gone)) (s, [], []) = Some (s1, acc, ts)"
    "core li H X fh K keep s1" "mapM_opt typed_row (chain_rows gone) = Some ts" "bs_bal s1 = bs_bal s"
    "bs_pkref s1 = bs_pkref s" "bs_alloc s1 = bs_alloc s" "acc_fun acc = (\<lambda>a. - chain_delta li gone a)"
    "dict_ok acc" "\<forall>a \<in> fst ` set acc. short a"
    using drop_blocks_core [OF core pk(1) nil, of "[]"] by (auto simp: acc_fun_def)
  obtain db where db: "foldM_opt apply_balance acc (bs_bal s1) = Some db" "bal_rel db (chain_balance li (allocations s) keep)"
    using undo_balances [OF bal good s1(7-9)] s1(4) by metis
  define s2 where "s2 = s1\<lparr>bs_bal := db\<rparr>"
  define s3 where "s3 = (if map a_h gone \<noteq> [] then sweep (int n - 1) s2 else s2)"
  have roll: "rollback li H X (int n - 1) fh s = Some (ts, s3)"
    using start s1(1) db(1) by (simp add: rollback_def heights none apply_balances_def s3_def s2_def)
  have c2: "core li H X fh K keep s2" using core_update [OF s1(2), where t = s2 and p = "bs_pkref s1" and d = db] by (simp add: s2_def)
  obtain p where s3: "s3 = s1\<lparr>bs_pkref := p, bs_bal := db\<rparr>" and p: "kv_ok p" "kv_get p = chain_keys fh keep"
  proof (cases "gone = []")
    case True
    then show ?thesis using that [of "bs_pkref s1"] pk s1(5) by (simp add: s3_def s2_def)
  next
    case False
    have keep': "\<forall>b \<in> set keep. int (a_h b) \<le> int n - 1" "\<forall>b \<in> set keep. int (a_h b) < int n" using keep by auto
    define p where "p = fold (\<lambda>e db. kv_delete db (fst e)) (filter (\<lambda>e. int n - 1 < int (fst (snd e))) (bs_pkref s)) (bs_pkref s)"
    have "s3 = s1\<lparr>bs_pkref := p, bs_bal := db\<rparr>"
      using sweep_core [OF c2 keep'(1)] False s1(5) by (simp add: s3_def s2_def p_def)
    then show ?thesis using that sweep_keys [OF pk(2,1) keep'(2) gone p_def] by blast
  qed
  have "represents li H X fh K keep s3"
    unfolding represents_def
  proof (intro conjI allI)
    show "core li H X fh K keep s3" using core_update [OF s1(2) s3] .
    show "bal_good (chain_balance li (allocations s3) (take m keep))" for m
      using spec [OF good, of "min m (length keep)"] by (simp add: s3 allocations_def s1(6) min_def split: if_splits)
  qed (use p db(2) in \<open>simp_all add: s3 allocations_def s1(6)\<close>)
  then show ?thesis using roll s1(3,6) by (auto simp: s3)
qed

end
