(* ===== verification/LedgerReindex.thy ===== *)
theory LedgerReindex
  imports LedgerRollback
begin

text \<open>
  Rebuilding the derived indexes from the stored blocks: on a store that represents a chain the rebuild gives back
  exactly the indexes and balances the live path had written, whatever the size of its batches.
\<close>

section \<open>One block, one batch\<close>

text \<open>The state of the rebuild after the blocks of a prefix.\<close>

definition rebuilt ::
  "bool \<Rightarrow> hash_ext \<Rightarrow> nat option \<Rightarrow> block_store \<Rightarrow> ablock list \<Rightarrow> block_store \<times> (pystr, parts) dict \<times> nat \<Rightarrow> bool" where
  "rebuilt li H fh s p t = (case t of (u, acc, n) \<Rightarrow>
     u = s\<lparr>bs_sig := bs_sig u, bs_addr := bs_addr u, bs_txid := bs_txid u, bs_pkref := bs_pkref u\<rparr> \<and>
     idx_ok u \<and> kv_ok (bs_pkref u) \<and>
     kv_get (bs_sig u) = mark False (chain_sigs p) () Map.empty \<and>
     kv_get (bs_addr u) = mark False (chain_addrs p) () Map.empty \<and>
     kv_get (bs_txid u) = chain_txids H li fh p \<and> kv_get (bs_pkref u) = chain_keys fh p \<and>
     acc_fun acc = chain_delta li p \<and> dict_ok acc \<and> (\<forall>a \<in> fst ` set acc. short a) \<and> n = chain_txcount p)"

lemma mark_sets: "mark False A () (mark False B () Map.empty) = mark False (A \<union> B) () Map.empty"
  by (auto simp: mark_def fun_eq_iff)

lemma chain_delta_snoc: "chain_delta li (p @ [b]) = (\<lambda>a. chain_delta li p a + rows_delta li (a_rows b) a)"
  by (rule ext) (simp add: chain_delta_def)

lemma reindex_block_step:
  assumes t: "rebuilt li H fh s p t" and ok: "block_ok H li fh b" and h: "fst e = hkey (a_h b)" "a_h b < 2 ^ 64"
    and rows: "expand li X s (a_h b) (snd e) = Some (a_rows b)"
  shows "\<exists>t'. reindex_block li H X fh e t = Some t' \<and> rebuilt li H fh s (p @ [b]) t'"
proof -
  obtain u acc n where tu: "t = (u, acc, n)" by (cases t)
  have u: "u = s\<lparr>bs_sig := bs_sig u, bs_addr := bs_addr u, bs_txid := bs_txid u, bs_pkref := bs_pkref u\<rparr>"
    and iok: "idx_ok u" "kv_ok (bs_pkref u)" using t by (simp_all add: tu rebuilt_def)
  have ix: "list_all (row_indexable H li fh (a_h b)) (enumerate 0 (a_rows b))" and wf: "\<forall>r \<in> set (a_rows b). row_wf li (a_h b) r"
    and tx: "texts (a_rows b)" and kok: "at_fork (a_h b) fh \<Longrightarrow> \<forall>r \<in> set (a_rows b). key_ok r"
    using ok by (simp_all add: block_ok_def)
  have pubs: "\<forall>r \<in> set (a_rows b). \<exists>q. r_pub r = PubText q \<and> utf8_encode q \<noteq> None"
    using tx expand_utf8 [OF rows] unfolding texts_def by blast
  have "bs_pkr u = bs_pkr s" by (subst u) simp
  then have rows': "expand li X u (a_h b) (snd e) = Some (a_rows b)" using expand_mono [OF rows tx] by simp
  obtain u' acc' where u': "index_rows li H (a_h b) (a_rows b) fh False (u, acc) = Some (u', acc')"
    using index_rows_total [OF ix iok] kok by blast
  note E = index_rows_effect [OF u' iok]
  have eff: "index_effect li H fh False (a_h b) (a_rows b) u u'" and sub: "fst ` set acc' \<subseteq> r_addr ` set (a_rows b) \<union> r_recip ` set (a_rows b) \<union> fst ` set acc"
    and acc': "acc_fun acc' = (\<lambda>a. acc_fun acc a + rows_delta li (a_rows b) a)" "dict_ok acc'"
    using E(1-4) pubs t by (simp_all add: bal_sgn_def tu rebuilt_def)
  have "reindex_block li H X fh e t = Some (u', acc', n + length (a_rows b))"
    using h rows' u' by (simp add: reindex_block_def tu unhkey_hkey)
  moreover have "u' = s\<lparr>bs_sig := bs_sig u', bs_addr := bs_addr u', bs_txid := bs_txid u', bs_pkref := bs_pkref u'\<rparr>"
  proof -
    have "u' = u\<lparr>bs_sig := bs_sig u', bs_addr := bs_addr u', bs_txid := bs_txid u', bs_pkref := bs_pkref u'\<rparr>"
      using eff by (simp add: index_effect_def)
    then show ?thesis using u by (cases u'; cases u; cases s) simp
  qed
  moreover have "\<forall>a \<in> fst ` set acc'. short a"
  proof
    fix a assume "a \<in> fst ` set acc'"
    then consider r where "r \<in> set (a_rows b)" "a = r_addr r \<or> a = r_recip r" | "a \<in> fst ` set acc" using sub by blast
    then show "short a" using wf t by cases (auto simp: row_wf_def tu rebuilt_def)
  qed
  ultimately show ?thesis
    using t eff acc' by (simp add: rebuilt_def tu index_effect_def chain_snoc mark_sets reg_block_def chain_delta_snoc)
qed

lemma reindex_fold:
  assumes "rebuilt li H fh s p t" and "\<forall>b \<in> set q. block_ok H li fh b \<and> block_stored li X s b \<and> a_h b < 2 ^ 64"
    and "map fst es = map (\<lambda>b. hkey (a_h b)) q" and "\<forall>e \<in> set es. kv_get (bs_blocks s) (fst e) = Some (snd e)"
  shows "\<exists>t'. foldM_opt (reindex_block li H X fh) es t = Some t' \<and> rebuilt li H fh s (p @ q) t'"
  using assms
proof (induction q arbitrary: p t es)
  case (Cons b q)
  obtain e es' where es: "es = e # es'" "fst e = hkey (a_h b)" "map fst es' = map (\<lambda>b. hkey (a_h b)) q"
    using Cons.prems(3) by auto
  have "expand li X s (a_h b) (snd e) = Some (a_rows b)"
    using Cons.prems(2,4) es by (auto simp: block_stored_def)
  then obtain t1 where t1: "reindex_block li H X fh e t = Some t1" "rebuilt li H fh s (p @ [b]) t1"
    using reindex_block_step [OF Cons.prems(1)] Cons.prems(2) es(2) by (metis list.set_intros(1))
  show ?case using Cons.IH [OF t1(2) _ es(3)] Cons.prems(2,4) t1(1) by (simp add: es(1))
qed auto

lemma blocks_range:
  assumes core: "core li H X fh K ch s" and "lo < 2 ^ 64" "hi < 2 ^ 64"
    and es_def: "es = kv_range (bs_blocks s) (Some (hkey lo)) (Some (hkey hi)) False"
  shows "map fst es = map (\<lambda>b. hkey (a_h b)) (filter (\<lambda>b. lo \<le> a_h b \<and> a_h b < hi) ch)"
    and "\<forall>e \<in> set es. kv_get (bs_blocks s) (fst e) = Some (snd e)"
proof -
  note ok = core_kv_ok_blocks [OF core]
  have small: "a_h b < 2 ^ 64" if "b \<in> set ch" for b using core that unfolding core_def heights_ok_def by blast
  have es: "es = filter (\<lambda>e. hkey lo \<le> fst e \<and> fst e < hkey hi) (bs_blocks s)"
    by (simp add: es_def kv_range_eq_filter [OF ok] in_range_def)
  then show "\<forall>e \<in> set es. kv_get (bs_blocks s) (fst e) = Some (snd e)" by (simp add: kv_get_eq_Some [OF ok])
  have "map fst es = filter (\<lambda>k. hkey lo \<le> k \<and> k < hkey hi) (map fst (bs_blocks s))"
    by (simp add: es filter_map comp_def)
  also have "\<dots> = map (\<lambda>b. hkey (a_h b)) (filter (\<lambda>b. hkey lo \<le> hkey (a_h b) \<and> hkey (a_h b) < hkey hi) ch)"
    using core by (simp add: core_def filter_map comp_def)
  also have "filter (\<lambda>b. hkey lo \<le> hkey (a_h b) \<and> hkey (a_h b) < hkey hi) ch = filter (\<lambda>b. lo \<le> a_h b \<and> a_h b < hi) ch"
    using hkey_less_iff [OF small assms(2)] hkey_less_iff [OF small assms(3)]
    by (intro filter_cong refl) (metis linorder_not_less)
  finally show "map fst es = map (\<lambda>b. hkey (a_h b)) (filter (\<lambda>b. lo \<le> a_h b \<and> a_h b < hi) ch)" .
qed

section \<open>All batches\<close>

lemma heights_sorted: "heights_ok ch \<Longrightarrow> sorted_wrt (\<lambda>b c. a_h b < a_h c) ch"
  unfolding heights_ok_def by (metis sorted_wrt_map sorted_wrt_upt)

lemma sorted_heights_split:
  assumes "sorted_wrt (\<lambda>b c. a_h b < a_h c) ch" and "lo \<le> hi"
  shows "filter (\<lambda>b. a_h b < hi) ch = filter (\<lambda>b. a_h b < lo) ch @ filter (\<lambda>b. lo \<le> a_h b \<and> a_h b < hi) ch"
  using assms
proof (induction ch)
  case (Cons b ch)
  show ?case
  proof (cases "a_h b < lo")
    case False
    then have "filter (\<lambda>c. a_h c < lo) ch = []" using Cons.prems(1) by (fastforce simp: filter_empty_conv)
    then show ?thesis using False Cons by simp
  qed (use Cons in simp)
qed simp

lemma reindex_batches_rebuilt:
  assumes core: "core li H X fh K ch s0" and t: "rebuilt li H fh s (filter (\<lambda>b. a_h b < h) ch) t"
    and s: "bs_blocks s = bs_blocks s0" "bs_pkr s = bs_pkr s0"
    and tip: "\<forall>b \<in> set ch. a_h b \<le> tip" "tip + 1 < 2 ^ 64" and "0 < batch"
  shows "\<exists>t'. reindex_batches li H X fh batch tip h t = Some t' \<and> rebuilt li H fh s ch t'"
  using t
proof (induction "Suc tip - h" arbitrary: h t rule: less_induct)
  case less
  show ?case
  proof (cases "h \<le> tip")
    case False
    then have "filter (\<lambda>b. a_h b < h) ch = ch" using tip(1) by (auto simp: filter_id_conv)
    then show ?thesis using False less.prems by (simp add: reindex_batches.simps)
  next
    case True
    define hi where "hi = min tip (h + batch - 1)"
    define es where "es = kv_range (bs_blocks s0) (Some (hkey h)) (Some (hkey (hi + 1))) False"
    define q where "q = filter (\<lambda>b. h \<le> a_h b \<and> a_h b < hi + 1) ch"
    have hi: "h \<le> hi" "hi \<le> tip" using True \<open>0 < batch\<close> by (auto simp: hi_def)
    have bl: "bs_blocks (fst t) = bs_blocks s0"
    proof -
      obtain u acc n where "t = (u, acc, n)" by (cases t)
      then show ?thesis using less.prems s(1) by (auto simp: rebuilt_def) (metis (no_types, lifting) block_store.ext_inject block_store.surjective block_store.update_convs)
    qed
    have stored: "block_ok H li fh b \<and> block_stored li X s b \<and> a_h b < 2 ^ 64" if "b \<in> set ch" for b
      using core that block_stored_mono [of li X s0 b s] by (auto simp: core_def heights_ok_def block_ok_def s)
    have r: "map fst es = map (\<lambda>b. hkey (a_h b)) q" "\<forall>e \<in> set es. kv_get (bs_blocks s) (fst e) = Some (snd e)"
      using blocks_range [OF core _ _ es_def] hi tip(2) by (simp_all add: q_def s)
    have qs: "\<forall>b \<in> set q. block_ok H li fh b \<and> block_stored li X s b \<and> a_h b < 2 ^ 64"
      using stored by (auto simp only: q_def set_filter)
    obtain t1 where t1: "foldM_opt (reindex_block li H X fh) es t = Some t1"
        "rebuilt li H fh s (filter (\<lambda>b. a_h b < h) ch @ q) t1"
      using reindex_fold [OF less.prems qs r] by blast
    have "heights_ok ch" using core by (simp add: core_def)
    then have "rebuilt li H fh s (filter (\<lambda>b. a_h b < hi + 1) ch) t1"
      using t1(2) sorted_heights_split [OF heights_sorted, of ch h "hi + 1"] hi(1) by (simp add: q_def)
    moreover have "Suc tip - (hi + 1) < Suc tip - h" using hi by simp
    ultimately obtain t' where "reindex_batches li H X fh batch tip (hi + 1) t1 = Some t'" "rebuilt li H fh s ch t'"
      using less.hyps by blast
    moreover have "min tip (h + batch - Suc 0) = hi" by (simp add: hi_def)
    ultimately show ?thesis
      using True \<open>0 < batch\<close> t1(1) bl
      by (intro exI [of _ t'] conjI, subst reindex_batches.simps) (simp_all add: es_def)
  qed
qed


section \<open>The rebuild\<close>

lemma credit_alloc_fold:
  assumes "dict_ok al"
  shows "acc_fun (fold credit_alloc al acc) a = acc_fun acc a + (0, dict_get al a 0, 0, 0)"
    and "dict_ok acc \<Longrightarrow> dict_ok (fold credit_alloc al acc)"
    and "fst ` set (fold credit_alloc al acc) \<subseteq> fst ` set al \<union> fst ` set acc"
  using assms
proof (induction al arbitrary: acc)
  case (Cons e al)
  {
    case 1
    have "dict_get al (fst e) 0 = 0" using 1 by (simp add: dict_get_def map_of_eq_None_iff [symmetric] split: option.split)
    then show ?case
      using Cons.IH(1) [of "credit_alloc e acc"] 1 by (cases e) (auto simp: credit_alloc_def acc_fun_bump dict_get_def add.assoc zero_prod_def)
  next
    case 2
    then show ?case using Cons.IH(2) [of "credit_alloc e acc"] by (simp add: credit_alloc_def)
  next
    case 3
    then show ?case
      using Cons.IH(3) [of "credit_alloc e acc"] bump_acc_keys [of "fst e" "(0, snd e, 0, 0)" acc]
      by (simp add: credit_alloc_def) blast
  }
qed (simp_all add: dict_get_def zero_prod_def)

lemma rebuilt_indexes:
  assumes rep: "represents li H X fh K ch s" and t: "rebuilt li H fh (drop_indexes s) ch (u, acc, n)"
  shows "u = s\<lparr>bs_bal := [], bs_txcount := None\<rparr>" and "acc_fun acc = chain_delta li ch" and "n = chain_txcount ch"
proof -
  have core: "core li H X fh K ch s" and pk: "kv_ok (bs_pkref s)" "kv_get (bs_pkref s) = chain_keys fh ch"
    using rep by (simp_all add: represents_def)
  have u: "u = (drop_indexes s)\<lparr>bs_sig := bs_sig u, bs_addr := bs_addr u, bs_txid := bs_txid u, bs_pkref := bs_pkref u\<rparr>"
    using t by (simp add: rebuilt_def)
  have "bs_sig u = bs_sig s" "bs_addr u = bs_addr s" "bs_txid u = bs_txid s" "bs_pkref u = bs_pkref s"
    using core pk t by (auto simp: core_def rebuilt_def idx_ok_def intro!: kv_ext)
  then show "u = s\<lparr>bs_bal := [], bs_txcount := None\<rparr>" using u by (cases u; cases s) (simp add: drop_indexes_def kv_drop_def)
  show "acc_fun acc = chain_delta li ch" "n = chain_txcount ch" using t by (simp_all add: rebuilt_def)
qed

lemma rebuild_balances:
  assumes good: "bal_good (chain_balance li al ch)" and acc: "acc_fun acc = chain_delta li ch" "dict_ok acc" "\<forall>a \<in> fst ` set acc. short a"
    and al: "dict_ok al" "\<forall>a \<in> fst ` set al. short a"
  shows "\<exists>db. foldM_opt apply_balance (fold credit_alloc al acc) [] = Some db \<and> bal_rel db (chain_balance li al ch)"
proof -
  define acc1 where "acc1 = fold credit_alloc al acc"
  have acc1: "acc_fun acc1 = chain_balance li al ch" "dict_ok acc1" "\<forall>a \<in> fst ` set acc1. short a"
  proof -
    show "acc_fun acc1 = chain_balance li al ch"
      by (rule ext) (simp add: acc1_def credit_alloc_fold [OF al(1)] acc(1) chain_balance_def chain_delta_def add.commute)
    show "dict_ok acc1" unfolding acc1_def by (rule credit_alloc_fold(2) [OF al(1) acc(2)])
    show "\<forall>a \<in> fst ` set acc1. short a" unfolding acc1_def
      using credit_alloc_fold(3) [OF al(1), of acc] acc(3) al(2) by (meson UnE subsetD)
  qed
  have empty: "bal_rel [] (\<lambda>a. 0)" by (simp add: bal_rel_def bal_entry_def)
  have "\<forall>a. acc_fun acc1 a \<noteq> 0 \<longrightarrow> akey a \<noteq> None" "\<forall>a. bal_fits (0 + acc_fun acc1 a)"
    using good by (auto simp: acc1(1) bal_good_def bal_fits_def)
  then obtain db where db: "foldM_opt apply_balance acc1 [] = Some db"
    using apply_fold_total [OF empty acc1(2,3)] by blast
  then show ?thesis using apply_fold_rel [OF db empty acc1(2,3)] by (simp add: acc1(1) flip: acc1_def)
qed

theorem reindex_same:
  assumes rep: "represents li H X fh K ch s" and h: "\<forall>b \<in> set ch. 1 \<le> a_h b \<and> a_h b + 1 < 2 ^ 64" and "0 < batch"
    and al: "dict_ok (allocations s)" "\<forall>a \<in> fst ` set (allocations s). short a"
  shows "reindex li H X fh batch s = Some (chain_txcount ch, s\<lparr>bs_txcount := Some (chain_txcount ch)\<rparr>)"
proof -
  have core: "core li H X fh K ch s" and bal: "bal_rel (bs_bal s) (chain_balance li (allocations s) ch)"
    using rep by (simp_all add: represents_def)
  define tip where "tip = (if ch = [] then 0 else a_h (last ch))"
  have tip: "(case tip_in (bs_blocks (drop_indexes s)) of Some t \<Rightarrow> t | None \<Rightarrow> 0) = tip"
    using core_tip [OF core] by (simp add: tip_def drop_indexes_def)
  have le: "\<forall>b \<in> set ch. a_h b \<le> tip"
  proof (cases ch rule: rev_cases)
    case (snoc ys y)
    then show ?thesis using core heights_less [of ys y] by (auto simp: core_def tip_def intro: less_imp_le)
  qed simp
  have small: "tip + 1 < 2 ^ 64" using h by (auto simp: tip_def)
  have none: "filter (\<lambda>b. a_h b < 1) ch = []" using h by (auto simp: filter_empty_conv)
  have "rebuilt li H fh (drop_indexes s) (filter (\<lambda>b. a_h b < 1) ch) (drop_indexes s, [], 0)"
    unfolding none by (simp add: rebuilt_def drop_indexes_def kv_drop_def idx_ok_def chain_sigs_def chain_addrs_def
        chain_txids_def chain_keys_def chain_txcount_def chain_delta_def mark_def acc_fun_def dict_get_def fun_eq_iff)
  from reindex_batches_rebuilt [OF core this _ _ le small \<open>0 < batch\<close>]
  obtain u acc n where run: "reindex_batches li H X fh batch tip 1 (drop_indexes s, [], 0) = Some (u, acc, n)"
      "rebuilt li H fh (drop_indexes s) ch (u, acc, n)"
    by (auto simp: drop_indexes_def)
  note R = rebuilt_indexes [OF rep run(2)]
  have acc: "dict_ok acc" "\<forall>a \<in> fst ` set acc. short a" using run(2) by (simp_all add: rebuilt_def)
  obtain db where db: "foldM_opt apply_balance (fold credit_alloc (allocations s) acc) [] = Some db"
      "bal_rel db (chain_balance li (allocations s) ch)"
    using rebuild_balances [OF bal_rel_good [OF bal] R(2) acc al] by blast
  have "db = bs_bal s" using bal_rel_unique [OF db(2) bal] .
  then show ?thesis
    using run(1) db(1) by (simp add: reindex_def tip R(1,3) apply_balances_def allocations_def)
qed

end
