(* ===== verification/BlockReads.thy ===== *)
theory BlockReads
  imports BlockStore
begin

text \<open>
  The reading operations of \<^verbatim>\<open>class BlockStore\<close>: blocks, difficulties, signature and address history, balances and
  the registries.  None stands for an exception; a value that the source returns as None is an option inside the result.
  The per-call row caches of the source only memoise reads of one snapshot and are left out.
\<close>

section \<open>Blocks\<close>

definition schema :: "block_store \<Rightarrow> int option" where
  "schema s = bs_schema s"

definition get_block_raw :: "bool \<Rightarrow> addr_ext \<Rightarrow> block_store \<Rightarrow> nat \<Rightarrow> lrow list option option" where
  "get_block_raw li X s height = raw_block li X s height"

definition get_block :: "bool \<Rightarrow> addr_ext \<Rightarrow> block_store \<Rightarrow> nat \<Rightarrow> trow list option option" where
  "get_block li X s height = do {
     rr \<leftarrow> raw_block li X s height;
     case rr of None \<Rightarrow> Some None | Some rows \<Rightarrow> map_option Some (mapM_opt typed_row rows) }"

definition last_openfield :: "bool \<Rightarrow> block_store \<Rightarrow> nat \<Rightarrow> pystr option option" where
  "last_openfield li s height = (case kv_get (bs_blocks s) (hkey height) of
     None \<Rightarrow> Some None
   | Some rec \<Rightarrow> if sb_t rec = [] then Some None
       else (case List.last (sb_t rec) of
               Blob b \<Rightarrow> map_option (\<lambda>t. Some (s_of t)) (unpack_row li b)
             | Fields t \<Rightarrow> Some (Some (s_of t))))"

definition typed_entry :: "bool \<Rightarrow> addr_ext \<Rightarrow> block_store \<Rightarrow> bytes \<times> stored_block \<Rightarrow> (nat \<times> trow list) option" where
  "typed_entry li X s e = do {
     let h = unhkey (fst e);
     rows \<leftarrow> expand li X s h (snd e);
     ts \<leftarrow> mapM_opt typed_row rows;
     Some (h, ts) }"

definition blocks_in_range ::
  "bool \<Rightarrow> addr_ext \<Rightarrow> block_store \<Rightarrow> int \<Rightarrow> int \<Rightarrow> (nat \<times> trow list) list option" where
  "blocks_in_range li X s start stop = do {
     a \<leftarrow> to_bytes_be 8 (max 0 start);
     b \<leftarrow> to_bytes_be 8 (stop + 1);
     mapM_opt (typed_entry li X s) (kv_range (bs_blocks s) (Some a) (Some b) False) }"

definition blocks_desc ::
  "bool \<Rightarrow> addr_ext \<Rightarrow> block_store \<Rightarrow> int option \<Rightarrow> (nat \<times> trow list) list option" where
  "blocks_desc li X s start = do {
     e \<leftarrow> (case start of None \<Rightarrow> Some None | Some h \<Rightarrow> map_option Some (to_bytes_be 8 (h + 1)));
     mapM_opt (typed_entry li X s) (kv_range (bs_blocks s) None e True) }"

definition stored_hash_at :: "block_store \<Rightarrow> nat \<Rightarrow> pystr option" where
  "stored_hash_at s height = map_option (\<lambda>rec. hash_text (sb_h rec)) (kv_get (bs_blocks s) (hkey height))"

definition height_by_hash :: "block_store \<Rightarrow> pystr \<Rightarrow> nat option option" where
  "height_by_hash s bhash = do { k \<leftarrow> hex_key bhash; Some (kv_get (bs_hashes s) k) }"

definition store_tip :: "block_store \<Rightarrow> nat option" where
  "store_tip s = tip_in (bs_blocks s)"

definition store_first :: "block_store \<Rightarrow> nat option" where
  "store_first s = (case kv_range (bs_blocks s) None None False of [] \<Rightarrow> None | (k, _) # _ \<Rightarrow> Some (unhkey k))"

definition block_count :: "block_store \<Rightarrow> nat" where
  "block_count s = kv_count (bs_blocks s)"

definition tx_count :: "block_store \<Rightarrow> nat" where
  "tx_count s = (case bs_txcount s of Some n \<Rightarrow> n | None \<Rightarrow> 0)"

text \<open>\<^verbatim>\<open>v != 0\<close> of a typed column.\<close>

fun tval_nonzero :: "tval \<Rightarrow> bool" where
  "tval_nonzero (TInt i) = (i \<noteq> 0)"
| "tval_nonzero (TFloat f) = (\<not> float_zero f)"
| "tval_nonzero (TStr s) = True"

definition coinbase :: "bool \<Rightarrow> addr_ext \<Rightarrow> block_store \<Rightarrow> nat \<Rightarrow> trow option option" where
  "coinbase li X s height = do {
     b \<leftarrow> get_block li X s height;
     Some (case b of None \<Rightarrow> None | Some rows \<Rightarrow> find (\<lambda>r. tval_nonzero (t_reward r)) (rev rows)) }"

definition openfield_len :: "bool \<Rightarrow> stored_tx \<Rightarrow> nat option" where
  "openfield_len li e = (case e of
     Blob b \<Rightarrow> map_option length (openfield_of li b) | Fields t \<Rightarrow> Some (length (s_of t)))"

definition block_weight :: "bool \<Rightarrow> nat \<Rightarrow> stored_block \<Rightarrow> nat option" where
  "block_weight li w_unit rec = do {
     ls \<leftarrow> mapM_opt (openfield_len li) (sb_t rec);
     Some (length (sb_t rec) + sum_list ls div max 1 w_unit) }"

fun weights_loop :: "bool \<Rightarrow> nat \<Rightarrow> bool \<Rightarrow> block_store \<Rightarrow> nat list \<Rightarrow> nat list option" where
  "weights_loop li w_unit strict s [] = Some []"
| "weights_loop li w_unit strict s (h # hs) = (case kv_get (bs_blocks s) (hkey h) of
     None \<Rightarrow> if strict then None else weights_loop li w_unit strict s hs
   | Some rec \<Rightarrow> do {
       w \<leftarrow> block_weight li w_unit rec; ws \<leftarrow> weights_loop li w_unit strict s hs; Some (w # ws) })"

definition recent_block_weights ::
  "bool \<Rightarrow> block_store \<Rightarrow> nat \<Rightarrow> nat \<Rightarrow> nat \<Rightarrow> bool \<Rightarrow> nat list option" where
  "recent_block_weights li s tip_height window w_unit strict =
     weights_loop li w_unit strict s [nat (max 2 (int tip_height - int window + 1))..<tip_height + 1]"

section \<open>Difficulties\<close>

definition stored_difficulty :: "block_store \<Rightarrow> nat \<Rightarrow> pystr option" where
  "stored_difficulty s height = kv_get (bs_diff s) (hkey height)"

definition last_difficulty :: "block_store \<Rightarrow> (nat \<times> pystr) option" where
  "last_difficulty s = (case kv_range (bs_diff s) None None True of [] \<Rightarrow> None | (k, v) # _ \<Rightarrow> Some (unhkey k, v))"

definition difficulties :: "block_store \<Rightarrow> nat list \<Rightarrow> (nat, pystr) dict" where
  "difficulties s heights =
     fold (\<lambda>h d. case stored_difficulty s h of None \<Rightarrow> d | Some v \<Rightarrow> dict_set h v d) heights []"

definition difficulty_range :: "block_store \<Rightarrow> int \<Rightarrow> int \<Rightarrow> (nat \<times> pystr) list option" where
  "difficulty_range s start stop = do {
     a \<leftarrow> to_bytes_be 8 (max 0 start);
     b \<leftarrow> to_bytes_be 8 (max 0 stop);
     Some (map (\<lambda>e. (unhkey (fst e), snd e)) (kv_range (bs_diff s) (Some a) (Some b) False)) }"

section \<open>Signature and address history\<close>

type_synonym pos = "int \<times> nat"

definition row_at :: "bool \<Rightarrow> addr_ext \<Rightarrow> block_store \<Rightarrow> pos \<Rightarrow> trow option option" where
  "row_at li X s p = (case p of (h, idx) \<Rightarrow>
     if h < 0 then None
     else do {
       rr \<leftarrow> raw_block li X s (nat h);
       case nth_opt (case rr of None \<Rightarrow> [] | Some rows \<Rightarrow> rows) idx of
         None \<Rightarrow> Some None | Some r \<Rightarrow> map_option Some (typed_row r) })"

text \<open>\<^verbatim>\<open>if limit and len(out) >= limit\<close>: no limit and a limit of zero never stop a scan.\<close>

definition limit_hit :: "nat option \<Rightarrow> 'a list \<Rightarrow> bool" where
  "limit_hit limit out = (case limit of None \<Rightarrow> False | Some n \<Rightarrow> 0 < n \<and> n \<le> length out)"

fun collect ::
  "(pos \<Rightarrow> trow option option) \<Rightarrow> (trow \<Rightarrow> bool) \<Rightarrow> nat option \<Rightarrow> pos list \<Rightarrow> trow list \<Rightarrow> trow list option" where
  "collect fetch keep_row limit [] out = Some out"
| "collect fetch keep_row limit (p # ps) out = do {
     r \<leftarrow> fetch p;
     case r of
       None \<Rightarrow> collect fetch keep_row limit ps out
     | Some t \<Rightarrow>
         if keep_row t then
           (let out' = out @ [t] in if limit_hit limit out' then Some out' else collect fetch keep_row limit ps out')
         else collect fetch keep_row limit ps out }"

definition signature_rows ::
  "bool \<Rightarrow> addr_ext \<Rightarrow> block_store \<Rightarrow> pystr \<Rightarrow> int option \<Rightarrow> nat option \<Rightarrow> trow list option" where
  "signature_rows li X s sg max_height limit = do {
     b \<leftarrow> utf8_encode sg;
     let ps = map (\<lambda>e. split_pos (fst e)) (kv_iterate (bs_sig s) (take SIG_KEY_LEN b @ [0]));
     collect (row_at li X s) (\<lambda>r. t_sign r = sg) limit
       (filter (\<lambda>p. case max_height of None \<Rightarrow> True | Some m \<Rightarrow> fst p \<le> m) ps) [] }"

definition signature_exists :: "bool \<Rightarrow> addr_ext \<Rightarrow> block_store \<Rightarrow> pystr \<Rightarrow> int option \<Rightarrow> bool option" where
  "signature_exists li X s sg max_height =
     map_option (\<lambda>rows. rows \<noteq> []) (signature_rows li X s sg max_height (Some 1))"

definition rows_by_sig_prefix ::
  "bool \<Rightarrow> addr_ext \<Rightarrow> block_store \<Rightarrow> pystr \<Rightarrow> nat option \<Rightarrow> trow list option" where
  "rows_by_sig_prefix li X s p limit =
     (if p = [] then Some []
      else do {
        pb \<leftarrow> utf8_encode p;
        let scan = (if length pb \<le> SIG_KEY_LEN then pb else take SIG_KEY_LEN pb @ [0]);
        collect (row_at li X s) (\<lambda>r. prefix p (t_sign r)) limit
          (map (\<lambda>e. split_pos (fst e)) (kv_iterate (bs_sig s) scan)) [] })"

definition addr_iter ::
  "block_store \<Rightarrow> byte \<Rightarrow> pystr \<Rightarrow> bool \<Rightarrow> int option \<Rightarrow> int option \<Rightarrow> pos list option" where
  "addr_iter s role a rv lo hi = do {
     p \<leftarrow> addr_prefix role a;
     l \<leftarrow> (case lo of None \<Rightarrow> Some [] | Some h \<Rightarrow> sh h);
     e \<leftarrow> (case hi of None \<Rightarrow> Some (replicate 10 255) | Some h \<Rightarrow> sh (h + 1));
     Some (map (\<lambda>x. split_pos (fst x)) (kv_range (bs_addr s) (Some (p @ l)) (Some (p @ e)) rv)) }"

definition pos_less :: "pos \<Rightarrow> pos \<Rightarrow> bool" where
  "pos_less p q \<longleftrightarrow> fst p < fst q \<or> fst p = fst q \<and> snd p < snd q"

text \<open>The merge of the two streams; \<^verbatim>\<open>last\<close> is the position yielded before.\<close>

function merge_pos :: "bool \<Rightarrow> pos list \<Rightarrow> pos list \<Rightarrow> pos option \<Rightarrow> pos list" where
  "merge_pos rv xs ys prev =
     (if xs = [] \<and> ys = [] then []
      else
        let left = (ys = [] \<or> xs \<noteq> [] \<and> (if rv then pos_less (hd ys) (hd xs) else pos_less (hd xs) (hd ys)));
            p = (if left then hd xs else hd ys);
            xs' = (if left then tl xs else xs);
            ys' = (if left then ys else tl ys)
        in if Some p \<noteq> prev then p # merge_pos rv xs' ys' (Some p) else merge_pos rv xs' ys' prev)"
  by pat_completeness auto
termination
  by (relation "measure (\<lambda>(_, xs, ys, _). length xs + length ys)")
     (auto simp: neq_Nil_conv split: if_splits)

declare merge_pos.simps [simp del]

datatype role = AnyRole | Sender | Recipient

definition address_positions ::
  "block_store \<Rightarrow> pystr \<Rightarrow> role \<Rightarrow> bool \<Rightarrow> int option \<Rightarrow> int option \<Rightarrow> pos list option" where
  "address_positions s a rl rv lo hi = (case rl of
     Sender \<Rightarrow> addr_iter s ROLE_SENDER a rv lo hi
   | Recipient \<Rightarrow> addr_iter s ROLE_RECIPIENT a rv lo hi
   | AnyRole \<Rightarrow> do {
       xs \<leftarrow> addr_iter s ROLE_SENDER a rv lo hi;
       ys \<leftarrow> addr_iter s ROLE_RECIPIENT a rv lo hi;
       Some (merge_pos rv xs ys None) })"

text \<open>\<^verbatim>\<open>emit\<close>: the rows of one block in order; the result says whether the limit was reached.\<close>

fun emit ::
  "(pos \<Rightarrow> trow option option) \<Rightarrow> nat option \<Rightarrow> pos list \<Rightarrow> nat \<times> trow list \<Rightarrow> (bool \<times> nat \<times> trow list) option" where
  "emit fetch limit [] (skip, out) = Some (False, skip, out)"
| "emit fetch limit (p # ps) (skip, out) =
     (if 0 < skip then emit fetch limit ps (skip - 1, out)
      else do {
        r \<leftarrow> fetch p;
        case r of
          None \<Rightarrow> emit fetch limit ps (skip, out)
        | Some t \<Rightarrow> (let out' = out @ [t] in
            if limit_hit limit out' then Some (True, skip, out') else emit fetch limit ps (skip, out')) })"

fun emit_groups ::
  "(pos \<Rightarrow> trow option option) \<Rightarrow> nat option \<Rightarrow> bool \<Rightarrow> pos list \<Rightarrow> pos list \<Rightarrow> nat \<times> trow list \<Rightarrow> trow list option" where
  "emit_groups fetch limit rv grp [] st =
     (if grp = [] then Some (snd st)
      else map_option (\<lambda>(_, _, out). out) (emit fetch limit (if rv then rev grp else grp) st))"
| "emit_groups fetch limit rv grp (p # ps) st =
     (if grp \<noteq> [] \<and> fst p \<noteq> fst (hd grp) then do {
        (full, skip, out) \<leftarrow> emit fetch limit (if rv then rev grp else grp) st;
        if full then Some out else emit_groups fetch limit rv [p] ps (skip, out) }
      else emit_groups fetch limit rv (grp @ [p]) ps st)"

definition address_rows ::
  "bool \<Rightarrow> addr_ext \<Rightarrow> block_store \<Rightarrow> pystr \<Rightarrow> role \<Rightarrow> bool \<Rightarrow> nat option \<Rightarrow> int option \<Rightarrow> int option \<Rightarrow> nat
     \<Rightarrow> trow list option" where
  "address_rows li X s a rl rv limit lo hi skip = do {
     ps \<leftarrow> address_positions s a rl rv lo hi;
     emit_groups (row_at li X s) limit rv [] ps (skip, []) }"

definition address_tx_count :: "block_store \<Rightarrow> pystr \<Rightarrow> role \<Rightarrow> nat option" where
  "address_tx_count s a rl = map_option length (address_positions s a rl False None None)"

fun first_plain :: "(pos \<Rightarrow> trow option option) \<Rightarrow> pos list \<Rightarrow> pystr option option" where
  "first_plain fetch [] = Some None"
| "first_plain fetch (p # ps) = do {
     r \<leftarrow> fetch p;
     case r of
       None \<Rightarrow> first_plain fetch ps
     | Some t \<Rightarrow> if tval_nonzero (t_reward t) then first_plain fetch ps else Some (Some (t_pub t)) }"

definition first_pubkey :: "bool \<Rightarrow> addr_ext \<Rightarrow> block_store \<Rightarrow> pystr \<Rightarrow> pystr option option" where
  "first_pubkey li X s a = do {
     ps \<leftarrow> addr_iter s ROLE_SENDER a False None None;
     first_plain (row_at li X s) ps }"

fun reward_sum :: "bool \<Rightarrow> (pos \<Rightarrow> trow option option) \<Rightarrow> pos list \<Rightarrow> int \<Rightarrow> int option" where
  "reward_sum li fetch [] acc = Some acc"
| "reward_sum li fetch (p # ps) acc = do {
     r \<leftarrow> fetch p;
     case r of
       None \<Rightarrow> reward_sum li fetch ps acc
     | Some t \<Rightarrow>
         if tval_nonzero (t_reward t) then do { u \<leftarrow> units li (t_reward t); reward_sum li fetch ps (acc + u) }
         else reward_sum li fetch ps acc }"

definition reward_units_since :: "bool \<Rightarrow> addr_ext \<Rightarrow> block_store \<Rightarrow> pystr \<Rightarrow> int \<Rightarrow> int option" where
  "reward_units_since li X s a above_height = do {
     ps \<leftarrow> addr_iter s ROLE_RECIPIENT a True (Some (above_height + 1)) None;
     reward_sum li (row_at li X s) ps 0 }"

section \<open>Balances and registries\<close>

definition balance_parts :: "block_store \<Rightarrow> pystr \<Rightarrow> parts option" where
  "balance_parts s a = do {
     k \<leftarrow> Option.bind (abytes a) lmdb_key;
     Some (case kv_get (bs_bal s) k of Some v \<Rightarrow> bal_unpack v | None \<Rightarrow> (0, 0, 0, 0)) }"

definition balance_units :: "block_store \<Rightarrow> pystr \<Rightarrow> int option" where
  "balance_units s a = do { (c, r, d, f) \<leftarrow> balance_parts s a; Some (c + r - d - f) }"

definition balance :: "block_store \<Rightarrow> pystr \<Rightarrow> decimal option" where
  "balance s a = do { u \<leftarrow> balance_units s a; to_decimal u }"

definition address_count :: "block_store \<Rightarrow> nat" where
  "address_count s = kv_count (bs_bal s)"

definition iter_balances :: "block_store \<Rightarrow> (bytes \<times> parts) list" where
  "iter_balances s = map (\<lambda>e. (fst e, bal_unpack (snd e))) (kv_iterate (bs_bal s) [])"

definition txid_height :: "block_store \<Rightarrow> pystr \<Rightarrow> nat option option" where
  "txid_height s x = do { k \<leftarrow> hex_key x; Some (kv_get (bs_txid s) k) }"

definition pkref_get :: "block_store \<Rightarrow> pystr \<Rightarrow> bytes option option" where
  "pkref_get s a = do { k \<leftarrow> Option.bind (abytes a) lmdb_key; Some (map_option snd (kv_get (bs_pkref s) k)) }"

definition pkref_first_seen :: "block_store \<Rightarrow> pystr \<Rightarrow> nat option option" where
  "pkref_first_seen s a = do { k \<leftarrow> Option.bind (abytes a) lmdb_key; Some (map_option fst (kv_get (bs_pkref s) k)) }"

definition pkref_count :: "block_store \<Rightarrow> nat" where
  "pkref_count s = kv_count (bs_pkref s)"

definition txid_count :: "block_store \<Rightarrow> nat" where
  "txid_count s = kv_count (bs_txid s)"

definition txid_contains :: "block_store \<Rightarrow> pystr \<Rightarrow> int option \<Rightarrow> bool option" where
  "txid_contains s x max_height = do {
     h \<leftarrow> txid_height s x;
     Some (case h of None \<Rightarrow> False
       | Some n \<Rightarrow> (case max_height of None \<Rightarrow> True | Some m \<Rightarrow> int n \<le> m)) }"

end
