(* ===== verification/LedgerQueries.thy ===== *)
theory LedgerQueries
  imports LedgerReindex BlockReads
begin

text \<open>
  What the reads return on a store that represents a chain: a balance is the sum over the rows of the chain, and a
  signature is found exactly when a row of the chain carries it.
\<close>

section \<open>Rows by position\<close>

lemma row_at_core:
  assumes core: "core li H X fh K ch s" and b: "b \<in> set ch" and i: "i < length (a_rows b)"
  shows "\<exists>t. row_at li X s (int (a_h b), i) = Some (Some t) \<and> typed_row (a_rows b ! i) = Some t"
proof -
  have "block_stored li X s b" "block_ok H li fh b" using core b by (auto simp: core_def)
  moreover from this obtain t where "typed_row (a_rows b ! i) = Some t"
    using i typed_row_total [of li "a_h b" "a_rows b ! i"] by (auto simp: block_ok_def)
  ultimately show ?thesis using i by (auto simp: row_at_def raw_block_def block_stored_def nth_opt_def)
qed

lemma typed_row_sig: "typed_row r = Some t \<Longrightarrow> t_sign t = r_sig r"
  by (auto simp: typed_row_def elim!: bind_SomeE)

section \<open>Signatures\<close>

lemma collect_one:
  assumes "\<forall>p \<in> set ps. \<exists>t. fetch p = Some (Some t)"
  shows "\<exists>out. collect fetch P (Some 1) ps [] = Some out \<and>
    (out \<noteq> [] \<longleftrightarrow> (\<exists>p \<in> set ps. \<exists>t. fetch p = Some (Some t) \<and> P t))"
  using assms
proof (induction ps)
  case (Cons p ps)
  then obtain t where t: "fetch p = Some (Some t)" by auto
  show ?case
  proof (cases "P t")
    case False
    then show ?thesis using Cons t by auto
  qed (use t in \<open>auto simp: limit_hit_def\<close>)
qed simp

lemma set_enumerate_0: "set (enumerate 0 xs) = (\<lambda>i. (i, xs ! i)) ` {..<length xs}"
  by (auto simp: in_set_enumerate_eq image_iff)

lemma chain_sigs_iff:
  "k \<in> chain_sigs ch \<longleftrightarrow> (\<exists>b \<in> set ch. \<exists>i < length (a_rows b). indexable_sig (r_sig (a_rows b ! i)) \<and>
     sig_key (r_sig (a_rows b ! i)) (int (a_h b)) i = Some k)"
  unfolding chain_sigs_def rows_sigs_def row_sigs_def set_enumerate_0 by auto

lemma sig_positions:
  assumes core: "core li H X fh K ch s" and sg: "utf8_encode sg = Some u" "indexable_sig sg"
    and ps_def: "ps = map (\<lambda>e. split_pos (fst e)) (kv_iterate (bs_sig s) (take SIG_KEY_LEN u @ [0]))"
  shows "p \<in> set ps \<Longrightarrow> \<exists>b \<in> set ch. \<exists>i < length (a_rows b). p = (int (a_h b), i)"
    and "b \<in> set ch \<Longrightarrow> i < length (a_rows b) \<Longrightarrow> r_sig (a_rows b ! i) = sg \<Longrightarrow> (int (a_h b), i) \<in> set ps"
proof -
  have ok: "kv_ok (bs_sig s)" and get: "kv_get (bs_sig s) = mark False (chain_sigs ch) () Map.empty"
    using core by (simp_all add: core_def idx_ok_def)
  have keys: "k \<in> fst ` set (bs_sig s) \<longleftrightarrow> k \<in> chain_sigs ch" for k
    using kv_get_eq_None [of "bs_sig s" k] by (auto simp: get mark_def split: if_splits)
  have ps: "set ps = split_pos ` {k \<in> chain_sigs ch. prefix (take SIG_KEY_LEN u @ [0]) k}"
    unfolding ps_def kv_iterate_eq_filter [OF ok] by (auto simp: image_iff keys [symmetric])
  show "\<exists>b \<in> set ch. \<exists>i < length (a_rows b). p = (int (a_h b), i)" if "p \<in> set ps"
    using that unfolding ps by (fastforce simp: chain_sigs_iff dest: split_pos_sig_key)
  assume b: "b \<in> set ch" and i: "i < length (a_rows b)" "r_sig (a_rows b ! i) = sg"
  have "block_ok H li fh b" using core b by (simp add: core_def)
  then have "row_indexable H li fh (a_h b) (i, a_rows b ! i)"
    using i(1) by (simp add: block_ok_def list_all_iff in_set_enumerate_eq)
  then obtain k where k: "sig_key sg (int (a_h b)) i = Some k" using sg(2) i(2) by (auto simp: row_indexable_def)
  then have "prefix (take SIG_KEY_LEN u @ [0]) k" using sg(1) by (auto simp: sig_key_def prefix_def elim!: bind_SomeE)
  moreover have "k \<in> chain_sigs ch" using k b i sg(2) unfolding chain_sigs_iff by blast
  ultimately show "(int (a_h b), i) \<in> set ps" unfolding ps using split_pos_sig_key [OF k] by (metis (mono_tags, lifting) image_eqI mem_Collect_eq)
qed

theorem signature_exists_iff:
  assumes rep: "represents li H X fh K ch s" and sg: "utf8_encode sg \<noteq> None" "indexable_sig sg"
  shows "signature_exists li X s sg mx = Some (\<exists>b \<in> set ch. (case mx of None \<Rightarrow> True | Some m \<Rightarrow> int (a_h b) \<le> m) \<and>
    (\<exists>r \<in> set (a_rows b). r_sig r = sg))"
proof -
  have core: "core li H X fh K ch s" using rep by (simp add: represents_def)
  obtain u where u: "utf8_encode sg = Some u" using sg(1) by blast
  define ps where "ps = map (\<lambda>e. split_pos (fst e)) (kv_iterate (bs_sig s) (take SIG_KEY_LEN u @ [0]))"
  note P = sig_positions [OF core u sg(2) ps_def]
  define below where "below = (\<lambda>p :: pos. case mx of None \<Rightarrow> True | Some m \<Rightarrow> fst p \<le> m)"
  define qs where "qs = filter below ps"
  have fetch: "\<forall>p \<in> set qs. \<exists>t. row_at li X s p = Some (Some t)"
    using P(1) row_at_core [OF core] unfolding qs_def by fastforce
  obtain rows where out: "collect (row_at li X s) (\<lambda>r. t_sign r = sg) (Some 1) qs [] = Some rows"
      "rows \<noteq> [] \<longleftrightarrow> (\<exists>p \<in> set qs. \<exists>t. row_at li X s p = Some (Some t) \<and> t_sign t = sg)"
    using collect_one [OF fetch] by blast
  have "(\<exists>p \<in> set qs. \<exists>t. row_at li X s p = Some (Some t) \<and> t_sign t = sg) \<longleftrightarrow>
      (\<exists>b \<in> set ch. below (int (a_h b), 0) \<and> (\<exists>r \<in> set (a_rows b). r_sig r = sg))" (is "?l \<longleftrightarrow> ?r")
  proof
    assume ?l
    then obtain p t where p: "p \<in> set ps" "below p" "row_at li X s p = Some (Some t)" "t_sign t = sg" by (auto simp: qs_def)
    obtain b i where b: "b \<in> set ch" "i < length (a_rows b)" "p = (int (a_h b), i)" using P(1) [OF p(1)] by blast
    then have "r_sig (a_rows b ! i) = sg" using row_at_core [OF core b(1,2)] p typed_row_sig by fastforce
    then show ?r using b p(2) nth_mem by (fastforce simp: below_def split: option.splits)
  next
    assume ?r
    then obtain b i where b: "b \<in> set ch" "below (int (a_h b), 0)" "i < length (a_rows b)" "r_sig (a_rows b ! i) = sg"
      by (metis in_set_conv_nth)
    then have "(int (a_h b), i) \<in> set qs" using P(2) by (auto simp: qs_def below_def split: option.split)
    then show ?l using row_at_core [OF core b(1,3)] typed_row_sig b(4) by metis
  qed
  moreover have "signature_exists li X s sg mx = Some (rows \<noteq> [])"
    using out(1) u by (simp add: signature_exists_def signature_rows_def qs_def below_def flip: ps_def)
  ultimately show ?thesis using out(2) by (cases mx) (simp_all add: below_def)
qed

section \<open>Balances\<close>

lemma balance_parts_chain:
  assumes "represents li H X fh K ch s" and "short a" "akey a \<noteq> None"
  shows "balance_parts s a = Some (chain_balance li (allocations s) ch a)"
proof -
  obtain k where k: "akey a = Some k" using assms(3) by blast
  have "bal_rel (bs_bal s) (chain_balance li (allocations s) ch)" using assms(1) by (simp add: represents_def)
  from bal_rel_read [OF this assms(2) k] show ?thesis
    using k by (auto simp: balance_parts_def akey_def zero_prod_def split: option.splits)
qed

text \<open>The balance behind the four stored totals.\<close>

definition net :: "parts \<Rightarrow> int" where
  "net p = (case p of (c, r, d, f) \<Rightarrow> c + r - d - f)"

lemma net_add: "net (p + q) = net p + net q"
  by (cases p; cases q) (simp add: net_def plus_prod_def)

lemma net_0: "net 0 = 0"
  by (simp add: net_def zero_prod_def)

lemma net_sum: "net (\<Sum>x\<leftarrow>xs. f x) = (\<Sum>x\<leftarrow>xs. net (f x))"
  by (induction xs) (simp_all add: net_0 net_add)

lemma net_row_delta:
  "net (row_delta li r a) = (if r_recip r = a then money li (r_amount r) + money li (r_reward r) else 0)
      - (if r_addr r = a then money li (r_amount r) + money li (r_fee r) else 0)"
  by (simp add: row_delta_def net_add net_0) (simp add: net_def)

lemma balance_units_chain:
  assumes "represents li H X fh K ch s" and "short a" "akey a \<noteq> None"
  shows "balance_units s a = Some (net (chain_balance li (allocations s) ch a))"
  using balance_parts_chain [OF assms] by (simp add: balance_units_def net_def split: prod.split)

end
