(* ===== verification/LedgerTheorems.thy ===== *)
theory LedgerTheorems
  imports LedgerQueries
begin

text \<open>
  The contract of the block store, stated over chains: what a commit, a rollback and a rebuild do to the chain a
  store represents and what the reads return for it, with a two-row block as the concrete case.
\<close>

section \<open>The empty chain and a first block\<close>

lemma kv_get_empty: "kv_get [] = (\<lambda>_. None)"
  by (rule ext) simp

lemma represents_empty: "represents li H X fh K [] empty_store"
  by (simp add: represents_def core_def empty_store_def heights_ok_def chain_fresh_def idx_ok_def chain_hashes_def
      chain_diffs_def chain_sigs_def chain_addrs_def chain_txids_def chain_txcount_def pk_inv_def chain_keys_def
      chain_balance_def allocations_def bal_rel_def bal_good_def bal_entry_def mark_def dict_get_def zero_prod_def fun_eq_iff kv_count_def)

definition wit_tx :: lrow where
  "wit_tx = \<lparr>r_h = 2, r_ts = ts_str 170000000000, r_addr = replicate 56 97, r_recip = replicate 56 98,
     r_amount = nat_str 100000000, r_sig = lit ''c2ln'', r_pub = PubText (lit ''cHVi''), r_hash = replicate 56 48,
     r_fee = nat_str 1000000, r_reward = nat_str 0, r_op = lit ''0'', r_of = []\<rparr>"

definition wit_coinbase :: lrow where
  "wit_coinbase = \<lparr>r_h = 2, r_ts = ts_str 170000000100, r_addr = replicate 56 98, r_recip = replicate 56 98,
     r_amount = nat_str 0, r_sig = lit ''bWlu'', r_pub = PubText (lit ''bnB1Yg==''), r_hash = replicate 56 48,
     r_fee = nat_str 0, r_reward = nat_str 500000000, r_op = lit ''0'', r_of = lit ''nonce''\<rparr>"

definition wit_keys :: "bytes set" where
  "wit_keys = {blit ''cHVi'', blit ''bnB1Yg==''}"

abbreviation wit_commit :: "block_store option" where
  "wit_commit \<equiv> commit_block True wit_hash wit_ext 2 (replicate 56 48) [wit_tx, wit_coinbase]
     (Some (TStr (lit ''110.5''))) None empty_store"

abbreviation wit_chain :: "ablock list" where
  "wit_chain \<equiv> [new_block True None 2 (replicate 56 48) [wit_tx, wit_coinbase] (Some (TStr (lit ''110.5'')))]"

lemma wit_commit_Some: "\<exists>s. wit_commit = Some s"
proof -
  have "wit_commit \<noteq> None" by code_simp
  then show ?thesis by blast
qed

lemma wit_rows_wf: "\<forall>r \<in> set [wit_tx, wit_coinbase]. row_wf True 2 r"
proof -
  have n: "\<exists>v. ledger_num True (nat_str u) v" if "u < 10 ^ 28" for u
    using that by (auto simp: ledger_num_def num_str_def int_str_int)
  have "\<exists>cs < 10 ^ 28. ts_str c = ts_str cs" if "c < 10 ^ 28" for c using that by blast
  then show ?thesis by (auto simp: wit_tx_def wit_coinbase_def row_wf_def short_def intro!: n)
qed

lemma wit_rows_keys: "row_keys wit_keys [wit_tx, wit_coinbase]" and wit_keys_inj: "inj_on (blake2b wit_hash 32) wit_keys"
proof -
  have "utf8_encode (lit ''cHVi'') = Some (blit ''cHVi'')" "utf8_encode (lit ''bnB1Yg=='') = Some (blit ''bnB1Yg=='')"
    by code_simp+
  then show "row_keys wit_keys [wit_tx, wit_coinbase]" by (simp add: row_keys_def wit_tx_def wit_coinbase_def wit_keys_def)
  have "blake2b wit_hash 32 (blit ''cHVi'') \<noteq> blake2b wit_hash 32 (blit ''bnB1Yg=='')" by code_simp
  then show "inj_on (blake2b wit_hash 32) wit_keys" by (auto simp: wit_keys_def)
qed

lemma wit_represents:
  assumes "wit_commit = Some s"
  shows "represents True wit_hash wit_ext None wit_keys wit_chain s"
  using commit_represents(1) [OF represents_empty assms wit_rows_wf wit_rows_keys wit_keys_inj]
  by (simp add: empty_store_def kv_get_empty)


section \<open>Writing\<close>

text \<open>
  C1: a commit appends.  If a store represents a chain and \<^verbatim>\<open>commit_block\<close> accepts a block whose rows carry
  canonical numbers and keys on which blake2b does not collide, and whose hash and transaction ids are new, then
  the store it leaves represents the chain with that block at its end: every index, the key registry, the
  counters and the balances are exactly those of the longer chain.
\<close>

theorem commit_refines:
  assumes "represents li H X fh K ch s" and "commit_block li H X h hs rows d fh s = Some s'"
    and "\<forall>r \<in> set rows. row_wf li h r" and "row_keys K rows" and "inj_on (blake2b H 32) K"
    and "\<forall>k. hex_key hs = Some k \<longrightarrow> kv_get (bs_hashes s) k = None"
    and "rows_txids H li fh h 0 rows \<inter> dom (kv_get (bs_txid s)) = {}"
  shows "represents li H X fh K (ch @ [new_block li fh h hs rows d]) s'"
  using assms(6) by (intro commit_represents(1) [OF assms(1-5) _ assms(7)]) blast

theorem commit_refines_witness:
  "\<exists>s. wit_commit = Some s \<and> represents True wit_hash wit_ext None wit_keys wit_chain s"
proof -
  obtain s where s: "wit_commit = Some s" using wit_commit_Some by blast
  have "represents True wit_hash wit_ext None wit_keys ([] @ wit_chain) s"
    by (rule commit_refines [OF represents_empty s wit_rows_wf wit_rows_keys wit_keys_inj]) (simp_all add: empty_store_def kv_get_empty)
  then show ?thesis using s by simp
qed

text \<open>
  C2: a rollback truncates.  From a store that represents a chain, \<^verbatim>\<open>rollback(n - 1)\<close> succeeds for every n that
  fits a key, returns the rows of the blocks at n and above in ledger order with typed columns, and leaves a
  store that represents the blocks below n: nothing of a removed block stays in any index or balance.
\<close>

theorem rollback_refines:
  assumes "represents li H X fh K (keep @ gone) s" and "n < 2 ^ 64"
    and "\<forall>b \<in> set keep. a_h b < n" and "\<forall>b \<in> set gone. n \<le> a_h b"
  shows "\<exists>ts s'. rollback li H X (int n - 1) fh s = Some (ts, s') \<and>
    mapM_opt typed_row (concat (map a_rows gone)) = Some ts \<and> represents li H X fh K keep s'"
  using rollback_represents [OF assms] by blast

theorem rollback_refines_witness:
  "\<exists>s ts s'. wit_commit = Some s \<and> rollback True wit_hash wit_ext (int 2 - 1) None s = Some (ts, s') \<and>
    represents True wit_hash wit_ext None wit_keys [] s'"
proof -
  obtain s where s: "wit_commit = Some s" using wit_commit_Some by blast
  have "represents True wit_hash wit_ext None wit_keys ([] @ wit_chain) s" using wit_represents [OF s] by simp
  from rollback_refines [OF this, of 2] s show ?thesis by (auto simp: new_block_def Let_def)
qed

text \<open>Two stores of one chain with the same allocations have the same indexes and balances.\<close>

lemma represents_unique:
  assumes "represents li H X fh K ch s" and "represents li H X fh K ch t" and "allocations t = allocations s"
  shows "bs_sig t = bs_sig s" "bs_addr t = bs_addr s" "bs_txid t = bs_txid s" "bs_pkref t = bs_pkref s"
    "bs_hashes t = bs_hashes s" "bs_diff t = bs_diff s" "bs_bal t = bs_bal s"
proof -
  have "core li H X fh K ch s" "core li H X fh K ch t" using assms(1,2) by (simp_all add: represents_def)
  then show "bs_sig t = bs_sig s" "bs_addr t = bs_addr s" "bs_txid t = bs_txid s" "bs_hashes t = bs_hashes s"
      "bs_diff t = bs_diff s"
    by (auto simp: core_def idx_ok_def intro!: kv_ext)
  show "bs_pkref t = bs_pkref s" using assms(1,2) by (auto simp: represents_def intro!: kv_ext)
  show "bs_bal t = bs_bal s" using assms bal_rel_unique by (auto simp: represents_def)
qed

text \<open>
  C3: rolling back the block that was just committed restores every index and every balance to the bytes they had
  before the commit: the signature, address, transaction-id, key, hash and difficulty sub-databases and the
  balances are equal, not only equivalent.
\<close>

theorem rollback_undoes_commit:
  assumes "represents li H X fh K ch s" and "commit_block li H X h hs rows d fh s = Some s'"
    and "\<forall>r \<in> set rows. row_wf li h r" and "row_keys K rows" and "inj_on (blake2b H 32) K"
    and "\<forall>k. hex_key hs = Some k \<longrightarrow> kv_get (bs_hashes s) k = None"
    and "rows_txids H li fh h 0 rows \<inter> dom (kv_get (bs_txid s)) = {}"
  shows "\<exists>ts t. rollback li H X (int h - 1) fh s' = Some (ts, t) \<and>
    bs_sig t = bs_sig s \<and> bs_addr t = bs_addr s \<and> bs_txid t = bs_txid s \<and> bs_pkref t = bs_pkref s \<and>
    bs_hashes t = bs_hashes s \<and> bs_diff t = bs_diff s \<and> bs_bal t = bs_bal s"
proof -
  let ?b = "new_block li fh h hs rows d"
  have rep: "represents li H X fh K (ch @ [?b]) s'" 
    using assms(6) by (intro commit_represents(1) [OF assms(1-5) _ assms(7)]) blast
  have h: "a_h ?b = h" by (simp add: new_block_def Let_def)
  have hts: "heights_ok (ch @ [?b])" using rep by (simp add: represents_def core_def)
  then have small: "h < 2 ^ 64" using h by (simp add: heights_ok_snoc)
  have below: "\<forall>c \<in> set ch. a_h c < h" using heights_less [OF hts] h by simp
  obtain ts t where t: "rollback li H X (int h - 1) fh s' = Some (ts, t)" "represents li H X fh K ch t" "allocations t = allocations s'"
    using rollback_represents [OF rep small below] h by (auto simp: allocations_def)
  have "allocations s' = allocations s"
    using assms(6) by (intro commit_represents(2) [OF assms(1-5) _ assms(7)]) blast
  then show ?thesis using t represents_unique [OF assms(1) t(2)] by auto
qed


theorem rollback_undoes_commit_witness:
  "\<exists>s ts t. wit_commit = Some s \<and> rollback True wit_hash wit_ext (int 2 - 1) None s = Some (ts, t) \<and>
    bs_bal t = [] \<and> bs_sig t = []"
proof -
  obtain s where s: "wit_commit = Some s" using wit_commit_Some by blast
  have "\<exists>ts t. rollback True wit_hash wit_ext (int 2 - 1) None s = Some (ts, t) \<and>
    bs_sig t = bs_sig empty_store \<and> bs_addr t = bs_addr empty_store \<and> bs_txid t = bs_txid empty_store \<and>
    bs_pkref t = bs_pkref empty_store \<and> bs_hashes t = bs_hashes empty_store \<and> bs_diff t = bs_diff empty_store \<and>
    bs_bal t = bs_bal empty_store"
    by (rule rollback_undoes_commit [OF represents_empty s wit_rows_wf wit_rows_keys wit_keys_inj])
       (simp_all add: empty_store_def kv_get_empty)
  then show ?thesis using s by (auto simp: empty_store_def)
qed

text \<open>
  C4: the rebuild agrees with the live path.  On a store that represents a chain of blocks at height 1 and above,
  \<^verbatim>\<open>reindex\<close> succeeds for every positive batch size, returns the number of transactions, and gives back the store
  it was called on: the five indexes it dropped, the balances and the transaction count are rebuilt identically.
\<close>

theorem reindex_rebuilds:
  assumes "represents li H X fh K ch s" and "\<forall>b \<in> set ch. 1 \<le> a_h b \<and> a_h b + 1 < 2 ^ 64" and "0 < batch"
    and "dict_ok (allocations s)" "\<forall>a \<in> fst ` set (allocations s). short a"
  shows "reindex li H X fh batch s = Some (chain_txcount ch, s\<lparr>bs_txcount := Some (chain_txcount ch)\<rparr>)"
  by (rule reindex_same [OF assms])

theorem reindex_rebuilds_witness:
  "\<exists>s. wit_commit = Some s \<and> reindex True wit_hash wit_ext None 7 s = Some (2, s\<lparr>bs_txcount := Some 2\<rparr>)"
proof -
  obtain s where s: "wit_commit = Some s" using wit_commit_Some by blast
  note rep = wit_represents [OF s]
  have "allocations s = allocations empty_store"
    by (rule commit_represents(2) [OF represents_empty s wit_rows_wf wit_rows_keys wit_keys_inj])
       (simp_all add: empty_store_def kv_get_empty)
  then have al: "allocations s = []" by (simp add: allocations_def empty_store_def)
  have "reindex True wit_hash wit_ext None 7 s = Some (chain_txcount wit_chain, s\<lparr>bs_txcount := Some (chain_txcount wit_chain)\<rparr>)"
    by (rule reindex_rebuilds [OF rep]) (simp_all add: al new_block_def Let_def)
  moreover have "chain_txcount wit_chain = 2" by (simp add: chain_txcount_def new_block_def Let_def)
  ultimately show ?thesis using s by simp
qed

section \<open>Reading\<close>

text \<open>
  C5: the balance of an address is the ledger's arithmetic: on a store that represents a chain, \<^verbatim>\<open>balance_units\<close>
  returns the fixed allocation plus all amounts received plus all rewards received minus all amounts sent minus
  all fees paid, summed over the rows of the chain.
\<close>

theorem balance_is_sum:
  assumes "represents li H X fh K ch s" and "short a" "akey a \<noteq> None"
  shows "balance_units s a = Some (dict_get (allocations s) a 0 + (\<Sum>b\<leftarrow>ch. \<Sum>r\<leftarrow>a_rows b.
     (if r_recip r = a then money li (r_amount r) + money li (r_reward r) else 0)
     - (if r_addr r = a then money li (r_amount r) + money li (r_fee r) else 0)))"
  using balance_units_chain [OF assms]
  by (simp add: chain_balance_def net_add net_sum rows_delta_def net_row_delta) (simp add: net_def)

theorem balance_is_sum_witness:
  "\<exists>s. wit_commit = Some s \<and> balance_units s (replicate 56 98) = Some 600000000"
proof -
  obtain s where s: "wit_commit = Some s" using wit_commit_Some by blast
  have "allocations s = allocations empty_store"
    by (rule commit_represents(2) [OF represents_empty s wit_rows_wf wit_rows_keys wit_keys_inj])
       (simp_all add: empty_store_def kv_get_empty)
  then have al: "allocations s = []" by (simp add: allocations_def empty_store_def)
  have m: "money True (nat_str n) = int n" for n by (simp add: money_def units_nat_str)
  have "akey (replicate 56 98) \<noteq> None" by code_simp
  from balance_is_sum [OF wit_represents [OF s] _ this] s show ?thesis
    by (simp add: al short_def new_block_def Let_def stored_form_def dict_get_def at_fork_def wit_tx_def wit_coinbase_def m)
qed

text \<open>
  C6: replay protection reads the truth: on a store that represents a chain, \<^verbatim>\<open>signature_exists\<close> answers True for
  an indexed signature exactly when some row of the chain, at or below the optional height bound, carries it.
  Signatures that share the 32 bytes the index key keeps are told apart.
\<close>

theorem signature_exists_exact:
  assumes "represents li H X fh K ch s" and "utf8_encode sg \<noteq> None" "indexable_sig sg"
  shows "signature_exists li X s sg mx = Some (\<exists>b \<in> set ch. (case mx of None \<Rightarrow> True | Some m \<Rightarrow> int (a_h b) \<le> m) \<and>
    (\<exists>r \<in> set (a_rows b). r_sig r = sg))"
  by (rule signature_exists_iff [OF assms])

theorem signature_exists_exact_witness:
  "\<exists>s. wit_commit = Some s \<and> signature_exists True wit_ext s (lit ''c2ln'') None = Some True
    \<and> signature_exists True wit_ext s (lit ''c2ln'') (Some 1) = Some False"
proof -
  obtain s where s: "wit_commit = Some s" using wit_commit_Some by blast
  have sg: "utf8_encode (lit ''c2ln'') \<noteq> None" "indexable_sig (lit ''c2ln'')" by code_simp+
  note E = signature_exists_exact [OF wit_represents [OF s] sg]
  show ?thesis using s E [of None] E [of "Some 1"] by (simp add: new_block_def Let_def stored_form_def wit_tx_def)
qed

end
