(* ===== verification/Validation.thy ===== *)
theory Validation
  imports Floats PyDict Fork
begin

text \<open>
  \<^verbatim>\<open>validation_exceptions.py\<close>: the registry of waivers for historical blocks, the trusted prefix and its
  checkpoints, over the attributes of the node that the block digester reads and writes.
\<close>

section \<open>The node\<close>

record waiver =
  w_checks :: "pystr list"
  w_reason :: pystr
  w_signatures :: "pystr list option"

text \<open>The attributes of the node object; an attribute the source reads with \<^verbatim>\<open>getattr\<close> and a default is an option.\<close>

record dnode =
  dn_mainnet :: bool
  dn_testnet :: bool
  dn_regnet :: bool
  dn_exceptions :: "(int, waiver) dict option"
  dn_assume_valid :: int
  dn_checkpoints :: "(nat, pystr) dict option"
  dn_last_block :: nat
  dn_last_hash :: pystr
  dn_last_ts :: decimal
  dn_fork_height :: "nat option"
  dn_base_fee :: "decimal option"
  dn_fee_post_fork :: bool
  dn_caught_up :: bool
  dn_fork_params :: "nat \<times> nat \<times> nat"
  dn_stopping :: bool
  dn_hdd_block :: nat
  dn_hdd_hash :: pystr
  dn_version_allow :: "pystr list"

section \<open>Checks and registry\<close>

definition SIGNATURE :: pystr where "SIGNATURE = lit ''signature''"
definition OVERSPEND :: pystr where "OVERSPEND = lit ''overspend''"
definition DUPLICATE :: pystr where "DUPLICATE = lit ''duplicate''"
definition POW :: pystr where "POW = lit ''pow''"
definition TIMESTAMP :: pystr where "TIMESTAMP = lit ''timestamp''"
definition ALL_CHECKS :: "pystr list" where "ALL_CHECKS = [SIGNATURE, OVERSPEND, DUPLICATE, POW, TIMESTAMP]"

definition MAINNET_EXCEPTIONS :: "(int, waiver) dict" where "MAINNET_EXCEPTIONS = []"

definition MAINNET_CHECKPOINTS :: "(nat, pystr) dict" where
  "MAINNET_CHECKPOINTS =
     [(4000000, lit ''6f4794262f38f5de41379fd860bb58332f1825c1c6e04885ca11db7f''),
      (4500000, lit ''f717f8368c668408c18f34acaa2ede445e90174366ddb0f666756f8c''),
      (4800000, lit ''88d6292c08e0371a20ea630af491933547f1aed71be519f0de591cb4'')]"

text \<open>An exceptions file: the object the JSON text denotes, heights as text.  An unknown check or a height that
  is no number raises.\<close>

definition parse_exceptions :: "(pystr, waiver) dict \<Rightarrow> (int, waiver) dict option" where
  "parse_exceptions raw = foldM_opt
     (\<lambda>(k, v) parsed.
        if list_all (\<lambda>c. c \<in> set ALL_CHECKS) (w_checks v)
        then do { h \<leftarrow> py_int k; Some (dict_set h v parsed) }
        else None) raw []"

definition load_exceptions :: "dnode \<Rightarrow> (pystr, waiver) dict \<Rightarrow> (int, waiver) dict option" where
  "load_exceptions node raw = do {
     parsed \<leftarrow> parse_exceptions raw;
     Some (if \<not> (dn_testnet node \<or> dn_regnet node) \<and> dn_mainnet node
           then dict_update MAINNET_EXCEPTIONS parsed else parsed) }"

definition network_registry :: "dnode \<Rightarrow> (int, waiver) dict" where
  "network_registry node = (case dn_exceptions node of
     Some r \<Rightarrow> r
   | None \<Rightarrow> if dn_testnet node \<or> dn_regnet node then [] else if \<not> dn_mainnet node then [] else MAINNET_EXCEPTIONS)"

definition sig_match :: "pystr list option \<Rightarrow> pystr option \<Rightarrow> bool" where
  "sig_match signatures signature = (case signatures of
     None \<Rightarrow> True
   | Some ps \<Rightarrow> (case signature of None \<Rightarrow> False | Some s \<Rightarrow> list_ex (\<lambda>p. prefix p s) ps))"

definition is_exempt :: "dnode \<Rightarrow> nat \<Rightarrow> pystr \<Rightarrow> pystr option \<Rightarrow> bool" where
  "is_exempt node height check signature =
     (case map_of (network_registry node) (int height) of
        None \<Rightarrow> False
      | Some entry \<Rightarrow>
          if check \<notin> set (w_checks entry) then False
          else if check = SIGNATURE then sig_match (w_signatures entry) signature
          else True)"

section \<open>The trusted prefix\<close>

definition checkpoints :: "dnode \<Rightarrow> (nat, pystr) dict" where
  "checkpoints node = (case dn_checkpoints node of
     Some c \<Rightarrow> c
   | None \<Rightarrow> if dn_testnet node \<or> dn_regnet node then [] else if \<not> dn_mainnet node then [] else MAINNET_CHECKPOINTS)"

definition in_trusted_prefix :: "dnode \<Rightarrow> nat \<Rightarrow> bool" where
  "in_trusted_prefix node height =
     (let h = dn_assume_valid node; cps = checkpoints node in
      if h \<le> 0 \<or> h < int height then False
      else if cps = [] \<or> int (Max (fst ` set cps)) < h then False
      else True)"

definition assume_valid_skip_signature :: "dnode \<Rightarrow> nat \<Rightarrow> bool" where
  "assume_valid_skip_signature node height = in_trusted_prefix node height"

definition checkpoint_hash :: "dnode \<Rightarrow> nat \<Rightarrow> pystr option" where
  "checkpoint_hash node height = map_of (checkpoints node) height"

text \<open>None is the ValueError of a mismatch.\<close>

definition verify_checkpoint :: "dnode \<Rightarrow> nat \<Rightarrow> pystr \<Rightarrow> bool option" where
  "verify_checkpoint node height bhash = (case checkpoint_hash node height of
     None \<Rightarrow> Some False
   | Some want \<Rightarrow> if bhash \<noteq> want then None else Some True)"

section \<open>What the waivers can and cannot do\<close>

lemma no_waiver: "dn_exceptions node = None \<Longrightarrow> \<not> is_exempt node h check sg"
  by (simp add: is_exempt_def network_registry_def MAINNET_EXCEPTIONS_def)

text \<open>Whatever height is trusted, a checkpoint at or above it will be compared.\<close>

lemma trusted_anchored:
  assumes "in_trusted_prefix node h"
  shows "\<exists>c \<ge> h. checkpoint_hash node c \<noteq> None"
proof -
  have cps: "checkpoints node \<noteq> []" "int h \<le> dn_assume_valid node" "dn_assume_valid node \<le> int (Max (fst ` set (checkpoints node)))"
    using assms by (auto simp: in_trusted_prefix_def Let_def split: if_splits)
  let ?m = "Max (fst ` set (checkpoints node))"
  have "?m \<in> fst ` set (checkpoints node)" using cps(1) by (intro Max_in) auto
  then have "checkpoint_hash node ?m \<noteq> None" by (simp add: checkpoint_hash_def map_of_eq_None_iff del: not_None_eq)
  moreover have "h \<le> ?m" using cps(2,3) by linarith
  ultimately show ?thesis by blast
qed

end
