(* ===== verification/DigestTx.thy ===== *)
theory DigestTx
  imports Validation Serialize SignerFactory Base64 BlockRows
begin

text \<open>
  Transactions of a block under validation: \<^verbatim>\<open>digest_tx.py\<close> (parsing the wire form, the field checks) and the
  fork-aware signature dispatch of \<^verbatim>\<open>SignerFactory.verify_tx_signature\<close>.  The signature schemes themselves are
  the crypto packages', here the functions of a parameter.
\<close>

section \<open>Outcomes of a check\<close>

text \<open>A check passes, raises ValueError, which a waiver can catch, or raises something else.\<close>

datatype outcome = Passed | ValueErr | OtherErr

fun seq_checks :: "outcome list \<Rightarrow> outcome" where
  "seq_checks [] = Passed"
| "seq_checks (c # cs) = (case c of Passed \<Rightarrow> seq_checks cs | _ \<Rightarrow> c)"

definition reject_if :: "bool option \<Rightarrow> outcome" where
  "reject_if b = (case b of None \<Rightarrow> OtherErr | Some r \<Rightarrow> if r then ValueErr else Passed)"

lemma seq_checks_Passed: "seq_checks cs = Passed \<longleftrightarrow> list_all (\<lambda>c. c = Passed) cs"
  by (induction cs) (auto split: outcome.split)

lemma reject_if_Passed: "reject_if b = Passed \<longleftrightarrow> b = Some False"
  by (auto simp: reject_if_def split: option.split)

section \<open>Signatures\<close>

record sig_ext =
  verify_bis :: "signer_class \<Rightarrow> pystr \<Rightarrow> pystr \<Rightarrow> bytes \<Rightarrow> pystr \<Rightarrow> outcome"
  verify_recovered :: "pystr \<Rightarrow> pystr \<Rightarrow> pystr \<Rightarrow> outcome"
  ed_public_key :: "pystr \<Rightarrow> bytes option"
  verify_ed_raw :: "bytes \<Rightarrow> bytes \<Rightarrow> bytes \<Rightarrow> pystr \<Rightarrow> outcome"

text \<open>An address of no known format raises ValueError, a signer module that cannot be imported ImportError.\<close>

definition verify_bis_signature :: "addr_ext \<Rightarrow> sig_ext \<Rightarrow> pystr \<Rightarrow> pystr \<Rightarrow> bytes \<Rightarrow> pystr \<Rightarrow> outcome" where
  "verify_bis_signature X V signature public_key buffer address =
     (case address_to_signer X address of
        Some sc \<Rightarrow> verify_bis V sc signature public_key buffer address
      | None \<Rightarrow> if RE_MULTISIG_ADDRESS address \<or> RE_ECDSA_ADDRESS address then OtherErr else ValueErr)"

text \<open>\<^verbatim>\<open>registry.get(address)\<close>: None without an entry, an exception for an address that is no key.\<close>

type_synonym pk_registry = "pystr \<Rightarrow> bytes option option"

definition verify_tx_signature ::
  "hash_ext \<Rightarrow> addr_ext \<Rightarrow> sig_ext \<Rightarrow> bool \<Rightarrow> pystr \<Rightarrow> pystr \<Rightarrow> pystr \<Rightarrow> pystr \<Rightarrow> pystr \<Rightarrow> pystr \<Rightarrow> pystr \<Rightarrow> pystr
     \<Rightarrow> pk_registry option \<Rightarrow> bool \<Rightarrow> outcome" where
  "verify_tx_signature H X V post_fork timestamp address recipient amount operation openfield signature public_key
       registry is_coinbase =
     (if post_fork \<and> is_coinbase then (if recipient \<noteq> address then ValueErr else Passed)
      else if post_fork \<and> is_single_sig_ecdsa address then
        (if py_strip public_key \<noteq> [] then ValueErr
         else case tx_id_v2_s H timestamp address recipient amount operation openfield of
             Some txid \<Rightarrow> verify_recovered V signature txid address
           | None \<Rightarrow>
               (case (v2_ts_cs timestamp, v2_units amount) of
                  (Some cs, Some u) \<Rightarrow> if to_bytes_le 8 cs \<noteq> None \<and> to_bytes_le 8 u \<noteq> None then ValueErr else OtherErr
                | _ \<Rightarrow> OtherErr))
      else if post_fork \<and> is_single_sig_ed25519 address then
        (if py_strip public_key \<noteq> [] then ValueErr
         else case ed_public_key V address of
             None \<Rightarrow> ValueErr
           | Some pub \<Rightarrow>
               (case (signature_buffer H timestamp address recipient amount operation openfield, b64decode signature) of
                  (Some buffer, Some sg) \<Rightarrow> verify_ed_raw V sg pub buffer address
                | _ \<Rightarrow> ValueErr))
      else
        let resolved = (if post_fork \<and> py_strip public_key = [] then
              (case registry of
                 None \<Rightarrow> Inl ValueErr
               | Some get \<Rightarrow> (case get address of
                     None \<Rightarrow> Inl OtherErr
                   | Some None \<Rightarrow> Inl ValueErr
                   | Some (Some b) \<Rightarrow> (case utf8_decode b of None \<Rightarrow> Inl ValueErr | Some p \<Rightarrow> Inr p)))
            else Inr public_key)
        in case resolved of
             Inl err \<Rightarrow> err
           | Inr pk \<Rightarrow>
               (case signature_buffer H timestamp address recipient amount operation openfield of
                  None \<Rightarrow> ValueErr
                | Some buffer \<Rightarrow> verify_bis_signature X V signature pk buffer address))"

section \<open>The wire form\<close>

text \<open>The eight fields a peer sends: the timestamp and the amount as text or numbers, the others as text.\<close>

record rawtx =
  x_ts :: tval
  x_addr :: pystr
  x_recip :: pystr
  x_amount :: tval
  x_sig :: pystr
  x_pub :: pystr
  x_op :: pystr
  x_of :: pystr

record dtx =
  d_start :: decimal
  d_q :: decimal
  d_ts :: pystr
  d_addr :: pystr
  d_recip :: pystr
  d_amount :: pystr
  d_sig :: pystr
  d_pub :: pystr
  d_op :: pystr
  d_of :: pystr

record minertx =
  m_ts :: decimal
  m_nonce :: pystr
  m_nonce_v2 :: pystr
  m_addr :: pystr

definition MAX_TX_SIGNATURE_LEN :: nat where "MAX_TX_SIGNATURE_LEN = 8192"
definition MAX_TX_PUBKEY_LEN :: nat where "MAX_TX_PUBKEY_LEN = 4096"
definition COINBASE_MINING_SLOT_MAX :: nat where "COINBASE_MINING_SLOT_MAX = 255"
definition COINBASE_FREEFIELD_MAX :: nat where "COINBASE_FREEFIELD_MAX = 4096"

text \<open>\<^verbatim>\<open>Decimal(v)\<close> of a wire value; a float keeps its exact value.\<close>

definition wire_dec :: "tval \<Rightarrow> decimal option" where
  "wire_dec v = py_Decimal (tval_py v)"

text \<open>The quantizers of this module have no short cut for falsy values.\<close>

definition dtx_quantize_two :: "decimal \<Rightarrow> decimal option" where
  "dtx_quantize_two d = dquantize d (- 2)"

definition dtx_quantize_eight :: "decimal \<Rightarrow> decimal option" where
  "dtx_quantize_eight d = dquantize d (- 8)"

definition from_raw_transaction ::
  "pyfloat \<Rightarrow> rawtx \<Rightarrow> nat \<Rightarrow> nat \<Rightarrow> nat \<Rightarrow> nat option \<Rightarrow> (dtx \<times> minertx option) option" where
  "from_raw_transaction now transaction index tx_count height fh = do {
     n \<leftarrow> wire_dec (TFloat now);
     start \<leftarrow> dtx_quantize_two n;
     t \<leftarrow> wire_dec (x_ts transaction);
     q \<leftarrow> dtx_quantize_two t;
     ts \<leftarrow> fmt_dec 2 q;
     a \<leftarrow> wire_dec (x_amount transaction);
     qa \<leftarrow> dtx_quantize_eight a;
     amount \<leftarrow> fmt_dec 8 qa;
     let post_fork = at_fork height fh;
     let tx = \<lparr>d_start = start, d_q = q, d_ts = ts, d_addr = take 56 (x_addr transaction),
               d_recip = take 56 (x_recip transaction), d_amount = amount,
               d_sig = take MAX_TX_SIGNATURE_LEN (x_sig transaction),
               d_pub = take MAX_TX_PUBKEY_LEN (x_pub transaction),
               d_op = (if post_fork then x_op transaction else take 30 (x_op transaction)),
               d_of = (if post_fork then x_of transaction else take 100000 (x_of transaction))\<rparr>;
     if index + 1 = tx_count then do {
       f \<leftarrow> float_str amount;
       if \<not> float_zero f then None
       else Some (tx, Some \<lparr>m_ts = q, m_nonce = take 128 (d_of tx), m_nonce_v2 = take 128 (d_sig tx), m_addr = d_addr tx\<rparr>) }
     else Some (tx, None) }"

text \<open>\<^verbatim>\<open>len(s.encode("utf-8")) > n\<close>; text that cannot be encoded raises UnicodeEncodeError, a ValueError.\<close>

definition exceeds :: "nat \<Rightarrow> pystr \<Rightarrow> outcome" where
  "exceeds n s = (case utf8_encode s of None \<Rightarrow> ValueErr | Some b \<Rightarrow> if n < length b then ValueErr else Passed)"

definition validate ::
  "hash_ext \<Rightarrow> addr_ext \<Rightarrow> sig_ext \<Rightarrow> pk_registry option \<Rightarrow> nat option \<Rightarrow> dtx \<Rightarrow> decimal \<Rightarrow> nat \<Rightarrow> bool \<Rightarrow> bool \<Rightarrow> outcome" where
  "validate H X V registry fh tx last_ts height verify_signature is_coinbase =
     (let post_fork = at_fork height fh in
      seq_checks
       [reject_if (dless (d_start tx) (d_q tx)),
        reject_if (do { l \<leftarrow> dsub last_ts (Fin False 86400 0); dless (d_q tx) l }),
        (case float_str (d_amount tx) of None \<Rightarrow> ValueErr | Some f \<Rightarrow> reject_if (Some (float_less f (Fl False 0)))),
        reject_if (Some (\<not> address_is_valid X (d_addr tx))),
        reject_if (Some (\<not> address_is_valid X (d_recip tx))),
        (if is_coinbase \<and> post_fork then
           seq_checks [exceeds COINBASE_MINING_SLOT_MAX (d_sig tx), exceeds COINBASE_MINING_SLOT_MAX (d_pub tx),
             exceeds COINBASE_FREEFIELD_MAX (d_op tx), exceeds COINBASE_FREEFIELD_MAX (d_of tx)]
         else Passed),
        (if \<not> verify_signature then Passed
         else if is_coinbase \<and> \<not> post_fork \<and> \<not> address_is_rsa (d_addr tx) then ValueErr
         else verify_tx_signature H X V post_fork (d_ts tx) (d_addr tx) (d_recip tx) (d_amount tx) (d_op tx) (d_of tx)
                (d_sig tx) (d_pub tx) registry is_coinbase)])"

definition to_tuple :: "dtx \<Rightarrow> tx8" where
  "to_tuple tx = \<lparr>t_ts = d_ts tx, t_addr = d_addr tx, t_recip = d_recip tx, t_amount = d_amount tx, t_sig = d_sig tx,
     t_pubkey = d_pub tx, t_op = d_op tx, t_of = d_of tx\<rparr>"

end
