(* ===== verification/Mining.thy ===== *)
theory Mining
  imports DigestTx
begin

text \<open>
  The proof of work of \<^verbatim>\<open>mining_heavy3.py\<close>: the memory-hard hash, the number of leading bits of the parent hash it
  contains, and the check of a block against the required difficulty with the drop for late blocks.  The one
  gigabyte file of noise is a parameter, a function from word positions to 32-bit words.
\<close>

section \<open>The annealed hash\<close>

definition RND_LEN :: nat where "RND_LEN = 268435456"
definition REGNET_DIFF :: int where "REGNET_DIFF = 16"

text \<open>\<^verbatim>\<open>"{:08x}".format(value)\<close>\<close>

definition hex8 :: "32 word \<Rightarrow> pystr" where
  "hex8 w = bytes_hex (be_bytes 4 (unat w))"

fun anneal_words :: "(nat \<Rightarrow> 32 word) \<Rightarrow> nat \<Rightarrow> nat \<Rightarrow> nat \<Rightarrow> pystr \<Rightarrow> pystr" where
  "anneal_words noise index 0 n res = res"
| "anneal_words noise index (Suc k) n res =
     anneal_words noise (index + 1) k (n div 2 ^ 32) (hex8 (of_nat n XOR noise index) @ res)"

definition anneal3 :: "(nat \<Rightarrow> 32 word) \<Rightarrow> nat \<Rightarrow> pystr" where
  "anneal3 noise n =
     (let h7 = (of_nat n :: 32 word); index = unat (h7 AND NOT 7) mod RND_LEN in
      anneal_words noise index 7 n [])"

text \<open>\<^verbatim>\<open>"{:056x}".format(n)\<close>\<close>

definition anneal3_regnet :: "nat \<Rightarrow> pystr" where
  "anneal3_regnet n = bytes_hex (be_bytes 28 n)"

fun bin_str :: "nat \<Rightarrow> pystr" where
  "bin_str n = (if n < 2 then [48 + n] else bin_str (n div 2) @ [48 + n mod 2])"

declare bin_str.simps [simp del]

definition bin_convert :: "pystr \<Rightarrow> pystr" where
  "bin_convert s = concat (map (\<lambda>c. let b = bin_str c in replicate (8 - length b) 48 @ b) s)"

section \<open>Counting leading bits\<close>

text \<open>The loop takes longer and longer prefixes of the mining condition.  Once the slice is the whole condition it
  no longer changes, so a condition that occurs as a whole keeps the loop running for ever, which is None.\<close>

function diff_loop :: "pystr \<Rightarrow> pystr \<Rightarrow> nat \<Rightarrow> nat \<Rightarrow> nat option" where
  "diff_loop cond annealed diff diff_result =
     (if \<not> sublist (take diff cond) annealed then Some diff_result
      else if length cond \<le> diff then None
      else diff_loop cond annealed (diff + 1) diff)"
  by pat_completeness auto
termination
  by (relation "measure (\<lambda>(cond, _, diff, _). length cond - diff)") auto

declare diff_loop.simps [simp del]

record pow_env =
  pow_noise :: "nat \<Rightarrow> 32 word"
  pow_heavy :: bool
  pow_regnet :: bool

definition annealed_bits :: "hash_ext \<Rightarrow> pow_env \<Rightarrow> bytes \<Rightarrow> bool \<Rightarrow> pystr" where
  "annealed_bits H P data new_pow =
     (let hash224 = be_nat (if new_pow then blake2b H 28 data else sha224 H data) in
      bin_convert (if pow_heavy P \<or> \<not> pow_regnet P then anneal3 (pow_noise P) hash224 else anneal3_regnet hash224))"

definition diffme_heavy3 :: "hash_ext \<Rightarrow> pow_env \<Rightarrow> pystr \<Rightarrow> pystr \<Rightarrow> pystr \<Rightarrow> bool \<Rightarrow> nat option" where
  "diffme_heavy3 H P pool_address nonce db_block_hash new_pow = do {
     data \<leftarrow> utf8_encode (pool_address @ nonce @ db_block_hash);
     diff_loop (bin_convert db_block_hash) (annealed_bits H P data new_pow) 1 0 }"

section \<open>The check of a block\<close>

text \<open>\<^verbatim>\<open>int(d)\<close> of a recorded difficulty.\<close>

definition tval_int :: "tval \<Rightarrow> int option" where
  "tval_int v = val_int (tval_py v)"

definition quantize_ten_val :: "tval \<Rightarrow> decimal option" where
  "quantize_ten_val v = quantize_ten (tval_py v)"

text \<open>The difficulty a block found late is held to: lowered by one per three minutes, and by ten per three
  minutes after six, but never below 50.\<close>

definition dropped_difficulty :: "tval \<Rightarrow> decimal \<Rightarrow> decimal \<Rightarrow> bool \<Rightarrow> decimal option" where
  "dropped_difficulty diff0 q_received q_last emergency = do {
     td \<leftarrow> dsub q_received q_last;
     d \<leftarrow> quantize_ten_val diff0;
     one \<leftarrow> quantize_ten (PInt 1);
     dropped \<leftarrow> (if emergency then do {
         late \<leftarrow> dsub td (Fin False 360 0);
         late10 \<leftarrow> dmul (Fin False 10 0) late;
         x \<leftarrow> ddiv late10 (Fin False 180 0);
         qx \<leftarrow> quantize_ten (PDec x);
         a \<leftarrow> dsub d one;
         dsub a qx }
       else do {
         x \<leftarrow> ddiv td (Fin False 180 0);
         qx \<leftarrow> quantize_ten (PDec x);
         a \<leftarrow> dadd d one;
         dsub a qx });
     low \<leftarrow> dless dropped (Fin False 50 0);
     Some (if low then Fin False 50 0 else dropped) }"

text \<open>Whether a block came more than three and more than six minutes after its parent.\<close>

definition lateness :: "pystr \<Rightarrow> decimal \<Rightarrow> (bool \<times> bool) option" where
  "lateness received_timestamp q_last = do {
     t \<leftarrow> dec_parse received_timestamp;
     l1 \<leftarrow> dadd q_last (Fin False 180 0);
     l2 \<leftarrow> dadd q_last (Fin False 360 0);
     late \<leftarrow> dless l1 t;
     very_late \<leftarrow> dless l2 t;
     Some (late, very_late) }"

text \<open>A difficulty that is too low raises ValueError; every other failure is some other exception.\<close>

definition check_block ::
  "hash_ext \<Rightarrow> pow_env \<Rightarrow> pystr \<Rightarrow> pystr \<Rightarrow> pystr \<Rightarrow> tval \<Rightarrow> pystr \<Rightarrow> decimal \<Rightarrow> decimal \<Rightarrow> bool \<Rightarrow> outcome + tval" where
  "check_block H P miner_address nonce db_block_hash diff received_timestamp q_received q_last new_pow =
     (let diff0 = (if pow_regnet P then TInt (REGNET_DIFF - 8) else diff) in
      if utf8_encode (miner_address @ nonce @ db_block_hash) = None then Inl ValueErr
      else case (diffme_heavy3 H P miner_address nonce db_block_hash new_pow, tval_int diff0) of
        (Some real_diff, Some d0) \<Rightarrow>
          if d0 \<le> int real_diff then Inr diff0
          else (case lateness received_timestamp q_last of
              None \<Rightarrow> Inl OtherErr
            | Some (late, very_late) \<Rightarrow>
                if \<not> late then Inl ValueErr
                else (case Option.bind (dropped_difficulty diff0 q_received q_last very_late) dec_int of
                    None \<Rightarrow> Inl OtherErr
                  | Some d \<Rightarrow> if d \<le> int real_diff then Inr diff0 else Inl ValueErr))
      | _ \<Rightarrow> Inl OtherErr)"

section \<open>Properties\<close>

text \<open>The count is the length of the longest prefix of the condition that occurs.\<close>

lemma sublist_take_mono: "sublist (take n xs) ys \<Longrightarrow> m \<le> n \<Longrightarrow> sublist (take m xs) ys"
proof -
  assume s: "sublist (take n xs) ys" and "m \<le> n"
  then have "prefix (take m xs) (take n xs)" by (metis min.absorb1 take_is_prefix take_take)
  then show "sublist (take m xs) ys" using s by (meson prefix_imp_sublist sublist_order.order.trans)
qed

lemma diff_loop_exact:
  assumes "sublist (take (d - 1) cond) annealed" and "1 \<le> d" "d \<le> length cond + 1"
  shows "diff_loop cond annealed d (d - 1) =
    (if sublist cond annealed then None
     else Some (GREATEST n. n \<le> length cond \<and> sublist (take n cond) annealed))"
  using assms
proof (induction cond annealed d "d - 1" rule: diff_loop.induct)
  case (1 cond annealed d)
  show ?case
  proof (cases "sublist (take d cond) annealed")
    case False
    then have full: "\<not> sublist cond annealed" using sublist_take_mono [of "length cond" cond annealed d] "1.prems"(3)
      by (cases "d \<le> length cond") auto
    have "(GREATEST n. n \<le> length cond \<and> sublist (take n cond) annealed) = d - 1"
    proof (rule Greatest_equality)
      show "d - 1 \<le> length cond \<and> sublist (take (d - 1) cond) annealed" using "1.prems" by auto
      show "n \<le> d - 1" if "n \<le> length cond \<and> sublist (take n cond) annealed" for n
        using that False sublist_take_mono [of n cond annealed d] by (cases "d \<le> n") auto
    qed
    then show ?thesis using False full by (simp add: diff_loop.simps)
  next
    case True
    then show ?thesis
      using "1.hyps" "1.prems" by (subst diff_loop.simps) auto
  qed
qed

end
