(* ===== verification/Difficulty.thy ===== *)
theory Difficulty
  imports Mining BlockReads
begin

text \<open>
  The difficulty the next block must reach: the legacy controller of \<^verbatim>\<open>difficulty.py\<close> and the linearly weighted
  moving average of \<^verbatim>\<open>difficulty_lwma.py\<close> that replaces it past the fork.  The transcendental functions of
  the platform's mathematics library are a parameter.
\<close>

record math_ext =
  math_log :: "pyfloat \<Rightarrow> pyfloat option"
  dec_pow2 :: "decimal \<Rightarrow> decimal option"
  dec_ln :: "decimal \<Rightarrow> decimal option"

section \<open>Floats\<close>

fun fl_mul :: "pyfloat \<Rightarrow> pyfloat \<Rightarrow> pyfloat" where
  "fl_mul FNaN _ = FNaN"
| "fl_mul _ FNaN = FNaN"
| "fl_mul (Fl s m) (Fl t n) = round_float (s \<noteq> t) (m * n)"
| "fl_mul (FInf s) (Fl t n) = (if n = 0 then FNaN else FInf (s \<noteq> t))"
| "fl_mul (Fl s m) (FInf t) = (if m = 0 then FNaN else FInf (s \<noteq> t))"
| "fl_mul (FInf s) (FInf t) = FInf (s \<noteq> t)"

text \<open>Division by zero raises.\<close>

fun fl_div :: "pyfloat \<Rightarrow> pyfloat \<Rightarrow> pyfloat option" where
  "fl_div x (Fl t n) =
     (if n = 0 then None
      else Some (case x of Fl s m \<Rightarrow> round_float (s \<noteq> t) (m / n) | FInf s \<Rightarrow> FInf (s \<noteq> t) | FNaN \<Rightarrow> FNaN))"
| "fl_div x (FInf t) = Some (case x of Fl s m \<Rightarrow> Fl (s \<noteq> t) 0 | _ \<Rightarrow> FNaN)"
| "fl_div x FNaN = Some FNaN"

fun fl_sub :: "pyfloat \<Rightarrow> pyfloat \<Rightarrow> pyfloat" where
  "fl_sub FNaN _ = FNaN"
| "fl_sub _ FNaN = FNaN"
| "fl_sub (FInf s) (FInf t) = (if s = t then FNaN else FInf s)"
| "fl_sub (FInf s) (Fl _ _) = FInf s"
| "fl_sub (Fl _ _) (FInf t) = FInf (\<not> t)"
| "fl_sub (Fl s m) (Fl t n) = float_of_rat ((if s then - m else m) - (if t then - n else n))"

fun fl_dec :: "pyfloat \<Rightarrow> decimal" where
  "fl_dec (Fl s m) = float_dec (if s then - m else m)"
| "fl_dec (FInf s) = Inf s"
| "fl_dec FNaN = QNaN"

text \<open>\<^verbatim>\<open>math.ceil(d)\<close>\<close>

fun dec_ceil :: "decimal \<Rightarrow> int option" where
  "dec_ceil (Fin s c e) = Some (if 0 \<le> e then dsigned s (c * 10 ^ nat e)
     else if s then - int (c div 10 ^ nat (- e)) else int ((c + 10 ^ nat (- e) - 1) div 10 ^ nat (- e)))"
| "dec_ceil _ = None"

definition int_dec :: "int \<Rightarrow> decimal" where
  "int_dec i = Fin (i < 0) (nat \<bar>i\<bar>) 0"

section \<open>The legacy controller\<close>

definition DIFFICULTY_WINDOW :: nat where "DIFFICULTY_WINDOW = 1440"
definition FORK_AHEAD :: nat where "FORK_AHEAD = 5"
definition MIN_DIFFICULTY :: int where "MIN_DIFFICULTY = 50"

definition coinbase_ts :: "bool \<Rightarrow> addr_ext \<Rightarrow> block_store \<Rightarrow> nat \<Rightarrow> tval option option" where
  "coinbase_ts li X s height = map_option (map_option t_time) (coinbase li X s height)"

definition retarget ::
  "math_ext \<Rightarrow> decimal \<Rightarrow> decimal \<Rightarrow> decimal \<Rightarrow> decimal \<Rightarrow> decimal \<Rightarrow> (decimal \<times> decimal \<times> decimal \<times> decimal) option" where
  "retarget M diff_previous ts_last ts_before_last ts_1441 ts_1440 = do {
     bp \<leftarrow> dsub ts_before_last ts_1441;
     block_time_prev \<leftarrow> ddiv bp (int_dec (int DIFFICULTY_WINDOW));
     bt \<leftarrow> dsub ts_last ts_1440;
     block_time \<leftarrow> ddiv bt (int_dec (int DIFFICULTY_WINDOW));
     half \<leftarrow> ddiv diff_previous (int_dec 2);
     work \<leftarrow> dec_pow2 M half;
     sixteenth \<leftarrow> ddiv diff_previous (int_dec 16);
     rest \<leftarrow> dsub (int_dec 28) sixteenth;
     k \<leftarrow> dec_ceil rest;
     span \<leftarrow> dmul block_time (int_dec k);
     hashrate \<leftarrow> ddiv work span;
     p1 \<leftarrow> dmul hashrate (int_dec 60);
     p2 \<leftarrow> dmul p1 (int_dec k);
     f \<leftarrow> dec_float p2;
     lg \<leftarrow> math_log M f;
     lg2 \<leftarrow> math_log M (Fl False 2);
     factor \<leftarrow> fl_div (Fl False 2) lg2;
     drift \<leftarrow> dsub block_time block_time_prev;
     kick \<leftarrow> dmul (int_dec 10) drift;
     difficulty_new \<leftarrow> dsub (fl_dec (fl_mul factor lg)) kick;
     gap \<leftarrow> dsub difficulty_new diff_previous;
     adj \<leftarrow> ddiv gap (int_dec 720);
     over \<leftarrow> dless (int_dec 1) adj;
     let adjustment = (if over then int_dec 1 else adj);
     r \<leftarrow> dadd diff_previous adjustment;
     q \<leftarrow> quantize_ten (PDec r);
     Some (q, hashrate, adjustment, block_time) }"

definition ts_dec :: "tval option \<Rightarrow> decimal option" where
  "ts_dec t = Option.bind t wire_dec"

definition window_timestamps ::
  "bool \<Rightarrow> addr_ext \<Rightarrow> block_store \<Rightarrow> nat \<Rightarrow> (decimal \<times> decimal \<times> decimal \<times> decimal) option" where
  "window_timestamps li X s height = do {
     let first = (case store_first s of Some f \<Rightarrow> if f = 0 then 1 else f | None \<Rightarrow> 1);
     tl \<leftarrow> coinbase_ts li X s height;
     ts_last \<leftarrow> ts_dec tl;
     prev \<leftarrow> (if first + 1 \<le> height then coinbase_ts li X s (height - 1) else Some None);
     ts_before_last \<leftarrow> (case prev of None \<Rightarrow> Some ts_last | Some t \<Rightarrow> wire_dec t);
     let lo = max first (height - DIFFICULTY_WINDOW);
     t1441 \<leftarrow> coinbase_ts li X s lo;
     t1440 \<leftarrow> (if lo + 1 \<le> height then coinbase_ts li X s (lo + 1) else Some None);
     ts_1441 \<leftarrow> ts_dec t1441;
     ts_1440 \<leftarrow> (case t1440 of None \<Rightarrow> Some ts_1441 | Some t \<Rightarrow> wire_dec t);
     Some (ts_last, ts_before_last, ts_1441, ts_1440) }"

section \<open>The moving average\<close>

text \<open>Arithmetic on finite decimals under a precision of p digits.\<close>

definition dfixp :: "nat \<Rightarrow> bool \<Rightarrow> nat \<Rightarrow> int \<Rightarrow> decimal" where
  "dfixp p s c e =
     (if ndigits c \<le> p then Fin s c e
      else let k = ndigits c - p; c' = rhe c (10 ^ k) in
           if c' = 10 ^ p then Fin s (10 ^ (p - 1)) (e + int k + 1) else Fin s c' (e + int k))"

fun daddp :: "nat \<Rightarrow> decimal \<Rightarrow> decimal \<Rightarrow> decimal option" where
  "daddp p (Fin s c e) (Fin t d f) =
     (let q = min e f;
          v = dsigned s (c * 10 ^ nat (e - q)) + dsigned t (d * 10 ^ nat (f - q))
      in Some (dfixp p (v < 0 \<or> v = 0 \<and> s \<and> t) (nat \<bar>v\<bar>) q))"
| "daddp p _ _ = None"

fun dmulp :: "nat \<Rightarrow> decimal \<Rightarrow> decimal \<Rightarrow> decimal option" where
  "dmulp p (Fin s c e) (Fin t d f) = Some (dfixp p (s \<noteq> t) (c * d) (e + f))"
| "dmulp p _ _ = None"

fun ddivp :: "nat \<Rightarrow> decimal \<Rightarrow> decimal \<Rightarrow> decimal option" where
  "ddivp p (Fin s c e) (Fin t d f) =
     (if d = 0 then None
      else if c = 0 then Some (dfixp p (s \<noteq> t) 0 (e - f))
      else let shift = int (ndigits d) - int (ndigits c) + int p + 1;
               ex = e - f - shift;
               n = (if 0 \<le> shift then c * 10 ^ nat shift else c);
               m = (if 0 \<le> shift then d else d * 10 ^ nat (- shift));
               q = n div m
           in if n mod m \<noteq> 0 then Some (dfixp p (s \<noteq> t) (if q mod 5 = 0 then q + 1 else q) ex)
              else let (q', j) = strip_zeros (nat shift) q in Some (dfixp p (s \<noteq> t) q' (ex + int j)))"
| "ddivp p _ _ = None"

definition LWMA_WINDOW :: nat where "LWMA_WINDOW = 60"
definition LWMA_PRECISION :: nat where "LWMA_PRECISION = 50"

text \<open>\<^verbatim>\<open>Decimal(str(t))\<close> of a float.\<close>

fun repr_fl :: "pyfloat \<Rightarrow> decimal" where
  "repr_fl (Fl s m) = repr_dec s m"
| "repr_fl (FInf s) = Inf s"
| "repr_fl FNaN = QNaN"

definition clamp_solvetime :: "decimal \<Rightarrow> decimal \<Rightarrow> decimal option" where
  "clamp_solvetime clamp_hi td = do {
     low \<leftarrow> dless td (Fin False 1 0);
     high \<leftarrow> (if low then Some False else dless clamp_hi td);
     Some (if low then Fin False 1 0 else if high then clamp_hi else td) }"

definition lwma_sum :: "decimal \<Rightarrow> pyfloat list \<Rightarrow> (decimal \<times> decimal) option" where
  "lwma_sum clamp_hi st = foldM_opt
     (\<lambda>(i, t) (num, den). do {
        td \<leftarrow> clamp_solvetime clamp_hi (repr_fl t);
        x \<leftarrow> dmulp LWMA_PRECISION td (Fin False i 0);
        n \<leftarrow> daddp LWMA_PRECISION num x;
        d \<leftarrow> daddp LWMA_PRECISION den (Fin False i 0);
        Some (n, d) }) (enumerate 1 st) (Fin False 0 0, Fin False 0 0)"

definition clamp_step :: "decimal \<Rightarrow> decimal option" where
  "clamp_step adjustment = do {
     up \<leftarrow> dless (Fin False 10 (- 1)) adjustment;
     down \<leftarrow> (if up then Some False else dless adjustment (Fin True 10 (- 1)));
     Some (if up then Fin False 10 (- 1) else if down then Fin True 10 (- 1) else adjustment) }"

definition lwma_next_difficulty :: "math_ext \<Rightarrow> pyfloat list \<Rightarrow> decimal \<Rightarrow> pyfloat \<Rightarrow> decimal option" where
  "lwma_next_difficulty M solvetimes prev_diff target =
     (let st = drop (length solvetimes - LWMA_WINDOW) solvetimes in
      if st = [] then Some prev_diff
      else do {
        let target_d = repr_fl target;
        clamp_hi \<leftarrow> dmulp LWMA_PRECISION (Fin False 6 0) target_d;
        (num, den) \<leftarrow> lwma_sum clamp_hi st;
        avg \<leftarrow> ddivp LWMA_PRECISION num den;
        ratio \<leftarrow> ddivp LWMA_PRECISION target_d avg;
        l \<leftarrow> dec_ln M ratio;
        l2 \<leftarrow> dec_ln M (Fin False 2 0);
        x \<leftarrow> ddivp LWMA_PRECISION l l2;
        adj \<leftarrow> dmulp LWMA_PRECISION (Fin False 2 0) x;
        adjustment \<leftarrow> clamp_step adj;
        result \<leftarrow> daddp LWMA_PRECISION prev_diff adjustment;
        above \<leftarrow> dless (Fin False 50 0) result;
        Some (if above then result else Fin False 50 0) })"

fun typed_float :: "tval \<Rightarrow> pyfloat option" where
  "typed_float (TInt i) = int_float i"
| "typed_float (TFloat f) = Some f"
| "typed_float (TStr s) = float_str s"

definition solve_ts :: "bool \<Rightarrow> addr_ext \<Rightarrow> block_store \<Rightarrow> nat list \<Rightarrow> pyfloat list option" where
  "solve_ts li X s hs = do {
     ts \<leftarrow> mapM_opt (\<lambda>h. do { t \<leftarrow> coinbase_ts li X s h; case t of None \<Rightarrow> Some None | Some v \<Rightarrow> map_option Some (typed_float v) }) hs;
     Some (map the (filter (\<lambda>t. t \<noteq> None) ts)) }"

definition recent_solvetimes :: "bool \<Rightarrow> addr_ext \<Rightarrow> block_store \<Rightarrow> nat \<Rightarrow> nat \<Rightarrow> pyfloat list option" where
  "recent_solvetimes li X s height window = do {
     let first = (case store_first s of Some f \<Rightarrow> if f = 0 then 1 else f | None \<Rightarrow> 1);
     ts \<leftarrow> solve_ts li X s [max first (height - window)..<height + 1];
     Some (map (\<lambda>(a, b). fl_sub b a) (zip ts (tl ts))) }"

section \<open>The required difficulty\<close>

text \<open>\<^verbatim>\<open>float('%.10f' % d)\<close>\<close>

definition recorded :: "decimal \<Rightarrow> pyfloat option" where
  "recorded d = do { t \<leftarrow> fmt_dec 10 d; float_str t }"

definition diff_floor :: "decimal \<Rightarrow> decimal option" where
  "diff_floor d = do { low \<leftarrow> dless d (int_dec MIN_DIFFICULTY); Some (if low then int_dec MIN_DIFFICULTY else d) }"

record dres =
  df_required :: tval
  df_dropped :: tval

text \<open>What of the eight results consensus uses: the required difficulty and the one announced after the drop.\<close>

definition legacy_or_lwma ::
  "bool \<Rightarrow> addr_ext \<Rightarrow> math_ext \<Rightarrow> dnode \<Rightarrow> block_store \<Rightarrow> nat \<Rightarrow> decimal \<Rightarrow> decimal \<times> decimal \<times> decimal \<times> decimal \<Rightarrow> decimal option" where
  "legacy_or_lwma li X M node s height prev ts = (case ts of (ts_last, ts_before_last, ts_1441, ts_1440) \<Rightarrow> do {
     (d, _, _, _) \<leftarrow> retarget M prev ts_last ts_before_last ts_1441 ts_1440;
     if at_fork (height + 1) (dn_fork_height node) then do {
       st \<leftarrow> recent_solvetimes li X s height LWMA_WINDOW;
       if st = [] then Some d
       else do { r \<leftarrow> lwma_next_difficulty M st prev (Fl False 60); quantize_ten (PDec r) } }
     else Some d })"


text \<open>The difficulty announced to miners once the tip is more than three minutes old.\<close>

definition announced ::
  "pyfloat \<Rightarrow> decimal \<Rightarrow> decimal \<Rightarrow> decimal option" where
  "announced now ts_last d = do {
     let t = fl_dec now;
     l1 \<leftarrow> dadd ts_last (int_dec 180);
     l2 \<leftarrow> dadd ts_last (int_dec 360);
     emergency \<leftarrow> dless l2 t;
     late \<leftarrow> dless l1 t;
     if emergency \<or> late then do {
       qn \<leftarrow> quantize_two (tval_py (TFloat now));
       ql \<leftarrow> quantize_two (PDec ts_last);
       td \<leftarrow> dsub qn ql;
       qd \<leftarrow> quantize_ten (PDec d);
       one \<leftarrow> quantize_ten (PInt 1);
       if emergency then do {
         over \<leftarrow> dsub td (int_dec 360);
         over10 \<leftarrow> dmul (int_dec 10) over;
         x \<leftarrow> ddiv over10 (int_dec 180);
         qx \<leftarrow> quantize_ten (PDec x);
         a \<leftarrow> dsub qd one;
         dsub a qx }
       else do {
         x \<leftarrow> ddiv td (int_dec 180);
         qx \<leftarrow> quantize_ten (PDec x);
         a \<leftarrow> dadd qd one;
         dsub a qx } }
     else Some d }"

text \<open>On an exception a chain shorter than the window falls back to 24, a longer one raises.\<close>

definition difficulty_fallback :: "dnode \<Rightarrow> dres option" where
  "difficulty_fallback node =
     (if dn_last_block node < DIFFICULTY_WINDOW then Some \<lparr>df_required = TInt 24, df_dropped = TInt 24\<rparr> else None)"

definition difficulty ::
  "bool \<Rightarrow> addr_ext \<Rightarrow> math_ext \<Rightarrow> pyfloat \<Rightarrow> dnode \<Rightarrow> block_store \<Rightarrow> dnode \<times> dres option" where
  "difficulty li X M now node s =
     (case do { height \<leftarrow> store_tip s; ts \<leftarrow> window_timestamps li X s height; Some (height, ts) } of
        None \<Rightarrow> (node, difficulty_fallback node)
      | Some (height, ts) \<Rightarrow>
          let node1 = node\<lparr>dn_last_ts := fst ts\<rparr> in
          case do { (_, text) \<leftarrow> last_difficulty s; dec_parse text } of
            None \<Rightarrow> (node1, difficulty_fallback node1)
          | Some prev \<Rightarrow>
              if dn_regnet node1 then
                (node1, case (recorded (int_dec REGNET_DIFF), recorded (int_dec (REGNET_DIFF - 8))) of
                   (Some r, Some a) \<Rightarrow> Some \<lparr>df_required = TFloat r, df_dropped = TFloat a\<rparr>
                 | _ \<Rightarrow> difficulty_fallback node1)
              else (case legacy_or_lwma li X M node1 s height prev ts of
                  None \<Rightarrow> (node1, difficulty_fallback node1)
                | Some d \<Rightarrow>
                    let node2 = (if dn_mainnet node1 \<and> height + FORK_AHEAD = POW_FORK
                                 then node1\<lparr>dn_version_allow := limit_version (dn_version_allow node1)\<rparr> else node1) in
                    (node2, case do { a \<leftarrow> announced now (fst ts) d; fd \<leftarrow> diff_floor d; fa \<leftarrow> diff_floor a;
                                      r \<leftarrow> recorded fd; a' \<leftarrow> recorded fa;
                                      Some \<lparr>df_required = TFloat r, df_dropped = TFloat a'\<rparr> } of
                        None \<Rightarrow> difficulty_fallback node2 | Some x \<Rightarrow> Some x)))"

end
