(* ===== verification/Coins.thy ===== *)
theory Coins
  imports Amounts
begin

text \<open>
  Exact coin arithmetic: a decimal with at most eight decimals is a whole number of atomic units, and sums,
  differences, comparisons and rounding of such decimals are those of the units as long as the units have at
  most 28 digits.
\<close>

definition coins :: "decimal \<Rightarrow> int \<Rightarrow> bool" where
  "coins d u \<longleftrightarrow> (\<exists>s c e. d = Fin s c e \<and> - 8 \<le> e \<and> e \<le> 0 \<and> u = dsigned s (c * 10 ^ nat (e + 8)))"

lemma dsigned_mult: "dsigned s (c * k) = dsigned s c * int k"
  by (simp add: dsigned_def)

lemma dsigned_abs: "\<bar>dsigned s c\<bar> = int c"
  by (simp add: dsigned_def)

lemma dfix_small: "c < 10 ^ 28 \<Longrightarrow> dfix s c e = Fin s c e"
  using ndigits_le_iff [of prec c] by (simp add: dfix_def prec_def)

lemma nat_abs_small: "\<bar>v\<bar> < 10 ^ 28 \<Longrightarrow> nat \<bar>v\<bar> < 10 ^ 28"
  by (simp add: nat_less_iff)

lemma coins_add:
  assumes "coins a i" and "coins b j" and "\<bar>i + j\<bar> < 10 ^ 28"
  shows "\<exists>d. dadd a b = Some d \<and> coins d (i + j)"
proof -
  obtain s c e where a: "a = Fin s c e" "- 8 \<le> e" "e \<le> 0" and i: "i = dsigned s (c * 10 ^ nat (e + 8))"
    using assms(1) by (auto simp: coins_def)
  obtain t d f where b: "b = Fin t d f" "- 8 \<le> f" "f \<le> 0" and j: "j = dsigned t (d * 10 ^ nat (f + 8))"
    using assms(2) by (auto simp: coins_def)
  define q where "q = min e f"
  define v where "v = dsigned s (c * 10 ^ nat (e - q)) + dsigned t (d * 10 ^ nat (f - q))"
  have q: "- 8 \<le> q" "q \<le> 0" "q \<le> e" "q \<le> f" using a b by (auto simp: q_def)
  have pow: "(10 :: nat) ^ nat (x + 8) = 10 ^ nat (x - q) * 10 ^ nat (q + 8)" if "q \<le> x" for x
    using that q by (simp flip: power_add nat_add_distrib)
  have sum: "i + j = v * int (10 ^ nat (q + 8))"
    unfolding i j v_def pow [OF q(3)] pow [OF q(4)] dsigned_mult mult.assoc [symmetric] by (simp only: distrib_right)
  have "\<bar>v\<bar> * 1 \<le> \<bar>v\<bar> * int (10 ^ nat (q + 8))" by (rule mult_left_mono) simp_all
  moreover have "\<bar>v\<bar> * int (10 ^ nat (q + 8)) = \<bar>i + j\<bar>" by (simp only: sum abs_mult abs_of_nat)
  ultimately have v: "nat \<bar>v\<bar> < 10 ^ 28" using assms(3) by (intro nat_abs_small) linarith
  have "dadd a b = Some (Fin (v < 0 \<or> v = 0 \<and> s \<and> t) (nat \<bar>v\<bar>) q)"
    unfolding a(1) b(1) dadd.simps Let_def q_def [symmetric] v_def [symmetric] dfix_small [OF v] ..
  moreover have sg: "dsigned (v < 0 \<or> v = 0 \<and> s \<and> t) (nat \<bar>v\<bar>) = v" by (auto simp: dsigned_def)
  have "coins (Fin (v < 0 \<or> v = 0 \<and> s \<and> t) (nat \<bar>v\<bar>) q) (i + j)"
    unfolding coins_def by (intro exI conjI, rule refl, rule q(1), rule q(2)) (simp only: sum dsigned_mult sg)
  ultimately show ?thesis by blast
qed

lemma coins_neg: "coins d u \<Longrightarrow> coins (dneg d) (- u)"
  unfolding coins_def by (fastforce simp: dsigned_def)

lemma coins_sub:
  assumes "coins a i" and "coins b j" and "\<bar>i - j\<bar> < 10 ^ 28"
  shows "\<exists>d. dsub a b = Some d \<and> coins d (i - j)"
  using coins_add [OF assms(1) coins_neg [OF assms(2)]] assms(3) by (simp add: dsub_def)

lemma coins_less:
  assumes "coins a i" and "coins b j"
  shows "dless a b = Some (i < j)"
proof -
  obtain s c e where a: "a = Fin s c e" "- 8 \<le> e" and i: "i = dsigned s (c * 10 ^ nat (e + 8))"
    using assms(1) by (auto simp: coins_def)
  obtain t d f where b: "b = Fin t d f" "- 8 \<le> f" and j: "j = dsigned t (d * 10 ^ nat (f + 8))"
    using assms(2) by (auto simp: coins_def)
  define q where "q = min e f"
  have q: "- 8 \<le> q" "q \<le> e" "q \<le> f" using a b by (auto simp: q_def)
  have pow: "(10 :: nat) ^ nat (x + 8) = 10 ^ nat (x - q) * 10 ^ nat (q + 8)" if "q \<le> x" for x
    using that q by (simp flip: power_add nat_add_distrib)
  have "i = dsigned s (c * 10 ^ nat (e - q)) * int (10 ^ nat (q + 8))"
      "j = dsigned t (d * 10 ^ nat (f - q)) * int (10 ^ nat (q + 8))"
    unfolding i j pow [OF q(2)] pow [OF q(3)] mult.assoc [symmetric] by (simp_all only: dsigned_mult)
  then show ?thesis by (simp add: a(1) b(1) q_def [symmetric] Let_def mult_less_cancel_right_pos)
qed

text \<open>Rounding to eight decimals is exact; the result has exponent -8.\<close>

lemma coins_quantize:
  assumes "coins d u" and "\<bar>u\<bar> < 10 ^ 28"
  shows "\<exists>s. dquantize d (- 8) = Some (Fin s (nat \<bar>u\<bar>) (- 8)) \<and> dsigned s (nat \<bar>u\<bar>) = u"
proof -
  obtain s c e where d: "d = Fin s c e" "- 8 \<le> e" and u: "u = dsigned s (c * 10 ^ nat (e + 8))"
    using assms(1) by (auto simp: coins_def)
  have r: "rescale c e (- 8) = nat \<bar>u\<bar>" using d by (simp add: rescale_def u dsigned_abs nat_mult_distrib nat_power_eq)
  have "nat \<bar>u\<bar> < 10 ^ prec" using nat_abs_small [OF assms(2)] by (simp add: prec_def)
  then have "dquantize d (- 8) = Some (Fin s (nat \<bar>u\<bar>) (- 8))"
    unfolding d(1) dquantize_Fin_iff r by (simp only: simp_thms)
  moreover have "dsigned s (nat \<bar>u\<bar>) = u" using u by (simp add: dsigned_def)
  ultimately show ?thesis by blast
qed

lemma coins_Fin8: "dsigned s c = u \<Longrightarrow> coins (Fin s c (- 8)) u"
  unfolding coins_def by (intro exI [of _ s] exI [of _ c] exI [of _ "- 8"]) simp

lemma coins_int: "coins (Fin (i < 0) (nat \<bar>i\<bar>) 0) (i * 10 ^ 8)"
  unfolding coins_def by (intro exI [of _ "i < 0"] exI [of _ "nat \<bar>i\<bar>"] exI [of _ 0]) (simp add: dsigned_def)

lemma coins_quantize_eight:
  assumes "coins d u" and "\<bar>u\<bar> < 10 ^ 28"
  shows "\<exists>s. quantize_eight (PDec d) = Some (Fin s (nat \<bar>u\<bar>) (- 8)) \<and> dsigned s (nat \<bar>u\<bar>) = u"
proof (cases "u = 0")
  case True
  then have "falsy (PDec d)" using assms(1) by (auto simp: coins_def dsigned_def split: if_splits)
  then show ?thesis using True by (auto simp: quantize_eight_def quantize_dp_def dsigned_def)
next
  case False
  then have "\<not> falsy (PDec d)" using assms(1) by (auto simp: coins_def dsigned_def split: if_splits)
  then show ?thesis using coins_quantize [OF assms] by (simp add: quantize_eight_def quantize_dp_def)
qed

section \<open>Division by powers of ten\<close>

lemma strip_zeros_spec:
  "strip_zeros k (c * 10 ^ n) = (c', j) \<Longrightarrow> n \<le> k \<Longrightarrow> 0 < c \<Longrightarrow>
    n \<le> j \<and> j \<le> k \<and> c * 10 ^ n = c' * 10 ^ j"
proof (induction k arbitrary: c n c' j)
  case (Suc k)
  show ?case
  proof (cases n)
    case 0
    show ?thesis
    proof (cases "c mod 10 = 0")
      case True
      then obtain x where x: "c = x * 10" by (metis mod_0_imp_dvd dvd_def mult.commute)
      obtain j' where j': "strip_zeros k x = (c', j')" "j = Suc j'"
        using Suc.prems(1) x 0 by (auto split: prod.splits)
      have "0 \<le> j' \<and> j' \<le> k \<and> x * 10 ^ 0 = c' * 10 ^ j'" by (rule Suc.IH) (use j' Suc.prems x in auto)
      then show ?thesis using x j' 0 by simp
    qed (use Suc.prems 0 in auto)
  next
    case (Suc m)
    have "strip_zeros (Suc k) (c * 10 ^ n) = (let (c', j) = strip_zeros k (c * 10 ^ m) in (c', Suc j))"
      by (simp add: Suc mult.assoc [symmetric])
    then obtain j' where j': "strip_zeros k (c * 10 ^ m) = (c', j')" "j = Suc j'"
      using Suc.prems(1) by (auto split: prod.splits)
    then show ?thesis using Suc.IH [OF j'(1)] Suc.prems Suc by simp
  qed
qed auto

lemma coins_div_power:
  assumes "n \<le> 8" and "c < 10 ^ 28"
  shows "\<exists>d. ddiv (Fin s c 0) (Fin False (10 ^ n) 0) = Some d \<and> coins d (dsigned s (c * 10 ^ (8 - n)))"
proof (cases "c = 0")
  case True
  have "coins (Fin s 0 0) 0" unfolding coins_def by (intro exI [of _ s] exI [of _ 0] exI [of _ 0]) (simp add: dsigned_def)
  then show ?thesis using True by (auto simp: ddiv_fin_def dfix_small dsigned_def)
next
  case False
  have nd: "ndigits (10 ^ n) = Suc n" using ndigits_mult_power [of 1 n] by (simp add: ndigits_def nat_str.simps)
  have ndc: "ndigits c \<le> 28" using assms(2) ndigits_le_iff [of 28 c] by simp
  define shift where "shift = n + 30 - ndigits c"
  have sh: "int (ndigits (10 ^ n)) - int (ndigits c) + int prec + 1 = int shift" and le: "n \<le> shift"
    using ndc by (simp_all add: nd shift_def prec_def)
  obtain q' j where sz: "strip_zeros shift (c * 10 ^ (shift - n)) = (q', j)" by (cases "strip_zeros shift (c * 10 ^ (shift - n))")
  have S: "shift - n \<le> j" "j \<le> shift" "c * 10 ^ (shift - n) = q' * 10 ^ j"
    using strip_zeros_spec [OF sz] False by auto
  have pw: "(10 :: nat) ^ shift = 10 ^ (shift - n) * 10 ^ n" using le by (simp flip: power_add)
  have div: "c * 10 ^ shift div 10 ^ n = c * 10 ^ (shift - n)" "c * 10 ^ shift mod 10 ^ n = 0"
    unfolding pw mult.assoc [symmetric] by simp_all
  have "c * 10 ^ (shift - n) = q' * 10 ^ (j - (shift - n)) * 10 ^ (shift - n)"
    using S by (simp add: mult.assoc flip: power_add)
  then have c: "c = q' * 10 ^ (j - (shift - n))" by simp
  then have "q' \<le> c" by simp
  then have "q' < 10 ^ 28" using assms(2) by linarith
  then have "ddiv (Fin s c 0) (Fin False (10 ^ n) 0) = Some (Fin s q' (int j - int shift))"
    using False sz div by (simp add: ddiv_fin_def sh Let_def dfix_small)
  moreover have "c * 10 ^ (8 - n) = q' * 10 ^ nat (int j - int shift + 8)"
  proof -
    have "j - (shift - n) + (8 - n) = nat (int j - int shift + 8)" using S(1,2) le assms(1) by linarith
    then show ?thesis by (simp add: c mult.assoc flip: power_add)
  qed
  then have "coins (Fin s q' (int j - int shift)) (dsigned s (c * 10 ^ (8 - n)))"
    using S assms(1) le unfolding coins_def by (intro exI conjI refl) auto
  ultimately show ?thesis by blast
qed

text \<open>\<^verbatim>\<open>to_decimal\<close> is exact.\<close>

lemma to_decimal_coins:
  assumes "\<bar>u\<bar> < 10 ^ 28"
  shows "\<exists>d. to_decimal u = Some d \<and> coins d u"
proof -
  have "coins d (dsigned (u < 0) (nat \<bar>u\<bar>)) = coins d u" for d by (auto simp: dsigned_def)
  then obtain d where d: "ddiv (Fin (u < 0) (nat \<bar>u\<bar>) 0) (Fin False (10 ^ 8) 0) = Some d" "coins d u"
    using coins_div_power [of 8 "nat \<bar>u\<bar>" "u < 0"] nat_abs_small [OF assms] by auto
  then show ?thesis
    using coins_quantize_eight [OF d(2) assms]
    by (auto simp: to_decimal_def SATOSHIS_PER_BIS_def intro: coins_Fin8)
qed

end
