(* ===== verification/Fees.thy ===== *)
theory Fees
  imports Coins Floats
begin

text \<open>
  Transaction fees: the demand-driven base fee of \<^verbatim>\<open>fee_dynamics.py\<close> and \<^verbatim>\<open>essentials.fee_calculate\<close>, with
  the bounds of the first and the exact value of the second.
\<close>

section \<open>fee\_dynamics.py\<close>

definition FEE_WINDOW :: nat where "FEE_WINDOW = 20"
definition W_UNIT :: nat where "W_UNIT = 1000"
definition TARGET_WEIGHT :: nat where "TARGET_WEIGHT = 30"
definition MIN_MULT :: decimal where "MIN_MULT = Fin False 5 (- 1)"
definition MAX_MULT :: decimal where "MAX_MULT = Fin False 10 0"

definition base_fee :: "decimal \<Rightarrow> nat option list \<Rightarrow> nat \<Rightarrow> decimal option" where
  "base_fee static_base_fee recent_loads target =
     (let loads = map the (filter (\<lambda>c. c \<noteq> None) recent_loads) in
      if loads = [] then quantize_eight (PDec static_base_fee)
      else do {
        avg \<leftarrow> ddiv (Fin False (sum_list loads) 0) (Fin False (length loads) 0);
        factor \<leftarrow> ddiv avg (Fin False target 0);
        low \<leftarrow> dless factor MIN_MULT;
        high \<leftarrow> (if low then Some False else dless MAX_MULT factor);
        fee \<leftarrow> dmul static_base_fee (if low then MIN_MULT else if high then MAX_MULT else factor);
        quantize_eight (PDec fee) })"

section \<open>essentials.fee\_calculate\<close>

definition BASE_FEE :: decimal where "BASE_FEE = Fin False 1 (- 2)"

definition fee_calculate :: "pystr \<Rightarrow> pystr \<Rightarrow> decimal option \<Rightarrow> decimal option" where
  "fee_calculate openfield operation base = do {
     size \<leftarrow> ddiv (Fin False (length openfield) 0) (Fin False 100000 0);
     fee \<leftarrow> dadd (case base of None \<Rightarrow> BASE_FEE | Some b \<Rightarrow> b) size;
     fee' \<leftarrow> (if operation = lit ''token:issue'' then dadd fee (Fin False 10 0)
              else if prefix (lit ''alias='') openfield then dadd fee (Fin False 1 0)
              else Some fee);
     quantize_eight (PDec fee') }"

section \<open>The base fee is bounded\<close>

lemma rhe_ge: "0 < d \<Longrightarrow> k * d \<le> c \<Longrightarrow> k \<le> rhe c d"
  using div_le_mono [of "k * d" c d] by (auto simp: rhe_def Let_def)

lemma rhe_le: "0 < d \<Longrightarrow> c \<le> k * d \<Longrightarrow> rhe c d \<le> k"
proof -
  assume d: "0 < d" and c: "c \<le> k * d"
  show "rhe c d \<le> k"
  proof (cases "c mod d = 0")
    case True
    then show ?thesis using div_le_mono [OF c, of d] d by (simp add: rhe_def Let_def)
  next
    case False
    have "c \<noteq> k * d" using False d by auto
    then have "c div d < k" using c d by (metis div_less_iff_less_mult nat_less_le)
    then show ?thesis by (simp add: rhe_def Let_def)
  qed
qed

lemma dfix_Fin: "\<exists>c' e'. dfix s c e = Fin s c' e' \<and> c' < 10 ^ 28"
proof (cases "c < 10 ^ 28")
  case False
  then have nd: "prec < ndigits c" using ndigits_le_iff [of prec c] by (simp add: prec_def)
  define k where "k = ndigits c - prec"
  have "c < 10 ^ ndigits c" using ndigits_le_iff [of "ndigits c" c] nd by simp
  also have "(10 :: nat) ^ ndigits c = 10 ^ prec * 10 ^ k" using nd by (simp add: k_def flip: power_add)
  finally have "rhe c (10 ^ k) \<le> 10 ^ prec" by (intro rhe_le) auto
  then show ?thesis using nd by (auto simp: dfix_def Let_def k_def prec_def)
qed (simp add: dfix_small)

lemma ddiv_Fin: "0 < d \<Longrightarrow> \<exists>c' e'. ddiv (Fin False c e) (Fin False d f) = Some (Fin False c' e') \<and> c' < 10 ^ 28"
  using dfix_Fin by (auto simp: ddiv_fin_def Let_def split: prod.split)

definition p10 :: "int \<Rightarrow> rat" where
  "p10 e = (if 0 \<le> e then 10 ^ nat e else 1 / 10 ^ nat (- e))"

lemma p10_powi: "p10 e = 10 powi e"
  by (simp add: p10_def power_int_def inverse_eq_divide power_divide)

lemma p10_add: "p10 (a + b) = p10 a * p10 b"
  by (simp add: p10_powi power_int_add)

lemma dless_rat: "dless (Fin False c e) (Fin False d f) = Some (of_nat c * p10 e < of_nat d * p10 f)"
proof -
  define q where "q = min e f"
  have e: "p10 x = 10 ^ nat (x - q) * p10 q" if "q \<le> x" for x
    using p10_add [of "x - q" q] that by (simp add: p10_def [of "x - q"])
  have pos: "0 < p10 q" by (simp add: p10_powi)
  have "of_nat c * p10 e < of_nat d * p10 f \<longleftrightarrow>
      (of_nat (c * 10 ^ nat (e - q)) :: rat) * p10 q < of_nat (d * 10 ^ nat (f - q)) * p10 q"
    by (simp add: e [of e] e [of f] q_def mult.assoc)
  also have "\<dots> \<longleftrightarrow> c * 10 ^ nat (e - q) < d * 10 ^ nat (f - q)"
    unfolding mult_less_cancel_right_pos [OF pos] of_nat_less_iff ..
  finally show ?thesis
    by (simp only: dless.simps Let_def q_def [symmetric] dsigned_def if_False of_nat_less_iff)
qed


lemma rescale_bounds:
  assumes "of_nat lo \<le> of_nat c * p10 (e + 8)" and "of_nat c * p10 (e + 8) \<le> of_nat hi"
  shows "lo \<le> rescale c e (- 8)" and "rescale c e (- 8) \<le> hi"
proof -
  have "lo \<le> rescale c e (- 8) \<and> rescale c e (- 8) \<le> hi"
  proof (cases "- 8 \<le> e")
    case True
    then have "of_nat c * p10 (e + 8) = (of_nat (c * 10 ^ nat (e + 8)) :: rat)" by (simp add: p10_def)
    then show ?thesis using assms True by (simp only: of_nat_le_iff) (simp add: rescale_def)
  next
    case False
    define k where "k = nat (- 8 - e)"
    have p: "p10 (e + 8) = 1 / of_nat (10 ^ k)" using False by (simp add: p10_def k_def algebra_simps)
    have pos: "(0 :: rat) < of_nat (10 ^ k)" by simp
    have "(of_nat (lo * 10 ^ k) :: rat) \<le> of_nat c" "(of_nat c :: rat) \<le> of_nat (hi * 10 ^ k)"
      using assms unfolding p by (simp_all add: field_simps)
    then have "lo * 10 ^ k \<le> c" "c \<le> hi * 10 ^ k" by (simp_all only: of_nat_le_iff)
    then show ?thesis using False by (auto simp: rescale_def k_def [symmetric] intro!: rhe_ge rhe_le)
  qed
  then show "lo \<le> rescale c e (- 8)" "rescale c e (- 8) \<le> hi" by blast+
qed

lemma base_fee_range:
  assumes "0 < target"
  shows "\<exists>u. base_fee BASE_FEE loads target = Some (Fin False u (- 8)) \<and> 500000 \<le> u \<and> u \<le> 10000000 \<and>
    (list_all (\<lambda>c. c = None) loads \<longrightarrow> u = 1000000)"
proof -
  define ls where "ls = map the (filter (\<lambda>c. c \<noteq> None) loads)"
  note bf = base_fee_def [of BASE_FEE loads target, folded ls_def, unfolded Let_def, folded ls_def]
  show ?thesis
  proof (cases "ls = []")
    case True
    moreover have "quantize_eight (PDec BASE_FEE) = Some (Fin False 1000000 (- 8))" by code_simp
    ultimately show ?thesis by (simp add: bf)
  next
    case False
    then obtain a e where avg: "ddiv (Fin False (sum_list ls) 0) (Fin False (length ls) 0) = Some (Fin False a e)"
      using ddiv_Fin [of "length ls"] by blast
    obtain c f where fac: "ddiv (Fin False a e) (Fin False target 0) = Some (Fin False c f)" and c: "c < 10 ^ 28"
      using ddiv_Fin [OF assms] by blast
    obtain m g where m: "(if of_nat c * p10 f < 5 * p10 (- 1) then MIN_MULT else if 10 * p10 0 < of_nat c * p10 f then MAX_MULT
          else Fin False c f) = Fin False m g" "m < 10 ^ 28" "5 * p10 (- 1) \<le> of_nat m * p10 g" "of_nat m * p10 g \<le> 10 * p10 0"
    proof -
      show ?thesis
        using that [of 5 "- 1"] that [of 10 0] that [of c f] c
        by (cases "of_nat c * p10 f < 5 * p10 (- 1)"; cases "10 * p10 0 < of_nat c * p10 f")
           (simp_all add: MIN_MULT_def MAX_MULT_def p10_def)
    qed
    have mul: "dmul BASE_FEE (Fin False m g) = Some (Fin False m (g - 2))"
      using m(2) by (simp add: BASE_FEE_def dfix_small)
    have p: "p10 (g - 2 + 8) = p10 g * 10 ^ 6"
    proof -
      have "g - 2 + 8 = g + 6" by simp
      then show ?thesis by (simp add: p10_powi power_int_add)
    qed
    have lo: "of_nat 500000 \<le> of_nat m * p10 (g - 2 + 8)" and hi: "of_nat m * p10 (g - 2 + 8) \<le> of_nat 10000000"
      using m(3,4) unfolding p by (simp_all add: p10_def)
    note R = rescale_bounds [OF lo hi]
    have "m \<noteq> 0" using m(3) by (intro notI) (simp add: p10_def)
    moreover have "rescale m (g - 2) (- 8) < 10 ^ prec" using R(2) by (simp add: prec_def)
    ultimately have "quantize_eight (PDec (Fin False m (g - 2))) = Some (Fin False (rescale m (g - 2) (- 8)) (- 8))"
      by (simp add: quantize_eight_def quantize_dp_def dquantize_Fin_iff del: dquantize.simps)
    moreover have "base_fee BASE_FEE loads target = quantize_eight (PDec (Fin False m (g - 2)))"
      using False avg fac mul m(1)
      by (cases "of_nat c * p10 f < 5 * p10 (- 1)"; cases "10 * p10 0 < of_nat c * p10 f")
         (simp_all add: bf MIN_MULT_def MAX_MULT_def dless_rat del: dless.simps dmul.simps)
    moreover have "\<not> list_all (\<lambda>c. c = None) loads" using False by (auto simp: ls_def list_all_iff filter_empty_conv)
    ultimately show ?thesis using R by auto
  qed
qed

text \<open>
  C9: the demand-driven base fee is total and bounded: whatever the recent block weights are, it is a fee of a whole
  number of atomic units between half and ten times the static fee of 0.01, and equal to the static fee when
  there is no history.
\<close>

theorem base_fee_bounded:
  assumes "0 < target"
  shows "\<exists>u. base_fee BASE_FEE loads target = Some (Fin False u (- 8)) \<and> 500000 \<le> u \<and> u \<le> 10000000 \<and>
    (list_all (\<lambda>c. c = None) loads \<longrightarrow> u = 1000000)"
  by (rule base_fee_range [OF assms])

theorem base_fee_bounded_witness:
  "\<exists>u. base_fee BASE_FEE [Some 45, None, Some 15, Some 60] 30 = Some (Fin False u (- 8)) \<and> 500000 \<le> u \<and> u \<le> 10000000"
  using base_fee_bounded [of 30 "[Some 45, None, Some 15, Some 60]"] by auto


section \<open>The fee of a transaction\<close>

definition fee_extra :: "pystr \<Rightarrow> pystr \<Rightarrow> nat" where
  "fee_extra openfield operation =
     (if operation = lit ''token:issue'' then 10 ^ 9 else if prefix (lit ''alias='') openfield then 10 ^ 8 else 0)"

lemma BASE_FEE_coins: "coins BASE_FEE 1000000"
  unfolding coins_def BASE_FEE_def by (intro exI [of _ False] exI [of _ 1] exI [of _ "- 2"]) (simp add: dsigned_def)

lemma fee_calculate_units:
  assumes base: "coins (case base of None \<Rightarrow> BASE_FEE | Some d \<Rightarrow> d) (int b)"
    and small: "b + 1000 * length openfield + 10 ^ 9 < 10 ^ 28"
  shows "fee_calculate openfield operation base =
    Some (Fin False (b + 1000 * length openfield + fee_extra openfield operation) (- 8))"
proof -
  let ?l = "length openfield" and ?x = "fee_extra openfield operation"
  define u where "u = b + 1000 * ?l + ?x"
  have "b + 1000 * ?l + ?x \<le> b + 1000 * ?l + 10 ^ 9" by (simp add: fee_extra_def)
  then have "u < 10 ^ 28" using small unfolding u_def by linarith
  then have "int u < int (10 ^ 28)" by (simp only: of_nat_less_iff)
  then have u: "\<bar>int u\<bar> < 10 ^ 28" by simp
  have "?l < 10 ^ 28" using small by simp
  from coins_div_power [of 5 ?l False, OF _ this]
  obtain d where d: "ddiv (Fin False ?l 0) (Fin False 100000 0) = Some d" "coins d (int (1000 * ?l))"
    by (auto simp: dsigned_def mult.commute)
  have "\<bar>int b + int (1000 * ?l)\<bar> < 10 ^ 28" using u by (simp add: u_def)
  from coins_add [OF base d(2) this]
  obtain f where f: "dadd (case base of None \<Rightarrow> BASE_FEE | Some b \<Rightarrow> b) d = Some f" "coins f (int b + int (1000 * ?l))" by blast
  have ten: "coins (Fin False 10 0) (int (10 ^ 9))" "coins (Fin False 1 0) (int (10 ^ 8))"
    using coins_int [of 10] coins_int [of 1] by simp_all
  obtain g where g: "(if operation = lit ''token:issue'' then dadd f (Fin False 10 0)
       else if prefix (lit ''alias='') openfield then dadd f (Fin False 1 0) else Some f) = Some g" "coins g (int u)"
  proof (cases "?x = 0")
    case True
    then show ?thesis using that f(2) by (auto simp: fee_extra_def u_def split: if_splits)
  next
    case False
    then have c: "coins (Fin False (if operation = lit ''token:issue'' then 10 else 1) 0) (int ?x)"
      using ten by (auto simp: fee_extra_def split: if_splits)
    have "int b + int (1000 * ?l) + int ?x = int u" by (simp add: u_def)
    then obtain g where "dadd f (Fin False (if operation = lit ''token:issue'' then 10 else 1) 0) = Some g" "coins g (int u)"
      using coins_add [OF f(2) c] u by auto
    then show ?thesis using that False by (auto simp: fee_extra_def split: if_splits)
  qed
  obtain s where s: "quantize_eight (PDec g) = Some (Fin s u (- 8))" "dsigned s u = int u"
    using coins_quantize_eight [OF g(2) u] by auto
  have "quantize_eight (PDec g) = Some (Fin False u (- 8))"
  proof (cases "u = 0")
    case True
    then have "falsy (PDec g)" using g(2) by (auto simp: coins_def dsigned_def split: if_splits)
    then show ?thesis using True by (simp add: quantize_eight_def quantize_dp_def)
  next
    case False
    then show ?thesis using s by (cases s) (auto simp: dsigned_def)
  qed
  then show ?thesis using d(1) f(1) g(1) by (simp add: fee_calculate_def u_def)
qed

end
