(* ===== verification/Mempool.thy ===== *)
theory Mempool
  imports Difficulty Fees Peers
begin

text \<open>
  The pending transactions, \<^verbatim>\<open>mempool.py\<close>: the pool as an insertion-ordered dictionary keyed by signature, its
  reads and maintenance, and \<^verbatim>\<open>Mempool.merge\<close> with every admission check in order.  Each message the
  merge reports is a constructor.
\<close>

section \<open>Coinbase maturity\<close>

definition COINBASE_MATURITY :: nat where "COINBASE_MATURITY = 100"
definition COINBASE_MATURITY_REGNET :: nat where "COINBASE_MATURITY_REGNET = 2"

definition coinbase_maturity :: "bool \<Rightarrow> nat" where
  "coinbase_maturity regnet = (if regnet then COINBASE_MATURITY_REGNET else COINBASE_MATURITY)"

definition immature_coinbase :: "bool \<Rightarrow> addr_ext \<Rightarrow> pystr \<Rightarrow> nat \<Rightarrow> block_store \<Rightarrow> nat \<Rightarrow> decimal option" where
  "immature_coinbase li X address validate_height s maturity = do {
     u \<leftarrow> reward_units_since li X s address (int validate_height - int maturity);
     to_decimal u }"

section \<open>The pool\<close>

definition REFUSE_OLDER_THAN :: rat where "REFUSE_OLDER_THAN = 7200"
definition FREEZE_MIN :: rat where "FREEZE_MIN = 5"

text \<open>A pooled transaction: the eight wire fields and the time of the merge.\<close>

record pooled = tx8 +
  q_merged :: int

text \<open>The fields the digester mirrors into the pool stand beside the transactions.\<close>

record mempool =
  mp_txs :: "(pystr, pooled) dict"
  mp_sent :: "(pystr, pyfloat) dict"
  mp_fork_height :: "nat option"
  mp_registry :: "pk_registry option"
  mp_base_fee :: "decimal option"
  mp_fee_post_fork :: bool

definition empty_mempool :: mempool where
  "empty_mempool = \<lparr>mp_txs = [], mp_sent = [], mp_fork_height = None, mp_registry = None, mp_base_fee = None,
     mp_fee_post_fork = False\<rparr>"

text \<open>The attributes of the node, which come before the mirror when the pool has a node.\<close>

record mp_node =
  nv_fork_height :: "nat option"
  nv_registry :: "pk_registry option"
  nv_base_fee :: "decimal option"

definition hf_fork_height :: "mp_node option \<Rightarrow> mempool \<Rightarrow> nat option" where
  "hf_fork_height node m = (case node of Some v \<Rightarrow> nv_fork_height v | None \<Rightarrow> mp_fork_height m)"

definition hf_registry :: "mp_node option \<Rightarrow> mempool \<Rightarrow> pk_registry option" where
  "hf_registry node m = (case node of Some v \<Rightarrow> nv_registry v | None \<Rightarrow> mp_registry m)"

definition hf_base_fee :: "mp_node option \<Rightarrow> mempool \<Rightarrow> decimal option" where
  "hf_base_fee node m = (case node of Some v \<Rightarrow> nv_base_fee v | None \<Rightarrow> mp_base_fee m)"

section \<open>Reads\<close>

definition rows_of :: "mempool \<Rightarrow> pooled list" where
  "rows_of m = map snd (mp_txs m)"

text \<open>\<^verbatim>\<open>float(r)\<close> of a pooled text, and comparisons where a text that is no number raises.\<close>

definition newer_than :: "pyfloat \<Rightarrow> pooled \<Rightarrow> bool option" where
  "newer_than cutoff r = map_option (float_less cutoff) (float_str (t_ts r))"

fun filter_opt :: "('a \<Rightarrow> bool option) \<Rightarrow> 'a list \<Rightarrow> 'a list option" where
  "filter_opt P [] = Some []"
| "filter_opt P (x # xs) = do { b \<leftarrow> P x; ys \<leftarrow> filter_opt P xs; Some (if b then x # ys else ys) }"

text \<open>\<^verbatim>\<open>sorted(rows, key=..., reverse=True)\<close> is stable: equal keys keep their order.\<close>

fun insert_desc :: "pyfloat \<times> 'a \<Rightarrow> (pyfloat \<times> 'a) list \<Rightarrow> (pyfloat \<times> 'a) list" where
  "insert_desc x [] = [x]"
| "insert_desc x (y # ys) = (if float_less (fst x) (fst y) then y # insert_desc x ys else x # y # ys)"

definition sort_desc :: "(pyfloat \<times> 'a) list \<Rightarrow> 'a list" where
  "sort_desc xs = map snd (foldr insert_desc xs [])"

definition transactions :: "pyfloat option \<Rightarrow> mempool \<Rightarrow> pooled list option" where
  "transactions since m = do {
     let rows = (case since of None \<Rightarrow> rows_of m
                 | Some t \<Rightarrow> filter (\<lambda>r. float_less t (Fl (q_merged r < 0) (of_int \<bar>q_merged r\<bar>))) (rows_of m));
     keys \<leftarrow> mapM_opt (\<lambda>r. float_str (t_amount r)) rows;
     Some (sort_desc (zip keys rows)) }"

definition mempool_get :: "mempool \<Rightarrow> pystr \<Rightarrow> pooled option" where
  "mempool_get m sg = map_of (mp_txs m) sg"

definition sig_check :: "mempool \<Rightarrow> pystr \<Rightarrow> bool" where
  "sig_check m sg = dict_has (mp_txs m) sg"

definition find_openfield :: "mempool \<Rightarrow> pystr \<Rightarrow> pystr option" where
  "find_openfield m field = map_option t_ts (find (\<lambda>r. t_of r = field) (rows_of m))"

text \<open>\<^verbatim>\<open>time.time() - REFUSE_OLDER_THAN\<close>\<close>

definition age_cutoff :: "pyfloat \<Rightarrow> pyfloat" where
  "age_cutoff now = float_sub_rat now REFUSE_OLDER_THAN"

definition by_address :: "pyfloat \<Rightarrow> pystr \<Rightarrow> bool \<Rightarrow> mempool \<Rightarrow> pooled list option" where
  "by_address now address valid_only m =
     filter_opt (\<lambda>r. if t_addr r = address \<or> t_recip r = address
                      then (if \<not> valid_only then Some True else newer_than (age_cutoff now) r) else Some False) (rows_of m)"

text \<open>The pending sends of an address that are young enough to count.\<close>

definition pending :: "pyfloat \<Rightarrow> pystr \<Rightarrow> mempool \<Rightarrow> pooled list option" where
  "pending cutoff address m =
     filter_opt (\<lambda>r. if t_addr r = address then newer_than cutoff r else Some False) (rows_of m)"

definition mp_get :: "pyfloat \<Rightarrow> pystr \<Rightarrow> mempool \<Rightarrow> (pystr \<times> pystr \<times> pystr) list option" where
  "mp_get now address m = map_option (map (\<lambda>r. (t_amount r, t_of r, t_op r))) (pending (age_cutoff now) address m)"

section \<open>Maintenance\<close>

fun float_le :: "pyfloat \<Rightarrow> pyfloat \<Rightarrow> bool" where
  "float_le FNaN y = False"
| "float_le x FNaN = False"
| "float_le x y = (\<not> float_less y x)"

definition purge :: "pyfloat \<Rightarrow> mempool \<Rightarrow> mempool option" where
  "purge now m = do {
     kept \<leftarrow> filter_opt (\<lambda>(_, r). map_option (\<lambda>f. \<not> float_le f (age_cutoff now)) (float_str (t_ts r))) (mp_txs m);
     Some (m\<lparr>mp_txs := kept\<rparr>) }"

definition clear_pool :: "mempool \<Rightarrow> mempool" where
  "clear_pool m = m\<lparr>mp_txs := []\<rparr>"

definition delete_transaction :: "pystr \<Rightarrow> mempool \<Rightarrow> mempool" where
  "delete_transaction sg m = m\<lparr>mp_txs := dict_pop sg (mp_txs m)\<rparr>"

definition sent :: "pyfloat \<Rightarrow> pystr \<Rightarrow> mempool \<Rightarrow> mempool" where
  "sent now ip m =
     (if float_le (dict_get (mp_sent m) ip (Fl False 0)) now then m\<lparr>mp_sent := dict_set ip now (mp_sent m)\<rparr> else m)"

definition sendable :: "pyfloat \<Rightarrow> pystr \<Rightarrow> mempool \<Rightarrow> bool" where
  "sendable now ip m = (case map_of (mp_sent m) ip of None \<Rightarrow> True | Some t \<Rightarrow> float_less t (float_sub_rat now 30))"

text \<open>What a peer is sent: everything merged since the last send but for what it sent itself.\<close>

definition tx_to_send :: "pystr \<Rightarrow> rawtx list \<Rightarrow> mempool \<Rightarrow> pooled list option" where
  "tx_to_send ip peer_txs m = do {
     raw \<leftarrow> transactions (map_option (\<lambda>t. float_sub_rat t 5) (map_of (mp_sent m) ip)) m;
     Some (if peer_txs = [] then raw else filter (\<lambda>r. t_sig r \<notin> x_sig ` set peer_txs) raw) }"

text \<open>\<^verbatim>\<open>int(x)\<close> of a float, and its negation.\<close>

fun float_int_trunc :: "pyfloat \<Rightarrow> int option" where
  "float_int_trunc (Fl s m) = Some (if s then - \<lfloor>m\<rfloor> else \<lfloor>m\<rfloor>)"
| "float_int_trunc _ = None"

fun fl_neg :: "pyfloat \<Rightarrow> pyfloat" where
  "fl_neg (Fl s m) = Fl (\<not> s) m"
| "fl_neg (FInf s) = FInf (\<not> s)"
| "fl_neg FNaN = FNaN"

section \<open>Admission\<close>

text \<open>The packages, the configuration and the platform: \<^verbatim>\<open>sys.getsizeof(str(...))\<close> of the valid part of the pool and of
  one transaction as sent, and the clock at the start of the merge and at each transaction.\<close>

record mp_env =
  me_li :: bool
  me_hash :: hash_ext
  me_addr :: addr_ext
  me_sig :: sig_ext
  me_sizeof :: "tx8 list \<Rightarrow> nat"
  me_sizeof_raw :: "rawtx \<Rightarrow> nat"
  me_now :: pyfloat
  me_later :: "nat \<Rightarrow> pyfloat"
  me_regnet :: bool
  me_debug :: bool
  me_mandatory :: "(pystr, pystr) dict"

definition megabytes :: "nat \<Rightarrow> pyfloat" where
  "megabytes n = int_div_float (int n) 1000000"

definition pool_size :: "mp_env \<Rightarrow> mempool \<Rightarrow> pyfloat option" where
  "pool_size E m = do {
     valid \<leftarrow> filter_opt (newer_than (age_cutoff (me_now E))) (rows_of m);
     Some (megabytes (me_sizeof E (map tx8.truncate valid))) }"

definition below :: "pyfloat \<Rightarrow> rat \<Rightarrow> bool" where
  "below x r = float_less x (float_of_rat r)"

text \<open>As the pool fills only transactions with a higher fee get in.\<close>

definition space_left_for_tx :: "rawtx \<Rightarrow> pyfloat \<Rightarrow> bool option" where
  "space_left_for_tx x mb =
     (if below mb (3 / 10) then Some True
      else do {
        d \<leftarrow> fee_calculate (x_of x) (x_op x) None;
        fee \<leftarrow> dec_float d;
        least \<leftarrow> dec_float BASE_FEE;
        Some (if below mb (4 / 10) then float_less least fee
              else if below mb (5 / 10) then \<not> below fee 1
              else if below mb (6 / 10) then \<not> below fee 10
              else False) })"

datatype mp_message =
    MEmpty | MFrozen | MBadFormat | MLocked | MStarted
  | MFull | MTimestamp | MAddress | MRecipient | MAmount | MSigLen | MPubLen | MOpLen | MOfLen | MMandatory
  | MNegative | MFuture | MOld | MSignature | MDeleted | MInLedger | MInPool | MReceived | MOverspend | MFees
  | MUpdated | MSuccess

text \<open>The fields as the pool stores them, or the message that refuses them.\<close>

definition mp_fields ::
  "mp_env \<Rightarrow> bool \<Rightarrow> rawtx \<Rightarrow> mp_message + (tx8 \<times> pyfloat \<times> pyfloat)" where
  "mp_fields E post_fork x =
     (case do { q \<leftarrow> quantize_two (tval_py (x_ts x)); t \<leftarrow> fmt_dec 2 q; f \<leftarrow> typed_float (x_ts x); Some (t, f) } of
        None \<Rightarrow> Inl MTimestamp
      | Some (ts, ts_f) \<Rightarrow>
      if \<not> address_is_valid (me_addr E) (x_addr x) then Inl MAddress
      else if \<not> address_is_valid (me_addr E) (x_recip x) then Inl MRecipient
      else case do { q \<leftarrow> quantize_eight (tval_py (x_amount x)); t \<leftarrow> fmt_dec 8 q; f \<leftarrow> typed_float (x_amount x); Some (t, f) } of
        None \<Rightarrow> Inl MAmount
      | Some (am, am_f) \<Rightarrow>
      if MAX_TX_SIGNATURE_LEN < length (x_sig x) then Inl MSigLen
      else if MAX_TX_PUBKEY_LEN < length (x_pub x) then Inl MPubLen
      else
        let pub = (if take 2 (x_pub x) = lit ''b'' @ [39] then drop 2 (take (MAX_TX_PUBKEY_LEN + 2) (x_pub x)) else x_pub x);
            tx = \<lparr>t_ts = ts, t_addr = take 56 (x_addr x), t_recip = take 56 (x_recip x), t_amount = am, t_sig = x_sig x,
                  t_pubkey = pub, t_op = x_op x, t_of = x_of x\<rparr> in
        if post_fork then Inr (tx, ts_f, am_f)
        else if 30 < length (x_op x) then Inl MOpLen
        else if 100000 < length (x_of x) then Inl MOfLen
        else if length (x_of x) \<le> 4 \<and> dict_has (me_mandatory E) (take 56 (x_recip x)) then Inl MMandatory
        else Inr (tx, ts_f, am_f))"

text \<open>The debit of the pending sends of an address with their fees.\<close>

definition pending_debit :: "decimal option \<Rightarrow> pooled list \<Rightarrow> decimal option" where
  "pending_debit base rows = foldM_opt
     (\<lambda>r debit. do {
        fee \<leftarrow> fee_calculate (t_of r) (t_op r) base;
        a \<leftarrow> quantize_eight (PStr (t_amount r));
        s \<leftarrow> dadd a fee;
        dadd debit s }) rows (int_dec 0)"

text \<open>Whether the sender can pay: the message that refuses, or nothing.  None is an exception.\<close>

definition mp_affordable ::
  "mp_env \<Rightarrow> mp_node option \<Rightarrow> block_store \<Rightarrow> nat \<Rightarrow> nat \<Rightarrow> mempool \<Rightarrow> tx8 \<Rightarrow> mp_message option option" where
  "mp_affordable E node s idx last_block m tx = do {
     rows \<leftarrow> pending (age_cutoff (me_later E idx)) (t_addr tx) m;
     debit \<leftarrow> pending_debit (hf_base_fee node m) rows;
     balance_pre \<leftarrow> balance s (t_addr tx);
     qa \<leftarrow> quantize_eight (PStr (t_amount tx));
     b1 \<leftarrow> dsub balance_pre debit;
     b2 \<leftarrow> dsub b1 qa;
     (b, pre) \<leftarrow> (if at_fork (last_block + 1) (hf_fork_height node m) then do {
         immature \<leftarrow> immature_coinbase (me_li E) (me_addr E) (t_addr tx) (last_block + 1) s (coinbase_maturity (me_regnet E));
         b \<leftarrow> dsub b2 immature; pre \<leftarrow> dsub balance_pre immature; Some (b, pre) }
       else Some (b2, balance_pre));
     fee \<leftarrow> fee_calculate (t_of tx) (t_op tx) (hf_base_fee node m);
     over \<leftarrow> dless pre qa;
     if over then Some (Some MOverspend)
     else do { rest \<leftarrow> dsub b fee; short \<leftarrow> dless rest (int_dec 0); Some (if short then Some MFees else None) } }"

text \<open>One transaction: the pool, the messages and the mb afterwards.  None is an exception, which ends the merge.\<close>

definition merge_one ::
  "mp_env \<Rightarrow> mp_node option \<Rightarrow> block_store \<Rightarrow> pystr \<Rightarrow> bool \<Rightarrow> nat \<Rightarrow> rawtx \<Rightarrow> mempool \<times> mp_message list \<times> pyfloat
     \<Rightarrow> (mempool \<times> mp_message list \<times> pyfloat) option" where
  "merge_one E node s ip size_bypass idx x st = (case st of (m, msgs, mb) \<Rightarrow> do {
     room \<leftarrow> (if size_bypass then Some True else space_left_for_tx x mb);
     if \<not> room then Some (m, msgs @ [MFull], mb)
     else
       let last_block = (case store_tip s of None \<Rightarrow> 0 | Some t \<Rightarrow> t);
           post_fork = at_fork (last_block + 1) (hf_fork_height node m) in
       case mp_fields E post_fork x of
         Inl msg \<Rightarrow> Some (m, msgs @ [msg], mb)
       | Inr (tx, ts_f, am_f) \<Rightarrow>
           if float_less am_f (Fl False 0) then Some (m, msgs @ [MNegative], mb)
           else if float_less (me_now E) ts_f then Some (m, msgs @ [MFuture], mb)
           else if float_less ts_f (age_cutoff (me_now E)) then Some (m, msgs @ [MOld], mb)
           else if verify_tx_signature (me_hash E) (me_addr E) (me_sig E) post_fork (t_ts tx) (t_addr tx) (t_recip tx)
                     (t_amount tx) (t_op tx) (t_of tx) (t_sig tx) (t_pubkey tx) (hf_registry node m) False \<noteq> Passed
           then Some (m, msgs @ [MSignature], mb)
           else do {
             rows \<leftarrow> signature_rows (me_li E) (me_addr E) s (t_sig tx) (Some (int last_block)) (Some 1);
             ledger_in \<leftarrow> (case rows of [] \<Rightarrow> Some None | r # _ \<Rightarrow> map_option Some (typed_float (t_time r)));
             case (sig_check m (t_sig tx), ledger_in) of
               (True, Some _) \<Rightarrow> Some (delete_transaction (t_sig tx) m, msgs @ [MDeleted], mb)
             | (False, Some f) \<Rightarrow>
                 Some (if ip \<noteq> localhost \<and> float_less f (float_sub_rat (me_now E) 900)
                       then m\<lparr>mp_sent := dict_set ip (float_sub_rat (me_later E idx) (- (FREEZE_MIN * 60))) (mp_sent m)\<rparr>
                       else m, msgs @ [MInLedger], mb)
             | (True, None) \<Rightarrow> Some (m, msgs @ [MInPool], mb)
             | (False, None) \<Rightarrow> do {
                 verdict \<leftarrow> mp_affordable E node s idx last_block m tx;
                 case verdict of
                   Some msg \<Rightarrow> Some (m, msgs @ [MReceived, msg], mb)
                 | None \<Rightarrow> do {
                     merged \<leftarrow> float_int_trunc (me_now E);
                     Some (m\<lparr>mp_txs := dict_set (t_sig tx) (tx8.extend tx \<lparr>q_merged = merged\<rparr>) (mp_txs m)\<rparr>,
                           msgs @ [MReceived, MUpdated, MSuccess],
                           fl_sub mb (fl_neg (megabytes (me_sizeof_raw E x)))) } } } })"

fun merge_loop ::
  "mp_env \<Rightarrow> mp_node option \<Rightarrow> block_store \<Rightarrow> pystr \<Rightarrow> bool \<Rightarrow> nat \<Rightarrow> rawtx list \<Rightarrow> mempool \<times> mp_message list \<times> pyfloat
     \<Rightarrow> (mempool \<times> mp_message list) \<times> bool" where
  "merge_loop E node s ip size_bypass idx [] (m, msgs, mb) = ((m, msgs), True)"
| "merge_loop E node s ip size_bypass idx (x # xs) (m, msgs, mb) =
     (case merge_one E node s ip size_bypass idx x (m, msgs, mb) of
        None \<Rightarrow> ((m, msgs), False)
      | Some st \<Rightarrow> merge_loop E node s ip size_bypass (idx + 1) xs st)"

text \<open>What a peer can send: the placeholder of a lost connection, something that is no sequence, or transactions.\<close>

datatype mp_data = Lost | NoSequence | Txs "rawtx list"

text \<open>The whole merge: the pool and the messages, or the exception that leaves it.  The ledger may be locked for as long
  as the caller does not wait.\<close>

definition mempool_merge ::
  "mp_env \<Rightarrow> mp_node option \<Rightarrow> block_store \<Rightarrow> bool \<Rightarrow> mp_data \<Rightarrow> pystr \<Rightarrow> bool \<Rightarrow> bool \<Rightarrow> bool \<Rightarrow> mempool
     \<Rightarrow> mempool \<times> mp_message list option" where
  "mempool_merge E node s locked data ip size_bypass wait revert m =
     (if data = Txs [] then (m, Some [MEmpty])
      else if data = Lost then (m, None)
      else if (case map_of (mp_sent m) ip of None \<Rightarrow> False | Some t \<Rightarrow> float_less (me_now E) t) \<and> ip \<noteq> localhost
      then (m, Some [MFrozen])
      else case data of
        Txs xs \<Rightarrow>
          if \<not> revert \<and> locked \<and> \<not> wait then (m, Some [MLocked])
          else (case pool_size E m of
              None \<Rightarrow> (m, None)
            | Some mb \<Rightarrow>
                (case merge_loop E node s ip size_bypass 0 xs (m, [MStarted], mb) of
                   ((m', msgs), ok) \<Rightarrow> (m', if ok \<or> \<not> me_debug E then Some msgs else None)))
      | _ \<Rightarrow> (if ip \<noteq> localhost then m\<lparr>mp_sent := dict_set ip (float_sub_rat (me_now E) (- 600)) (mp_sent m)\<rparr> else m,
               Some [MBadFormat]))"

end
