(* ===== verification/Digest.thy ===== *)
theory Digest
  imports Mempool PeersLoop
begin

text \<open>
  The consensus core, \<^verbatim>\<open>digest.py\<close>: the checks of \<^verbatim>\<open>class BlockProcessor\<close> on one candidate block and the order in
  which \<^verbatim>\<open>process_block_data\<close> applies them.  A raised exception is None; where a waiver catches ValueError
  the outcome says which exception it was.
\<close>

section \<open>Environment\<close>

text \<open>The packages and the platform: hashing, addresses, signatures, mathematics, the noise file, and the clock at
  the validation of the n-th transaction.\<close>

record denv =
  e_li :: bool
  e_hash :: hash_ext
  e_addr :: addr_ext
  e_sig :: sig_ext
  e_math :: math_ext
  e_pow :: pow_env
  e_now :: "nat \<Rightarrow> pyfloat"

section \<open>Text of wire values\<close>

text \<open>\<^verbatim>\<open>repr(x)\<close> of a finite float: the shortest digits, in positional notation for exponents from -4 to 15.\<close>

definition float_repr :: "bool \<Rightarrow> rat \<Rightarrow> pystr" where
  "float_repr s m = (case repr_dec s m of
     Fin _ c e \<Rightarrow>
       let ds = nat_str c; point = int (length ds) + e;
           body = (if c = 0 then lit ''0.0''
             else if - 4 < point \<and> point \<le> 16 then
               (if point \<le> 0 then lit ''0.'' @ replicate (nat (- point)) 48 @ ds
                else if int (length ds) \<le> point then ds @ replicate (nat point - length ds) 48 @ lit ''.0''
                else take (nat point) ds @ 46 # drop (nat point) ds)
             else take 1 ds @ (if 1 < length ds then 46 # drop 1 ds else []) @ 101 #
               (if point - 1 < 0 then 45 else 43) # zero_pad 2 (nat \<bar>point - 1\<bar>))
       in (if s then [45] else []) @ body
   | _ \<Rightarrow> [])"

fun wire_str :: "tval \<Rightarrow> pystr" where
  "wire_str (TStr s) = s"
| "wire_str (TInt i) = int_str i"
| "wire_str (TFloat (Fl s m)) = float_repr s m"
| "wire_str (TFloat (FInf s)) = (if s then lit ''-inf'' else lit ''inf'')"
| "wire_str (TFloat FNaN) = lit ''nan''"

fun wire_num :: "tval \<Rightarrow> rat option" where
  "wire_num (TInt i) = Some (of_int i)"
| "wire_num (TFloat f) = float_val f"
| "wire_num (TStr s) = None"

definition wire_eq :: "tval \<Rightarrow> tval \<Rightarrow> bool" where
  "wire_eq a b \<longleftrightarrow> a = b \<or> wire_num a \<noteq> None \<and> wire_num a = wire_num b"

definition raw_eq :: "rawtx \<Rightarrow> rawtx \<Rightarrow> bool" where
  "raw_eq a b \<longleftrightarrow> wire_eq (x_ts a) (x_ts b) \<and> x_addr a = x_addr b \<and> x_recip a = x_recip b \<and>
     wire_eq (x_amount a) (x_amount b) \<and> x_sig a = x_sig b \<and> x_pub a = x_pub b \<and> x_op a = x_op b \<and> x_of a = x_of b"

section \<open>Errors\<close>

text \<open>What the handler of a rejected delivery reads from the message of an exception: a rollback of the node itself, a
  replay, the two fields a peer chose inside the text about an old transaction, or nothing of interest.\<close>

datatype derr = ERolling | EInLedger | EOldTx pystr pystr | EOther

definition need :: "'a option \<Rightarrow> derr + 'a" where
  "need r = (case r of None \<Rightarrow> Inl EOther | Some x \<Rightarrow> Inr x)"

fun sbind :: "derr + 'a \<Rightarrow> ('a \<Rightarrow> derr + 'b) \<Rightarrow> derr + 'b" where
  "sbind (Inl e) f = Inl e"
| "sbind (Inr x) f = f x"

definition benign :: "derr \<Rightarrow> bool" where
  "benign e = (case e of ERolling \<Rightarrow> True | EInLedger \<Rightarrow> True | EOther \<Rightarrow> False
     | EOldTx sg a \<Rightarrow> list_ex (\<lambda>w. sublist w sg \<or> sublist w a) [lit ''Rolling back'', lit ''already in''])"

section \<open>Replays\<close>

definition raw_txid :: "denv \<Rightarrow> nat \<Rightarrow> nat option \<Rightarrow> rawtx \<Rightarrow> pystr option" where
  "raw_txid E height fh x = tx_id_at (e_hash E) height fh (wire_str (x_ts x)) (x_addr x) (x_recip x)
     (wire_str (x_amount x)) (x_op x) (x_of x)"

definition new_txid :: "denv \<Rightarrow> dnode \<Rightarrow> block_store \<Rightarrow> nat \<Rightarrow> rawtx \<Rightarrow> derr + pystr" where
  "new_txid E node s height entry =
     sbind (need (raw_txid E height (dn_fork_height node) entry)) (\<lambda>txid.
     sbind (need (txid_height s txid)) (\<lambda>th.
       case th of
         Some h \<Rightarrow> if int h \<le> int height - 1 then Inl EInLedger else Inr txid
       | None \<Rightarrow> Inr txid))"

fun dup_entries ::
  "denv \<Rightarrow> dnode \<Rightarrow> block_store \<Rightarrow> nat \<Rightarrow> nat \<Rightarrow> nat \<Rightarrow> rawtx list \<Rightarrow> pystr list \<times> pystr list \<Rightarrow> derr + (pystr list \<times> pystr list)"
where
  "dup_entries E node s height n_tx idx [] acc = Inr acc"
| "dup_entries E node s height n_tx idx (entry # block) (sigs, txids) =
     (let post_fork = at_fork height (dn_fork_height node) in
      if post_fork \<and> idx + 1 = n_tx then
        (case raw_txid E height (dn_fork_height node) entry of
           None \<Rightarrow> Inl EOther
         | Some txid \<Rightarrow> dup_entries E node s height n_tx (idx + 1) block (sigs @ [x_sig entry], txids @ [txid]))
      else if x_sig entry = [] then Inl EOther
      else case signature_exists (e_li E) (e_addr E) s (x_sig entry) (Some (int height - 1)) of
          None \<Rightarrow> Inl EOther
        | Some seen \<Rightarrow>
            (case (if post_fork then sbind (new_txid E node s height entry) (\<lambda>t. Inr (txids @ [t])) else Inr txids) of
               Inl e \<Rightarrow> Inl e
             | Inr txids' \<Rightarrow>
                 if seen \<and> \<not> is_exempt node height DUPLICATE (Some (x_sig entry)) then Inl EInLedger
                 else dup_entries E node s height n_tx (idx + 1) block (sigs @ [x_sig entry], txids')))"

definition check_duplicate_signatures :: "denv \<Rightarrow> dnode \<Rightarrow> block_store \<Rightarrow> nat \<Rightarrow> rawtx list \<Rightarrow> derr + unit" where
  "check_duplicate_signatures E node s height block =
     sbind (dup_entries E node s height (length block) 0 block ([], [])) (\<lambda>(sigs, txids).
       if length block \<noteq> length (remdups sigs) \<and> \<not> is_exempt node height DUPLICATE None then Inl EOther
       else if at_fork height (dn_fork_height node) \<and> length (remdups txids) \<noteq> length txids then Inl EOther
       else Inr ())"

section \<open>Fields and signatures\<close>

fun sort_and_validate ::
  "denv \<Rightarrow> dnode \<Rightarrow> pk_registry option \<Rightarrow> nat \<Rightarrow> nat \<Rightarrow> nat \<Rightarrow> rawtx list \<Rightarrow> tx8 list \<times> minertx option
     \<Rightarrow> (tx8 list \<times> minertx option) option"
where
  "sort_and_validate E node reg height n_tx idx [] acc = Some acc"
| "sort_and_validate E node reg height n_tx idx (raw # block) (converted, miner) = do {
     (tx, m) \<leftarrow> from_raw_transaction (e_now E idx) raw idx n_tx height (dn_fork_height node);
     let verify_sig = (\<not> assume_valid_skip_signature node height);
     case validate (e_hash E) (e_addr E) (e_sig E) reg (dn_fork_height node) tx (dn_last_ts node) height verify_sig
            (idx + 1 = n_tx) of
       OtherErr \<Rightarrow> None
     | ValueErr \<Rightarrow>
         if is_exempt node height SIGNATURE (Some (d_sig tx))
         then sort_and_validate E node reg height n_tx (idx + 1) block (converted @ [to_tuple tx], if m = None then miner else m)
         else None
     | Passed \<Rightarrow> sort_and_validate E node reg height n_tx (idx + 1) block (converted @ [to_tuple tx], if m = None then miner else m) }"

section \<open>Reward, debits and balances\<close>

text \<open>\<^verbatim>\<open>Decimal(max(reward, 0.5))\<close>\<close>

definition float_reward :: "nat \<Rightarrow> nat \<Rightarrow> decimal" where
  "float_reward height fork_at =
     (let r = float_sub_rat (int_sub_float 15 (int_div_float (int height - int fork_at) 1100000)) (19 / 2) in
      if float_less r (Fl False (1 / 2)) then Fin False 5 (- 1) else fl_dec r)"

definition calculate_mining_reward :: "dnode \<Rightarrow> nat \<Rightarrow> decimal option" where
  "calculate_mining_reward node height =
     (if dn_testnet node \<and> POW_FORK_TESTNET \<le> dn_last_block node then Some (float_reward height POW_FORK_TESTNET)
      else if dn_mainnet node \<and> POW_FORK \<le> dn_last_block node then Some (float_reward height POW_FORK)
      else do {
        h \<leftarrow> dtx_quantize_eight (int_dec (int height));
        k \<leftarrow> dtx_quantize_eight (int_dec 500000);
        x \<leftarrow> ddiv h k;
        r1 \<leftarrow> dsub (int_dec 15) x;
        r \<leftarrow> dsub r1 (Fin False 24 (- 1));
        low \<leftarrow> dless r (Fin False 5 (- 1));
        Some (if low then Fin False 5 (- 1) else r) })"

fun address_totals ::
  "dnode \<Rightarrow> rawtx \<Rightarrow> pystr \<Rightarrow> rawtx list \<Rightarrow> decimal \<times> decimal \<Rightarrow> (decimal \<times> decimal) option" where
  "address_totals node coinbase_tx address [] acc = Some acc"
| "address_totals node coinbase_tx address (x # block) (debit, fees) =
     (if x_addr x = address then do {
        a \<leftarrow> wire_dec (x_amount x);
        s \<leftarrow> dadd debit a;
        debit' \<leftarrow> dtx_quantize_eight s;
        fees' \<leftarrow> (if \<not> raw_eq x coinbase_tx then do {
            fee \<leftarrow> fee_calculate (x_of x) (x_op x) (dn_base_fee node);
            f \<leftarrow> dadd fees fee;
            dtx_quantize_eight f }
          else Some fees);
        address_totals node coinbase_tx address block (debit', fees') }
      else address_totals node coinbase_tx address block (debit, fees))"

definition calculate_address_totals :: "dnode \<Rightarrow> rawtx list \<Rightarrow> pystr \<Rightarrow> (decimal \<times> decimal) option" where
  "calculate_address_totals node block address =
     address_totals node (last block) address block (Fin False 0 0, Fin False 0 0)"

text \<open>The balance of an address is read once per block and cached; the store does not change meanwhile, so every
  read returns that value.\<close>

definition validate_balance :: "denv \<Rightarrow> dnode \<Rightarrow> block_store \<Rightarrow> pystr \<Rightarrow> decimal \<Rightarrow> decimal \<Rightarrow> unit option" where
  "validate_balance E node s address debit fees = do {
     balance_pre \<leftarrow> balance s address;
     let h = dn_last_block node + 1;
     let waived = (in_trusted_prefix node h \<or> is_exempt node h OVERSPEND None);
     immature \<leftarrow> (if at_fork h (dn_fork_height node)
       then immature_coinbase (e_li E) (e_addr E) address h s (coinbase_maturity (dn_regnet node)) else Some (int_dec 0));
     sp \<leftarrow> dsub balance_pre immature;
     spendable \<leftarrow> dtx_quantize_eight sp;
     b \<leftarrow> dsub spendable debit;
     left \<leftarrow> dtx_quantize_eight b;
     qd \<leftarrow> dtx_quantize_eight debit;
     over \<leftarrow> dless spendable qd;
     _ \<leftarrow> guard_opt (\<not> over \<or> waived);
     ql \<leftarrow> dtx_quantize_eight left;
     qf \<leftarrow> dtx_quantize_eight fees;
     rest \<leftarrow> dsub ql qf;
     short_of_fees \<leftarrow> dless rest (int_dec 0);
     guard_opt (\<not> short_of_fees \<or> waived) }"

text \<open>The text an amount, fee or reward is stored with.\<close>

definition stored_num :: "bool \<Rightarrow> pyval \<Rightarrow> pystr \<Rightarrow> pystr option" where
  "stored_num li v text = (if li then map_option int_str (to_units v) else Some text)"

definition oldest_possible :: "nat \<Rightarrow> decimal \<Rightarrow> decimal option" where
  "oldest_possible height block_ts = dsub block_ts (int_dec (if 1450000 \<le> height then 7200 else 86400))"


text \<open>The amount, fee and reward texts of one transaction and the fees collected so far: the coinbase gets the mining
  reward and the fees of the block, every other sender must be able to pay.\<close>

definition row_money ::
  "denv \<Rightarrow> dnode \<Rightarrow> block_store \<Rightarrow> nat \<Rightarrow> rawtx list \<Rightarrow> nat \<Rightarrow> rawtx \<Rightarrow> pystr \<Rightarrow> pystr \<Rightarrow> pystr \<Rightarrow> decimal list
     \<Rightarrow> (pystr \<times> pystr \<times> pystr \<times> decimal list) option" where
  "row_money E node s height block idx x amount op opf fees_block = do {
     (debit, fees) \<leftarrow> calculate_address_totals node block (take 56 (x_addr x));
     if idx + 1 = length block then do {
       reward \<leftarrow> calculate_mining_reward node height;
       total \<leftarrow> foldM_opt (\<lambda>f acc. dadd acc f) fees_block (int_dec 0);
       r \<leftarrow> dadd reward total;
       w \<leftarrow> typed_float (x_amount x);
       _ \<leftarrow> guard_opt (float_zero w);
       am \<leftarrow> stored_num (e_li E) (PInt 0) (lit ''0'');
       fe \<leftarrow> stored_num (e_li E) (PInt 0) (lit ''0'');
       rw \<leftarrow> stored_num (e_li E) (PStr (dec_format 8 r)) (dec_format 8 r);
       Some (am, fe, rw, fees_block) }
     else do {
       fee \<leftarrow> fee_calculate opf op (dn_base_fee node);
       qf \<leftarrow> dtx_quantize_eight fee;
       _ \<leftarrow> validate_balance E node s (take 56 (x_addr x)) debit fees;
       am \<leftarrow> stored_num (e_li E) (PStr amount) amount;
       fe \<leftarrow> stored_num (e_li E) (PDec fee) (dec_str fee);
       rw \<leftarrow> stored_num (e_li E) (PInt 0) (lit ''0'');
       Some (am, fe, rw, fees_block @ [qf]) } }"

text \<open>One transaction of \<^verbatim>\<open>process_transaction_balances\<close>: the row to store and the fees collected so far.\<close>

definition digest_row ::
  "denv \<Rightarrow> dnode \<Rightarrow> block_store \<Rightarrow> nat \<Rightarrow> pystr \<Rightarrow> rawtx list \<Rightarrow> decimal \<Rightarrow> nat \<Rightarrow> rawtx \<Rightarrow> decimal list
     \<Rightarrow> derr + (lrow \<times> decimal list)" where
  "digest_row E node s height bhash block oldest idx x fees_block =
     (case do { f \<leftarrow> typed_float (x_ts x); dless (fl_dec f) oldest } of
        None \<Rightarrow> Inl EOther
      | Some True \<Rightarrow> Inl (EOldTx (take 56 (x_sig x)) (x_addr x))
      | Some False \<Rightarrow> need (do {
          t \<leftarrow> wire_dec (x_ts x);
          q \<leftarrow> dtx_quantize_two t;
          ts \<leftarrow> fmt_dec 2 q;
          a \<leftarrow> wire_dec (x_amount x);
          qa \<leftarrow> dtx_quantize_eight a;
          amount \<leftarrow> fmt_dec 8 qa;
          let post_fork = at_fork height (dn_fork_height node);
          let op = (if post_fork then x_op x else take 30 (x_op x));
          let opf = (if post_fork then x_of x else take 100000 (x_of x));
          (am, fe, rw, fees') \<leftarrow> row_money E node s height block idx x amount op opf fees_block;
          Some (\<lparr>r_h = height, r_ts = ts, r_addr = take 56 (x_addr x), r_recip = take 56 (x_recip x), r_amount = am,
                 r_sig = take MAX_TX_SIGNATURE_LEN (x_sig x), r_pub = PubText (take MAX_TX_PUBKEY_LEN (x_pub x)),
                 r_hash = bhash, r_fee = fe, r_reward = rw, r_op = op, r_of = opf\<rparr>, fees') }))"

text \<open>Each processed transaction leaves the pool at once, whether or not the block is accepted in the end.\<close>

fun process_rows ::
  "denv \<Rightarrow> dnode \<Rightarrow> block_store \<Rightarrow> nat \<Rightarrow> pystr \<Rightarrow> rawtx list \<Rightarrow> decimal \<Rightarrow> nat \<Rightarrow> rawtx list \<Rightarrow> lrow list \<times> decimal list
     \<Rightarrow> mempool \<Rightarrow> mempool \<times> (derr + lrow list)" where
  "process_rows E node s height bhash block oldest idx [] (rows, fees_block) m = (m, Inr rows)"
| "process_rows E node s height bhash block oldest idx (x # xs) (rows, fees_block) m =
     (case digest_row E node s height bhash block oldest idx x fees_block of
        Inl e \<Rightarrow> (m, Inl e)
      | Inr (r, fees') \<Rightarrow>
          process_rows E node s height bhash block oldest (idx + 1) xs (rows @ [r], fees') (delete_transaction (r_sig r) m))"

definition process_transaction_balances ::
  "denv \<Rightarrow> dnode \<Rightarrow> block_store \<Rightarrow> nat \<Rightarrow> pystr \<Rightarrow> rawtx list \<Rightarrow> decimal \<Rightarrow> mempool \<Rightarrow> mempool \<times> (derr + lrow list)" where
  "process_transaction_balances E node s height bhash block block_ts m =
     (case oldest_possible height block_ts of
        None \<Rightarrow> (m, Inl EOther)
      | Some oldest \<Rightarrow> process_rows E node s height bhash block oldest 0 block ([], []) m)"

section \<open>Proof of work\<close>

definition verify_proof_of_work ::
  "denv \<Rightarrow> dnode \<Rightarrow> nat \<Rightarrow> minertx \<Rightarrow> dtx \<Rightarrow> dres \<Rightarrow> outcome + tval" where
  "verify_proof_of_work E node height miner tx diff =
     (let new_pow = at_fork height (dn_fork_height node);
          nonce = (if new_pow then m_nonce_v2 miner else m_nonce miner) in
      check_block (e_hash E) (e_pow E) (m_addr miner) nonce (dn_last_hash node)
        (if dn_mainnet node \<or> dn_testnet node then df_required diff else TInt REGNET_DIFF)
        (d_ts tx) (d_q tx) (dn_last_ts node) new_pow)"

section \<open>Judging one block\<close>

text \<open>Everything that can reject a block before the node's tip moves.  The difficulty also refreshes the timestamp
  of the tip, so the node is part of the result in either case.\<close>

definition admit_block ::
  "denv \<Rightarrow> dnode \<Rightarrow> block_store \<Rightarrow> rawtx list \<Rightarrow> derr + (tx8 list \<times> minertx)" where
  "admit_block E node s block =
     (let height = dn_last_block node + 1; trusted = in_trusted_prefix node height in
      sbind (need (do {
        (converted, miner) \<leftarrow> sort_and_validate E node (Some (pkref_get s)) height (length block) 0 block ([], None);
        m \<leftarrow> miner;
        newer \<leftarrow> dless (dn_last_ts node) (m_ts m);
        _ \<leftarrow> guard_opt (newer \<or> trusted \<or> is_exempt node height TIMESTAMP None);
        Some (converted, m) })) (\<lambda>(converted, m).
      sbind (if trusted then Inr () else check_duplicate_signatures E node s height block) (\<lambda>_.
        Inr (converted, m))))"

text \<open>The hash, the checkpoint and the work of a block whose fields passed.\<close>

definition weigh_block ::
  "denv \<Rightarrow> dnode \<Rightarrow> block_store \<Rightarrow> rawtx list \<Rightarrow> tx8 list \<Rightarrow> minertx \<Rightarrow> dres \<Rightarrow> (pystr \<times> tval) option" where
  "weigh_block E node s block converted m d = do {
     let height = dn_last_block node + 1;
     let fh = dn_fork_height node;
     bhash \<leftarrow> block_hash_at (e_hash E) height fh converted (dn_last_hash node);
     _ \<leftarrow> verify_checkpoint node height bhash;
     existing \<leftarrow> height_by_hash s bhash;
     _ \<leftarrow> guard_opt (existing = None);
     (tx, _) \<leftarrow> from_raw_transaction (e_now E 0) (last block) (length block - 1) (length block) height fh;
     diff_save \<leftarrow> (if in_trusted_prefix node height then Some (df_required d)
       else case verify_proof_of_work E node height m tx d of
           Inr x \<Rightarrow> Some x
         | Inl ValueErr \<Rightarrow> if is_exempt node height POW None then Some (df_required d) else None
         | Inl _ \<Rightarrow> None);
     Some (bhash, diff_save) }"

definition judge_block ::
  "denv \<Rightarrow> dnode \<Rightarrow> block_store \<Rightarrow> rawtx list \<Rightarrow> mempool \<Rightarrow> (dnode \<times> mempool) \<times> (derr + (lrow list \<times> pystr \<times> tval))" where
  "judge_block E node s block mp =
     (case admit_block E node s block of
        Inl e \<Rightarrow> ((node, mp), Inl e)
      | Inr (converted, m) \<Rightarrow>
          (case difficulty (e_li E) (e_addr E) (e_math E) (e_now E 0) node s of (node1, diff) \<Rightarrow>
            (case Option.bind diff (weigh_block E node1 s block converted m) of
               None \<Rightarrow> ((node1, mp), Inl EOther)
             | Some (bhash, diff_save) \<Rightarrow>
                 (case process_transaction_balances E node1 s (dn_last_block node + 1) bhash block (m_ts m) mp of
                    (mp', Inl e) \<Rightarrow> ((node1, mp'), Inl e)
                  | (mp', Inr rows) \<Rightarrow> ((node1, mp'), Inr (rows, bhash, diff_save))))))"

section \<open>Applying a block\<close>

text \<open>The state of the node: its attributes, the ledger, the derived state of the plugins, the peers, the pool and
  the rollback checkpoint.\<close>

record 'p dstate =
  g_node :: dnode
  g_store :: block_store
  g_plugins :: 'p
  g_peers :: peers
  g_mempool :: mempool
  g_checkpoint :: int

text \<open>The tip moves and the plugins run before the last check and the commit.  The result says whether the block
  was accepted.\<close>

definition apply_block ::
  "denv \<Rightarrow> (nat \<Rightarrow> lrow list \<Rightarrow> 'p \<Rightarrow> 'p) \<Rightarrow> pystr \<Rightarrow> 'p dstate \<Rightarrow> lrow list \<Rightarrow> pystr \<Rightarrow> tval \<Rightarrow> 'p dstate \<times> derr option" where
  "apply_block E dispatch ip st rows bhash diff_save =
     (let height = dn_last_block (g_node st) + 1;
          fh = dn_fork_height (g_node st);
          st1 = st\<lparr>g_node := (g_node st)\<lparr>dn_last_block := height, dn_last_hash := bhash\<rparr>,
                   g_plugins := dispatch height rows (g_plugins st)\<rparr> in
      if \<not> at_fork height fh \<and> list_ex (\<lambda>r. address_is_post_fork_sender_type (e_addr E) (r_addr r)) rows
      then (st1, Some EOther)
      else case commit_block (e_li E) (e_hash E) (e_addr E) height bhash rows (Some diff_save) fh (g_store st) of
          None \<Rightarrow> (st1, Some EOther)
        | Some s' \<Rightarrow>
            (case difficulty (e_li E) (e_addr E) (e_math E) (e_now E 0) (g_node st1) s' of (node', diff) \<Rightarrow>
              (st1\<lparr>g_node := node', g_store := s', g_peers := unban ip (g_peers st)\<rparr>,
               if diff = None then Some EOther else None)))"

section \<open>The blocks of a delivery\<close>

text \<open>The activation height is derived from the confirmed chain before a block is judged: a scan of the whole chain the
  first time, then of the trailing window.  A block that cannot be read stops the scan with an exception (None)
  unless the answer is known before it.\<close>

definition fork_lookup :: "(nat \<Rightarrow> pystr option option) \<Rightarrow> bool \<Rightarrow> nat \<Rightarrow> nat \<Rightarrow> nat \<Rightarrow> nat \<Rightarrow> nat option option" where
  "fork_lookup read whole tip window boundary bury =
     (let rd = fork_signal_reader (\<lambda>h. case read h of Some f \<Rightarrow> f | None \<Rightarrow> None);
          from = (if whole then 1 else tip - window + 1) in
      case find (\<lambda>h. read h = None) (if tip < window then [] else [from..<tip + 1]) of
        None \<Rightarrow> Some (if whole then dynamic_fork_height rd (Some tip) window boundary bury 1
                      else lockin_at_tip rd (Some tip) window boundary bury)
      | Some h \<Rightarrow>
          if whole then map_option Some (dynamic_fork_height rd (Some (h - 1)) window boundary bury 1)
          else if list_all rd [from..<h] then None else Some None)"

definition refresh_fork :: "denv \<Rightarrow> dnode \<Rightarrow> block_store \<Rightarrow> dnode" where
  "refresh_fork E node s =
     (case dn_fork_height node of
        Some _ \<Rightarrow> node\<lparr>dn_caught_up := True\<rparr>
      | None \<Rightarrow>
          (case dn_fork_params node of (window, boundary, bury) \<Rightarrow>
            case fork_lookup (last_openfield (e_li E) s) (\<not> dn_caught_up node) (dn_last_block node) window boundary bury of
              None \<Rightarrow> node
            | Some found \<Rightarrow> node\<lparr>dn_fork_height := found, dn_caught_up := True\<rparr>))"

text \<open>\<^verbatim>\<open>check_fork_reward\<close>: the reward the ledger recorded just past the 2019 fork must be below the maximum; a
  reward that is no number cannot be compared.\<close>

fun reward_below_max :: "tval \<Rightarrow> bool option" where
  "reward_below_max (TInt i) = Some (of_int i < REWARD_MAX)"
| "reward_below_max (TFloat f) = Some (float_less f (Fl False REWARD_MAX))"
| "reward_below_max (TStr _) = None"

definition fork_reward_at :: "dnode \<Rightarrow> nat" where
  "fork_reward_at node = (if dn_testnet node then POW_FORK_TESTNET else POW_FORK)"

definition ledger_reward_passed :: "denv \<Rightarrow> nat \<Rightarrow> block_store \<Rightarrow> bool option" where
  "ledger_reward_passed E fork_at s =
     (case coinbase (e_li E) (e_addr E) s (fork_at + 1) of
        Some (Some cb) \<Rightarrow> reward_below_max (t_reward cb)
      | _ \<Rightarrow> Some True)"

definition fork_reward_ok :: "denv \<Rightarrow> dnode \<Rightarrow> block_store \<Rightarrow> bool option" where
  "fork_reward_ok E node s =
     (if dn_last_block node \<le> fork_reward_at node then Some True
      else ledger_reward_passed E (fork_reward_at node) s)"

text \<open>The dynamic base fee needs the whole window of weights.\<close>

definition set_base_fee :: "denv \<Rightarrow> dnode \<Rightarrow> block_store \<Rightarrow> dnode option" where
  "set_base_fee E node s =
     (if at_fork (dn_last_block node + 1) (dn_fork_height node) then do {
        ws \<leftarrow> recent_block_weights (e_li E) s (dn_last_block node) FEE_WINDOW W_UNIT True;
        f \<leftarrow> base_fee BASE_FEE (map Some ws) TARGET_WEIGHT;
        Some (node\<lparr>dn_fee_post_fork := True, dn_base_fee := Some f\<rparr>) }
      else Some (node\<lparr>dn_fee_post_fork := False, dn_base_fee := Some BASE_FEE\<rparr>))"

definition process_block ::
  "denv \<Rightarrow> (nat \<Rightarrow> lrow list \<Rightarrow> 'p \<Rightarrow> 'p) \<Rightarrow> pystr \<Rightarrow> 'p dstate \<Rightarrow> rawtx list \<Rightarrow> 'p dstate \<times> derr option" where
  "process_block E dispatch ip st block =
     (let s = g_store st;
          node0 = refresh_fork E (g_node st) s;
          st0 = st\<lparr>g_node := node0,
                   g_mempool := (g_mempool st)\<lparr>mp_fork_height := dn_fork_height node0, mp_registry := Some (pkref_get s)\<rparr>\<rparr> in
      if fork_reward_ok E node0 s = None then (st0, Some EOther)
      else if fork_reward_ok E node0 s = Some False then
        (case rollback (e_li E) (e_hash E) (e_addr E) (int (fork_reward_at node0) - 2) (dn_fork_height node0) s of
           None \<Rightarrow> (st0, Some EOther)
         | Some (_, s') \<Rightarrow> (st0\<lparr>g_store := s'\<rparr>, Some ERolling))
      else case set_base_fee E node0 s of
          None \<Rightarrow> (st0\<lparr>g_node := node0\<lparr>dn_fee_post_fork := True\<rparr>\<rparr>, Some EOther)
        | Some node1 \<Rightarrow>
            (case judge_block E node1 s block
                    ((g_mempool st0)\<lparr>mp_base_fee := dn_base_fee node1, mp_fee_post_fork := dn_fee_post_fork node1\<rparr>) of
               ((node2, mp), Inl e) \<Rightarrow> (st0\<lparr>g_node := node2, g_mempool := mp\<rparr>, Some e)
             | ((node2, mp), Inr (rows, bhash, diff_save)) \<Rightarrow>
                 apply_block E dispatch ip (st0\<lparr>g_node := node2, g_mempool := mp\<rparr>) rows bhash diff_save))"

fun process_block_data ::
  "denv \<Rightarrow> (nat \<Rightarrow> lrow list \<Rightarrow> 'p \<Rightarrow> 'p) \<Rightarrow> pystr \<Rightarrow> 'p dstate \<Rightarrow> rawtx list list \<Rightarrow> 'p dstate \<times> derr option" where
  "process_block_data E dispatch ip st [] = (st, None)"
| "process_block_data E dispatch ip st (block # blocks) =
     (if dn_stopping (g_node st) then (st, None)
      else case process_block E dispatch ip st block of
          (st', None) \<Rightarrow> process_block_data E dispatch ip st' blocks
        | (st', Some e) \<Rightarrow> (st', Some e))"

section \<open>The delivery\<close>

text \<open>A peer that delivered an invalid block is penalised, but only by a node in sync and not for a replay.\<close>

definition penalize_sender :: "derr \<Rightarrow> pystr \<Rightarrow> 'p dstate \<Rightarrow> 'p dstate" where
  "penalize_sender e ip st =
     (let synced = (case p_consensus (g_peers st) of None \<Rightarrow> False | Some c \<Rightarrow> c - 5 \<le> int (dn_hdd_block (g_node st))) in
      if synced \<and> \<not> benign e then st\<lparr>g_peers := snd (penalize ip PENALTY_INVALID_BLOCK (g_peers st))\<rparr> else st)"

text \<open>After a rejection the in-memory tip is read back from the ledger and the peer is warned.\<close>

definition handle_processing_error :: "pystr \<Rightarrow> 'p dstate \<Rightarrow> 'p dstate" where
  "handle_processing_error ip st =
     (let st1 = (case store_tip (g_store st) of
            None \<Rightarrow> st
          | Some tip \<Rightarrow> st\<lparr>g_node := (g_node st)\<lparr>dn_last_block := tip,
                dn_last_hash := (case stored_hash_at (g_store st) tip of Some h \<Rightarrow> h | None \<Rightarrow> dn_last_hash (g_node st))\<rparr>\<rparr>) in
      st1\<lparr>g_peers := snd (warning ip 2 (g_peers st1))\<rparr>)"

definition cleanup_after_processing :: "'p dstate \<Rightarrow> 'p dstate" where
  "cleanup_after_processing st =
     st\<lparr>g_node := (g_node st)\<lparr>dn_hdd_block := dn_last_block (g_node st), dn_hdd_hash := dn_last_hash (g_node st)\<rparr>\<rparr>"

definition reject_delivery :: "derr \<Rightarrow> pystr \<Rightarrow> 'p dstate \<Rightarrow> 'p dstate" where
  "reject_delivery e ip st = cleanup_after_processing (handle_processing_error ip (penalize_sender e ip st))"

datatype digest_result = Digested | Rejected | Skipped | Banned

definition digest_block ::
  "denv \<Rightarrow> (nat \<Rightarrow> lrow list \<Rightarrow> 'p \<Rightarrow> 'p) \<Rightarrow> int \<Rightarrow> pystr \<Rightarrow> bool \<Rightarrow> 'p dstate \<Rightarrow> rawtx list list \<Rightarrow> 'p dstate \<times> digest_result" where
  "digest_block E dispatch depth ip locked st data =
     (if is_banned (g_peers st) ip then (st, Banned)
      else if locked then (st, Skipped)
      else case process_block_data E dispatch ip st data of
          (st', Some e) \<Rightarrow> (reject_delivery e ip st', Rejected)
        | (st', None) \<Rightarrow>
            (let st1 = st'\<lparr>g_peers := reward ip REWARD_VALID_BLOCK (g_peers st')\<rparr> in
             case checkpoint_set depth (int (dn_last_block (g_node st1))) of
               None \<Rightarrow> (reject_delivery EOther ip st1, Rejected)
             | Some c \<Rightarrow> (cleanup_after_processing (st1\<lparr>g_checkpoint := c\<rparr>), Digested)))"

end
