(* ===== verification/BlockMoney.thy ===== *)
theory BlockMoney
  imports Digest LedgerQueries
begin

text \<open>
  The money of a digested block in atomic units: the texts \<^verbatim>\<open>process_transaction_balances\<close> stores denote exact
  numbers of units, the coinbase row carries the mining reward and the fees, and the balance check is the
  comparison of units.
\<close>

section \<open>Canonical texts\<close>

lemma from_units_fixed: "from_units (int u) = fixed_str 8 False u"
  by (simp add: from_units_def fixed_str_def SATOSHIS_PER_BIS_def)

lemma ts_str_fixed: "ts_str cs = fixed_str 2 False cs"
  by (simp add: ts_str_def fixed_str_def)

lemma nat_str_append_zero_pad:
  assumes "0 < a" and "b < 10 ^ w"
  shows "nat_str (a * 10 ^ w + b) = nat_str a @ (if w = 0 then [] else zero_pad w b)"
  using assms(2)
proof (induction w arbitrary: b)
  case (Suc w)
  have b: "b div 10 < 10 ^ w" using Suc.prems by (simp add: div_less_iff_less_mult mult.commute)
  have "10 \<le> a * 10 ^ Suc w + b" using assms(1) by (cases a) (auto simp: algebra_simps intro: order_trans [of 10 "10 * 10 ^ w"])
  moreover have "(a * 10 ^ Suc w + b) div 10 = a * 10 ^ w + b div 10" "(a * 10 ^ Suc w + b) mod 10 = b mod 10"
  proof -
    have e: "a * 10 ^ Suc w + b = b + 10 * (a * 10 ^ w)" by simp
    show "(a * 10 ^ Suc w + b) div 10 = a * 10 ^ w + b div 10" "(a * 10 ^ Suc w + b) mod 10 = b mod 10"
      unfolding e by simp_all
  qed
  ultimately have "nat_str (a * 10 ^ Suc w + b) = nat_str (a * 10 ^ w + b div 10) @ [48 + b mod 10]"
    by (subst nat_str.simps) simp
  also have "\<dots> = nat_str a @ (if w = 0 then [] else zero_pad w (b div 10)) @ [48 + b mod 10]" using Suc.IH [OF b] by simp
  also have "(if w = 0 then [] else zero_pad w (b div 10)) @ [48 + b mod 10] = zero_pad (Suc w) b"
  proof (cases "b < 10")
    case True
    have d: "nat_str b = [48 + b]" "nat_str 0 = [48]" using True by (simp_all add: nat_str.simps)
    have "replicate n 48 @ 48 # xs = replicate (Suc n) (48 :: nat) @ xs" for n xs by (simp add: replicate_app_Cons_same)
    then show ?thesis using True by (cases w) (simp_all add: zero_pad_def d)
  next
    case False
    then have "w \<noteq> 0" using Suc.prems by (cases w) auto
    moreover have "nat_str b = nat_str (b div 10) @ [48 + b mod 10]" using False by (subst nat_str.simps) simp
    ultimately show ?thesis by (simp add: zero_pad_def)
  qed
  finally show ?case by simp
qed simp

text \<open>\<^verbatim>\<open>str\<close> of a fee is positional: its first digit is at most six places behind the point.\<close>

lemma dec_str_fee:
  assumes "100 \<le> u"
  shows "dec_str (Fin False u (- 8)) = fixed_str 8 False u"
proof (cases "u < 10 ^ 8")
  case True
  then have len: "length (nat_str u) \<le> 8" using length_nat_str_le [of u 8] by simp
  have "nat_str u = nat_str (u div 10 div 10) @ [48 + u div 10 mod 10] @ [48 + u mod 10]"
    using assms by (subst nat_str.simps, subst nat_str.simps) auto
  moreover have "1 \<le> length (nat_str (u div 10 div 10))" using nat_str_nonempty [of "u div 10 div 10"] by (cases "nat_str (u div 10 div 10)") auto
  ultimately have "3 \<le> length (nat_str u)" by simp
  then show ?thesis
    using True len by (auto simp: fixed_str_def Let_def zero_pad_def lit_def nat_str.simps [of 0] nat_diff_distrib)
next
  case False
  let ?a = "u div 10 ^ 8" and ?b = "u mod 10 ^ 8"
  have a: "0 < ?a" using False by (simp add: div_greater_zero_iff)
  have u: "nat_str u = nat_str ?a @ zero_pad 8 ?b"
    using nat_str_append_zero_pad [OF a, of ?b 8] by (simp add: div_mult_mod_eq)
  have "length (zero_pad 8 ?b) = 8" by (intro length_zero_pad) simp_all
  then show ?thesis using nat_str_nonempty [of ?a] by (auto simp: u fixed_str_def Let_def)
qed

section \<open>Values of decimals\<close>

fun dv :: "decimal \<Rightarrow> rat" where
  "dv (Fin s c e) = of_int (dsigned s c) * p10 e"
| "dv _ = 0"

lemma p10_pos [simp]: "0 < p10 e"
  by (simp add: p10_powi)

lemma p10_nonneg [simp]: "0 \<le> p10 e"
  by (simp add: less_imp_le)

lemma abs_p10 [simp]: "\<bar>p10 e\<bar> = p10 e"
  by (simp add: less_imp_le)

lemma p10_shift: "q \<le> x \<Longrightarrow> p10 x = 10 ^ nat (x - q) * p10 q"
  using p10_add [of "x - q" q] by (simp add: p10_def [of "x - q"])

lemma dv_shift: "q \<le> e \<Longrightarrow> of_int (dsigned s (c * 10 ^ nat (e - q))) * p10 q = dv (Fin s c e)"
  by (simp add: p10_shift [of q e] dsigned_def)

lemma dless_dv: "dless (Fin s c e) (Fin t d f) = Some (dv (Fin s c e) < dv (Fin t d f))"
proof -
  define q where "q = min e f"
  have q: "q \<le> e" "q \<le> f" by (simp_all add: q_def)
  have "(dv (Fin s c e) < dv (Fin t d f)) = (dsigned s (c * 10 ^ nat (e - q)) < dsigned t (d * 10 ^ nat (f - q)))"
    unfolding dv_shift [OF q(1), symmetric] dv_shift [OF q(2), symmetric] mult_less_cancel_right_pos [OF p10_pos] of_int_less_iff ..
  then show ?thesis by (simp only: dless.simps Let_def q_def)
qed

text \<open>Rounding to the precision of the context costs at most one part in \<^verbatim>\<open>10 ^ 27\<close>.\<close>

lemma dfix_dv:
  obtains c' e' where "dfix s c e = Fin s c' e'" and "\<bar>dv (Fin s c' e') - dv (Fin s c e)\<bar> \<le> \<bar>dv (Fin s c e)\<bar> / 10 ^ 27"
proof (cases "ndigits c \<le> prec")
  case True
  then show ?thesis using that by (simp add: dfix_def)
next
  case False
  define k where "k = ndigits c - prec"
  define D :: nat where "D = 10 ^ k"
  have nd: "ndigits c = 28 + k" using False by (simp add: k_def prec_def)
  have "\<not> c < 10 ^ (27 + k)" using ndigits_le_iff [of "27 + k" c] nd by simp
  then have big: "10 ^ 27 * D \<le> c" by (simp add: D_def power_add)
  have err: "2 * \<bar>int (rhe c D) * int D - int c\<bar> \<le> int D" by (rule rhe_error) (simp add: D_def)
  define c' e' where "c' = (if rhe c D = 10 ^ prec then 10 ^ (prec - 1) else rhe c D)"
    and "e' = (if rhe c D = 10 ^ prec then e + int k + 1 else e + int k)"
  have eq: "dfix s c e = Fin s c' e'" using False by (simp add: dfix_def Let_def k_def D_def c'_def e'_def)
  have p: "p10 (e + int k) = of_nat D * p10 e" by (simp add: p10_shift [of e "e + int k"] D_def)
  have "of_nat c' * p10 e' = of_nat (rhe c D) * p10 (e + int k)"
    by (auto simp: c'_def e'_def prec_def p10_shift [of "e + int k" "e + int k + 1"])
  then have v: "dv (Fin s c' e') - dv (Fin s c e) = (if s then - 1 else 1) * (of_int (int (rhe c D) * int D - int c) * p10 e)"
    by (simp add: dsigned_def p algebra_simps)
  have "of_int (2 * \<bar>int (rhe c D) * int D - int c\<bar>) \<le> (of_int (int D) :: rat)" using err by (simp only: of_int_le_iff)
  then have "\<bar>of_int (int (rhe c D) * int D - int c) :: rat\<bar> \<le> of_nat D" by simp
  then have 1: "\<bar>dv (Fin s c' e') - dv (Fin s c e)\<bar> \<le> of_nat D * p10 e"
    unfolding v by (simp add: abs_mult mult_right_mono less_imp_le)
  have "(of_nat (10 ^ 27 * D) :: rat) \<le> of_nat c" using big by (simp only: of_nat_le_iff)
  then have "of_nat D * p10 e \<le> of_nat c * p10 e / 10 ^ 27" by (simp add: field_simps)
  moreover have "\<bar>dv (Fin s c e)\<bar> = of_nat c * p10 e" by (simp add: dsigned_def abs_mult)
  ultimately have "of_nat D * p10 e \<le> \<bar>dv (Fin s c e)\<bar> / 10 ^ 27" by (simp only:)
  from order_trans [OF 1 this] have "\<bar>dv (Fin s c' e') - dv (Fin s c e)\<bar> \<le> \<bar>dv (Fin s c e)\<bar> / 10 ^ 27" .
  then show ?thesis using that eq by blast
qed

lemma dadd_dv:
  obtains u c q where "dadd (Fin s a e) (Fin t b f) = Some (Fin u c q)"
    and "\<bar>dv (Fin u c q) - (dv (Fin s a e) + dv (Fin t b f))\<bar> \<le> \<bar>dv (Fin s a e) + dv (Fin t b f)\<bar> / 10 ^ 27"
    and "u \<longrightarrow> s \<or> t"
proof -
  define q where "q = min e f"
  define v where "v = dsigned s (a * 10 ^ nat (e - q)) + dsigned t (b * 10 ^ nat (f - q))"
  define u where "u = (v < 0 \<or> v = 0 \<and> s \<and> t)"
  have q: "q \<le> e" "q \<le> f" by (simp_all add: q_def)
  have "dsigned u (nat \<bar>v\<bar>) = v" by (auto simp: dsigned_def u_def)
  then have val: "dv (Fin u (nat \<bar>v\<bar>) q) = dv (Fin s a e) + dv (Fin t b f)"
    unfolding dv_shift [OF q(1), symmetric] dv_shift [OF q(2), symmetric] by (simp add: v_def distrib_right)
  obtain c' e' where c': "dfix u (nat \<bar>v\<bar>) q = Fin u c' e'"
    "\<bar>dv (Fin u c' e') - dv (Fin u (nat \<bar>v\<bar>) q)\<bar> \<le> \<bar>dv (Fin u (nat \<bar>v\<bar>) q)\<bar> / 10 ^ 27"
    by (rule dfix_dv)
  have "dadd (Fin s a e) (Fin t b f) = Some (Fin u c' e')"
    using c'(1) by (simp only: dadd.simps Let_def q_def v_def u_def)
  moreover have "u \<longrightarrow> s \<or> t" by (auto simp: u_def v_def dsigned_def not_less)
  ultimately show ?thesis using that [of u c' e'] c'(2) unfolding val by blast
qed

lemma dadd_pos:
  obtains c q where "dadd (Fin False a e) (Fin False b f) = Some (Fin False c q)"
    and "\<bar>dv (Fin False c q) - (dv (Fin False a e) + dv (Fin False b f))\<bar> \<le> (dv (Fin False a e) + dv (Fin False b f)) / 10 ^ 27"
proof -
  let ?v = "dv (Fin False a e) + dv (Fin False b f)"
  obtain u c q where c: "dadd (Fin False a e) (Fin False b f) = Some (Fin u c q)"
    and v: "\<bar>dv (Fin u c q) - ?v\<bar> \<le> \<bar>?v\<bar> / 10 ^ 27" and "u \<longrightarrow> False \<or> False"
    by (rule dadd_dv [of False a e False b f])
  then have u: "u = False" by simp
  have "\<bar>?v\<bar> = ?v" by (simp add: dsigned_def)
  then show ?thesis using that [OF c [unfolded u]] v unfolding u by simp
qed

section \<open>The mining reward\<close>

lemma float_dec_dv:
  assumes "0 \<le> r"
  obtains c e where "float_dec r = Fin False c e" and "r \<le> dv (Fin False c e)" and "dv (Fin False c e) \<le> 2 * r"
proof -
  obtain p q where pq: "quotient_of r = (p, q)" by (cases "quotient_of r")
  then have r: "r = of_int p / of_int q" and q: "0 < q" using quotient_of_div quotient_of_denom_pos by auto
  with assms have p: "0 \<le> p" by (simp add: zero_le_divide_iff)
  define k where "k = pow2_exp (nat q)"
  have "2 ^ k \<le> nat q" "nat q < 2 ^ Suc k" using pow2_exp_bounds [of "nat q"] q by (simp_all add: k_def)
  then have "int (2 ^ k) \<le> q" "q < int (2 ^ Suc k)" using q by (simp_all add: nat_less_iff le_nat_iff)
  then have "(of_int (int (2 ^ k)) :: rat) \<le> of_int q" "(of_int q :: rat) \<le> of_int (int (2 ^ Suc k))"
    by (simp_all only: of_int_le_iff)
  then have k: "(2 :: rat) ^ k \<le> of_int q" "of_int q \<le> 2 * (2 :: rat) ^ k" by simp_all
  have "dv (Fin False (nat \<bar>p\<bar> * 5 ^ k) (- int k)) = of_int p / 2 ^ k"
    using p by (simp add: dsigned_def p10_powi power_int_minus field_simps flip: power_mult_distrib)
  moreover have "of_int p / of_int q \<le> (of_int p / 2 ^ k :: rat)" using p q k(1) by (intro divide_left_mono) auto
  moreover have "of_int p / 2 ^ k \<le> 2 * (of_int p / of_int q :: rat)"
  proof -
    have "of_int p * of_int q \<le> of_int p * (2 * (2 :: rat) ^ k)" using p k(2) by (intro mult_left_mono) auto
    then show ?thesis using q by (simp add: field_simps)
  qed
  moreover have "float_dec r = Fin False (nat \<bar>p\<bar> * 5 ^ k) (- int k)" using p by (simp add: float_dec_def pq k_def)
  ultimately show ?thesis using that by (simp add: r)
qed

lemma float_of_rat_near:
  assumes "0 \<le> r" and "r < pow2 k" and "- 1021 \<le> k" and "k \<le> 1023"
  obtains v where "float_of_rat r = Fl False v" and "0 \<le> v" and "v \<le> r + pow2 (k - 54)"
proof (cases "r = 0")
  case True
  then show ?thesis using that [of 0] by (simp add: float_of_rat_def round_float_def round_mag_def less_imp_le)
next
  case False
  then obtain v where v: "round_mag r = Some v" "\<bar>v - r\<bar> \<le> pow2 (k - 54)" "0 \<le> v"
    using round_mag_error [of r k] assms by auto
  moreover have "float_of_rat r = Fl False v" using v(1) assms(1) by (simp add: float_of_rat_def round_float_def)
  ultimately show ?thesis using that by (auto simp: abs_le_iff)
qed

lemma round_mag_nonneg: "round_mag r = Some v \<Longrightarrow> 0 \<le> v"
  by (auto simp: round_mag_def Let_def less_imp_le split: if_splits)

lemma float_of_rat_neg: "r < 0 \<Longrightarrow> float_less (float_of_rat r) (Fl False (1 / 2))"
  using round_mag_nonneg by (fastforce simp: float_of_rat_def round_float_def split: option.split)

lemma float_reward_dv:
  assumes "fork_at \<le> height" and "height < 10 ^ 18"
  obtains c e where "float_reward height fork_at = Fin False c e" and "1 / 2 \<le> dv (Fin False c e)" and "dv (Fin False c e) < 64"
proof -
  let ?q = "of_int (int height - int fork_at) / of_nat 1100000 :: rat"
  have "(of_nat (height - fork_at) :: rat) < of_nat (10 ^ 18)" using assms by (simp only: of_nat_less_iff)
  then have "?q < 10 ^ 18" using assms(1) by (simp add: of_nat_diff)
  then have "?q < pow2 60" by (simp add: pow2_def)
  then obtain x where x: "int_div_float (int height - int fork_at) 1100000 = Fl False x" "0 \<le> x"
    using float_of_rat_near [of ?q 60] assms(1) by (auto simp: int_div_float_def)
  define y where "y = int_sub_float 15 (Fl False x)"
  define r where "r = float_sub_rat y (19 / 2)"
  have fr: "float_reward height fork_at = (if float_less r (Fl False (1 / 2)) then Fin False 5 (- 1) else fl_dec r)"
    by (simp add: float_reward_def x(1) y_def r_def)
  show ?thesis
  proof (cases "float_less r (Fl False (1 / 2))")
    case True
    then show ?thesis using that [of 5 "- 1"] fr by (simp add: dsigned_def p10_def)
  next
    case False
    have y: "y = float_of_rat (15 - x)" by (simp add: y_def int_sub_float_def)
    have "0 \<le> 15 - x"
    proof (rule ccontr)
      assume "\<not> ?thesis"
      then consider v where "y = Fl True v" "0 \<le> v" | "y = FInf True"
        using y round_mag_nonneg by (auto simp: float_of_rat_def round_float_def split: option.splits)
      then show False using False float_of_rat_neg by cases (auto simp: r_def float_sub_rat_def)
    qed
    moreover have p: "pow2 4 = 16" "pow2 (- 50) < 1" by (simp_all add: pow2_def)
    ultimately obtain w where w: "y = Fl False w" "0 \<le> w" "w \<le> 15 - x + pow2 (4 - 54)"
      using float_of_rat_near [of "15 - x" 4, folded y] x(2) by auto
    have r: "r = float_of_rat (w - 19 / 2)" by (simp add: r_def w(1) float_sub_rat_def)
    have "0 \<le> w - 19 / 2" using False float_of_rat_neg [of "w - 19 / 2"] unfolding r by (meson not_less)
    moreover have "w - 19 / 2 < pow2 4" using w(3) x(2) p by simp
    ultimately obtain m where m: "r = Fl False m" "0 \<le> m" "m \<le> w - 19 / 2 + pow2 (4 - 54)"
      using float_of_rat_near [of "w - 19 / 2" 4, folded r] by auto
    then obtain c e where "fl_dec r = Fin False c e" "m \<le> dv (Fin False c e)" "dv (Fin False c e) \<le> 2 * m"
      using float_dec_dv [of m] by auto
    moreover have "1 / 2 \<le> m" using False m(1) by simp
    moreover have "2 * m < 64" using m(3) w(3) x(2) p by simp
    ultimately show ?thesis using that [of c e] fr False by (simp add: m(1))
  qed
qed

lemma dadd_le:
  assumes "dadd (Fin s a e) (Fin t b f) = Some d"
  obtains u c q where "d = Fin u c q" and "dv d \<le> max (2 * (dv (Fin s a e) + dv (Fin t b f))) 0"
proof -
  let ?v = "dv (Fin s a e) + dv (Fin t b f)"
  obtain u c q where d: "dadd (Fin s a e) (Fin t b f) = Some (Fin u c q)" and v: "\<bar>dv (Fin u c q) - ?v\<bar> \<le> \<bar>?v\<bar> / 10 ^ 27"
    using dadd_dv by blast
  have "\<bar>?v\<bar> / 10 ^ 27 \<le> \<bar>?v\<bar>" by (simp add: field_simps)
  then have "dv (Fin u c q) \<le> ?v + \<bar>?v\<bar>" using v by linarith
  also have "x + \<bar>x\<bar> = max (2 * x) 0" for x :: rat by (simp add: max_def abs_if)
  finally show ?thesis using that [of u c q] d assms by (simp only: option.inject)
qed

lemma dless_half:
  assumes "dless (Fin s c e) (Fin False 5 (- 1)) = Some False"
  shows "\<not> s" and "1 / 2 \<le> dv (Fin s c e)"
proof -
  have "dv (Fin False 5 (- 1)) = 1 / 2" by (simp add: dsigned_def p10_def)
  then show h: "1 / 2 \<le> dv (Fin s c e)" using assms unfolding dless_dv option.inject by (simp only: not_less simp_thms)
  have "dv (Fin True c e) \<le> 0" by (simp add: dsigned_def)
  then show "\<not> s" using h by (cases s) auto
qed

lemma reward_dv:
  assumes "calculate_mining_reward node height = Some d" and "height = dn_last_block node + 1" and "height < 10 ^ 18"
  obtains c e where "d = Fin False c e" and "1 / 2 \<le> dv (Fin False c e)" and "dv (Fin False c e) < 64"
proof -
  consider f where "d = float_reward height f" "f \<le> height"
    | h k x r1 r low where "dquantize (int_dec (int height)) (- 8) = Some h" "dquantize (int_dec 500000) (- 8) = Some k"
        "ddiv h k = Some x" "dsub (int_dec 15) x = Some r1" "dsub r1 (Fin False 24 (- 1)) = Some r"
        "dless r (Fin False 5 (- 1)) = Some low" "d = (if low then Fin False 5 (- 1) else r)"
    using assms(1,2) unfolding calculate_mining_reward_def dtx_quantize_eight_def
    by (auto split: if_split_asm elim!: bind_SomeE simp del: dquantize.simps)
  then show ?thesis
  proof cases
    case 1
    then show ?thesis using float_reward_dv [OF _ assms(3)] that by metis
  next
    case 2
    obtain a b where hk: "h = Fin False a (- 8)" "k = Fin False b (- 8)"
      using 2(1,2) by (auto simp: int_dec_def Let_def split: if_splits)
    then have "0 < b" using 2(3) by (cases b) (auto simp: ddiv_fin_def)
    then obtain c e where x: "x = Fin False c e" using ddiv_Fin [of b a "- 8" "- 8"] 2(3) hk by auto
    have "dadd (Fin False 15 0) (Fin True c e) = Some r1" using 2(4) by (simp add: dsub_def x int_dec_def)
    then obtain u1 c1 e1 where r1: "r1 = Fin u1 c1 e1" "dv r1 \<le> max (2 * (dv (Fin False 15 0) + dv (Fin True c e))) 0"
      by (rule dadd_le)
    have "dadd r1 (Fin True 24 (- 1)) = Some r" using 2(5) by (simp add: dsub_def)
    then obtain u c2 e2 where r: "r = Fin u c2 e2" "dv r \<le> max (2 * (dv r1 + dv (Fin True 24 (- 1)))) 0"
      unfolding r1(1) by (rule dadd_le)
    have "dv (Fin False 15 0) = 15" "dv (Fin True c e) \<le> 0" "dv (Fin True 24 (- 1)) \<le> 0" by (simp_all add: dsigned_def p10_def)
    then have "dv r < 64" using r1(2) r(2) by (auto simp: max_def split: if_splits)
    show ?thesis
    proof (cases low)
      case True
      then show ?thesis using 2(7) that [of 5 "- 1"] by (simp add: dsigned_def p10_def)
    next
      case False
      then have "\<not> u" "1 / 2 \<le> dv r" using dless_half 2(6) r(1) by auto
      then show ?thesis using \<open>dv r < 64\<close> r(1) False 2(7) that by auto
    qed
  qed
qed

section \<open>The coinbase row\<close>

lemma coins_dv: "coins d u \<Longrightarrow> dv d = of_int u * p10 (- 8)"
proof -
  assume "coins d u"
  then obtain s c e where d: "d = Fin s c e" "- 8 \<le> e" "u = dsigned s (c * 10 ^ nat (e - - 8))"
    by (auto simp: coins_def)
  show "dv d = of_int u * p10 (- 8)" unfolding d(1,3) dv_shift [OF d(2)] ..
qed

lemma coins_int_dec: "coins (int_dec i) (i * 10 ^ 8)"
  unfolding int_dec_def by (rule coins_int)

lemma coins_units: "coins (Fin False u (- 8)) (int u)"
  by (rule coins_Fin8) (simp add: dsigned_def)

lemma add_fee:
  assumes "coins (Fin False a q) (int t)" and "t + u < 10 ^ 28"
  obtains b r where "dadd (Fin False a q) (Fin False u (- 8)) = Some (Fin False b r)" and "coins (Fin False b r) (int (t + u))"
proof -
  have "int (t + u) < int (10 ^ 28)" using assms(2) by (simp only: of_nat_less_iff)
  then obtain d where d: "dadd (Fin False a q) (Fin False u (- 8)) = Some d" "coins d (int (t + u))"
    using coins_add [OF assms(1) coins_units [of u]] by auto
  obtain b r where "dadd (Fin False a q) (Fin False u (- 8)) = Some (Fin False b r)"
    using dadd_pos [of a q u "- 8"] by meson
  then show ?thesis using that [of b r] d by (simp only: option.inject)
qed

lemma fees_total:
  assumes "coins (Fin False a q) (int t)" and "t + sum_list us < 10 ^ 28"
  obtains b r where "foldM_opt (\<lambda>f acc. dadd acc f) (map (\<lambda>u. Fin False u (- 8)) us) (Fin False a q) = Some (Fin False b r)"
    and "coins (Fin False b r) (int (t + sum_list us))"
  using assms
proof (induction us arbitrary: a q t thesis)
  case Nil
  then show ?case by simp
next
  case (Cons u us)
  have "t + u < 10 ^ 28" "t + u + sum_list us < 10 ^ 28" using Cons.prems(3) by simp_all
  then obtain b r where b: "dadd (Fin False a q) (Fin False u (- 8)) = Some (Fin False b r)" "coins (Fin False b r) (int (t + u))"
    using add_fee [OF Cons.prems(2)] by blast
  obtain b' r' where "foldM_opt (\<lambda>f acc. dadd acc f) (map (\<lambda>u. Fin False u (- 8)) us) (Fin False b r) = Some (Fin False b' r')"
      "coins (Fin False b' r') (int (t + u + sum_list us))"
    using Cons.IH [OF _ b(2)] \<open>t + u + sum_list us < 10 ^ 28\<close> by blast
  then show ?case using Cons.prems(1) b(1) by (simp add: add.assoc)
qed

lemma rescale_error: "\<bar>of_nat (rescale c e (- 8)) - of_nat c * p10 (e + 8)\<bar> \<le> (1 / 2 :: rat)"
proof (cases "- 8 \<le> e")
  case True
  then show ?thesis by (simp add: rescale_def p10_def)
next
  case False
  define D :: nat where "D = 10 ^ nat (- 8 - e)"
  have D: "0 < D" "p10 (e + 8) = 1 / of_nat D" using False by (simp_all add: D_def p10_def algebra_simps)
  have "of_int (2 * \<bar>int (rhe c D) * int D - int c\<bar>) \<le> (of_int (int D) :: rat)" using rhe_error [OF D(1), of c] by (simp only: of_int_le_iff)
  then have "2 * \<bar>of_nat (rhe c D) * of_nat D - of_nat c :: rat\<bar> \<le> of_nat D" by simp
  moreover have "\<bar>of_nat (rhe c D) - of_nat c / of_nat D :: rat\<bar> * of_nat D = \<bar>of_nat (rhe c D) * of_nat D - of_nat c\<bar>"
    using D(1) by (subst abs_mult_pos) (simp_all add: left_diff_distrib)
  ultimately have "\<bar>of_nat (rhe c D) - of_nat c / of_nat D :: rat\<bar> * of_nat D \<le> 1 / 2 * of_nat D" by simp
  then show ?thesis using False D by (simp add: rescale_def D_def [symmetric] mult_le_cancel_right)
qed

lemma p10_eight: "p10 (- 8) * 100000000 = 1" "p10 8 = 100000000"
  by (simp_all add: p10_def)

text \<open>The reward text of the coinbase row: the reward and the fees, off by less than a unit.\<close>

lemma coinbase_text:
  assumes "dadd (Fin False c e) (Fin False t q) = Some r" and "dv (Fin False c e) < 64"
    and "coins (Fin False t q) (int f)" and "f < 10 ^ 26"
  obtains w where "dec_format 8 r = fixed_str 8 False w" and "\<bar>of_nat w - of_nat f - dv (Fin False c e) * 10 ^ 8\<bar> < 1"
    and "w < 10 ^ 28"
proof -
  let ?v = "dv (Fin False c e) + dv (Fin False t q)"
  obtain d p where d0: "dadd (Fin False c e) (Fin False t q) = Some (Fin False d p)"
    and err: "\<bar>dv (Fin False d p) - ?v\<bar> \<le> ?v / 10 ^ 27"
    by (rule dadd_pos [of c e t q])
  have d: "r = Fin False d p" using d0 assms(1) by (simp only: option.inject)
  define x y z where "x = dv (Fin False c e)" and "y = dv (Fin False t q)" and "z = dv (Fin False d p)"
  have f: "y * 10 ^ 8 = of_nat f" using coins_dv [OF assms(3)] by (simp add: y_def p10_eight del: dv.simps)
  have fb: "(of_nat f :: rat) < 10 ^ 26" using assms(4) of_nat_less_iff [of f "10 ^ 26", where 'a = rat] by simp
  have v: "0 \<le> x" "0 \<le> y" "x < 64" using assms(2) by (simp_all add: x_def y_def dsigned_def)
  then have v2: "(x + y) * 10 ^ 8 < 2 * 10 ^ 26" using f fb by (simp add: distrib_right)
  have p: "of_nat d * p10 (p + 8) = z * 10 ^ 8" by (simp add: z_def dsigned_def p10_add p10_eight)
  have "\<bar>z - (x + y)\<bar> \<le> (x + y) / 10 ^ 27" using err unfolding x_def y_def z_def .
  then have "\<bar>z - (x + y)\<bar> * 10 ^ 8 \<le> (x + y) / 10 ^ 27 * 10 ^ 8" by (intro mult_right_mono) simp_all
  then have "\<bar>z * 10 ^ 8 - (x + y) * 10 ^ 8\<bar> \<le> (x + y) * 10 ^ 8 / 10 ^ 27"
    unfolding left_diff_distrib [symmetric] abs_mult by simp
  also have "\<dots> < 1 / 2" using v2 by simp
  finally have "\<bar>of_nat (rescale d p (- 8)) - (x + y) * 10 ^ 8\<bar> < 1" using rescale_error [of d p] unfolding p by linarith
  then have w: "\<bar>of_nat (rescale d p (- 8)) - of_nat f - x * 10 ^ 8\<bar> < 1"
    unfolding distrib_right f by (simp add: algebra_simps)
  then have "(of_nat (rescale d p (- 8)) :: rat) < of_nat (10 ^ 28)" using fb v(3) by (simp add: abs_less_iff)
  then have "rescale d p (- 8) < 10 ^ 28" by (simp only: of_nat_less_iff)
  then show ?thesis using that w d unfolding x_def by simp
qed

section \<open>Canonical transactions\<close>

text \<open>A transaction as nodes send it: the amount with eight decimals and the timestamp with two, both in the range
  in which a double keeps them.\<close>

definition wire_units :: "rawtx \<Rightarrow> nat" where
  "wire_units x = (case x_amount x of
     TStr t \<Rightarrow> (case to_units (PStr t) of Some u \<Rightarrow> nat u | None \<Rightarrow> 0) | _ \<Rightarrow> 0)"

definition canonical :: "rawtx \<Rightarrow> bool" where
  "canonical x \<longleftrightarrow> x_amount x = TStr (from_units (int (wire_units x))) \<and> wire_units x < 2 ^ 26 * 10 ^ 8 \<and>
     (\<exists>cs < 2 ^ 45 * 10 ^ 2. x_ts x = TStr (ts_str cs))"

definition row_op :: "bool \<Rightarrow> rawtx \<Rightarrow> pystr" where
  "row_op post_fork x = (if post_fork then x_op x else take 30 (x_op x))"

definition row_of :: "bool \<Rightarrow> rawtx \<Rightarrow> pystr" where
  "row_of post_fork x = (if post_fork then x_of x else take 100000 (x_of x))"

text \<open>The fee a row is stored with, and the fee its sender is charged with in the totals of the block.\<close>

definition row_fee :: "nat \<Rightarrow> bool \<Rightarrow> rawtx \<Rightarrow> nat" where
  "row_fee b post_fork x = b + 1000 * length (row_of post_fork x) + fee_extra (row_of post_fork x) (row_op post_fork x)"

definition charged_fee :: "nat \<Rightarrow> rawtx \<Rightarrow> nat" where
  "charged_fee b x = b + 1000 * length (x_of x) + fee_extra (x_of x) (x_op x)"

lemma row_fee_le: "row_fee b post_fork x \<le> charged_fee b x"
proof (cases post_fork)
  case False
  have op: "take 30 (x_op x) = lit ''token:issue'' \<longleftrightarrow> x_op x = lit ''token:issue''"
  proof
    assume t: "take 30 (x_op x) = lit ''token:issue''"
    then have "length (take 30 (x_op x)) = 11" by (simp add: lit_def)
    then have "length (x_op x) \<le> 30" by (simp add: min_def split: if_splits)
    then show "x_op x = lit ''token:issue''" using t by simp
  qed (simp add: lit_def)
  have "prefix (lit ''alias='') (take 100000 (x_of x)) \<Longrightarrow> prefix (lit ''alias='') (x_of x)"
    using prefix_order.trans [OF _ take_is_prefix] .
  then have "fee_extra (take 100000 (x_of x)) (take 30 (x_op x)) \<le> fee_extra (x_of x) (x_op x)"
    by (auto simp: fee_extra_def op)
  then show ?thesis using False by (simp add: row_fee_def charged_fee_def row_of_def row_op_def add_mono)
qed (simp add: row_fee_def charged_fee_def row_of_def row_op_def)

lemma canonical_amount:
  assumes "canonical x"
  shows "wire_dec (x_amount x) = Some (Fin False (wire_units x) (- 8))"
    and "fmt_dec 8 (Fin False (wire_units x) (- 8)) = Some (from_units (int (wire_units x)))"
    and "dtx_quantize_eight (Fin False (wire_units x) (- 8)) = Some (Fin False (wire_units x) (- 8))"
    and "wire_units x < 10 ^ 28"
proof -
  have a: "x_amount x = TStr (from_units (int (wire_units x)))" and u: "wire_units x < 2 ^ 26 * 10 ^ 8"
    using assms by (simp_all add: canonical_def)
  show b: "wire_units x < 10 ^ 28" using u by simp
  show "wire_dec (x_amount x) = Some (Fin False (wire_units x) (- 8))"
    unfolding wire_dec_def a by (simp add: from_units_parse)
  show "fmt_dec 8 (Fin False (wire_units x) (- 8)) = Some (from_units (int (wire_units x)))"
    using fmt_dec_exact [OF u] by (simp add: from_units_fixed)
  show "dtx_quantize_eight (Fin False (wire_units x) (- 8)) = Some (Fin False (wire_units x) (- 8))"
    unfolding dtx_quantize_eight_def using b by (simp only: dquantize_Fin_iff rescale_same prec_def simp_thms)
qed

lemma canonical_time:
  assumes "canonical x"
  obtains cs where "wire_dec (x_ts x) = Some (Fin False cs (- 2))" and "fmt_dec 2 (Fin False cs (- 2)) = Some (ts_str cs)"
    and "dtx_quantize_two (Fin False cs (- 2)) = Some (Fin False cs (- 2))" and "cs < 10 ^ 28" and "x_ts x = TStr (ts_str cs)"
proof -
  obtain cs where cs: "cs < 2 ^ 45 * 10 ^ 2" "x_ts x = TStr (ts_str cs)" using assms by (auto simp: canonical_def)
  have b: "cs < 10 ^ 28" using cs(1) by simp
  have "wire_dec (x_ts x) = Some (Fin False cs (- 2))" unfolding wire_dec_def cs(2) by (simp add: dec_parse_ts_str)
  moreover have "fmt_dec 2 (Fin False cs (- 2)) = Some (ts_str cs)" using fmt_dec_exact_two [OF cs(1)] by (simp add: ts_str_fixed)
  moreover have "dtx_quantize_two (Fin False cs (- 2)) = Some (Fin False cs (- 2))"
    unfolding dtx_quantize_two_def using b by (simp only: dquantize_Fin_iff rescale_same prec_def simp_thms)
  ultimately show ?thesis using that b cs(2) by blast
qed

lemma stored_text:
  assumes "stored_num li (PStr (fixed_str 8 False u)) (fixed_str 8 False u) = Some t" and "u < 10 ^ 28"
  shows "ledger_num li t u"
proof -
  have "int u < int (10 ^ 28)" using assms(2) by (simp only: of_nat_less_iff)
  then have "to_units (PStr (from_units (int u))) = Some (int u)" by (intro to_units_from_units) simp
  then show ?thesis using assms by (auto simp: stored_num_def ledger_num_def num_str_def from_units_fixed split: if_splits)
qed

lemma stored_fee:
  assumes "stored_num li (PDec (Fin False u (- 8))) (dec_str (Fin False u (- 8))) = Some t" and "u < 10 ^ 28" and "100 \<le> u"
  shows "ledger_num li t u"
  using assms to_units_Fin [of "PDec (Fin False u (- 8))" False u "- 8"] dec_str_fee [OF assms(3)]
  by (auto simp: stored_num_def ledger_num_def num_str_def from_units_fixed dsigned_def prec_def simp del: dec_str.simps split: if_splits)

lemma stored_zero: "stored_num li (PInt 0) (lit ''0'') = Some t \<Longrightarrow> ledger_num li t 0"
proof -
  assume t: "stored_num li (PInt 0) (lit ''0'') = Some t"
  have "to_units (PInt 0) = Some 0" "lit ''0'' = int_str 0" by code_simp+
  then show "ledger_num li t 0" using t by (auto simp: stored_num_def ledger_num_def num_str_def split: if_splits)
qed

section \<open>One row\<close>

text \<open>The conditions on the base fee of the node and on the fields of a block under which every sum is exact.\<close>

definition fee_base :: "dnode \<Rightarrow> nat \<Rightarrow> bool" where
  "fee_base node b \<longleftrightarrow> 100 \<le> b \<and> coins (case dn_base_fee node of None \<Rightarrow> BASE_FEE | Some d \<Rightarrow> d) (int b)"

definition block_canonical :: "nat \<Rightarrow> rawtx list \<Rightarrow> bool" where
  "block_canonical b block \<longleftrightarrow> (\<forall>x \<in> set block. canonical x \<and> length (x_addr x) \<le> 56 \<and> length (x_recip x) \<le> 56) \<and>
     (\<Sum>x\<leftarrow>block. wire_units x + charged_fee b x + 10 ^ 9) < 10 ^ 26"

lemma fee_calculate_fields:
  assumes "fee_base node b" and "b + 1000 * length openfield + 10 ^ 9 < 10 ^ 28"
  shows "fee_calculate openfield operation (dn_base_fee node) =
    Some (Fin False (b + 1000 * length openfield + fee_extra openfield operation) (- 8))"
  using assms by (intro fee_calculate_units) (simp_all add: fee_base_def)

lemma charged_fee_bound: "b + 1000 * length (x_of x) + 10 ^ 9 \<le> charged_fee b x + 10 ^ 9"
  by (simp add: charged_fee_def)

lemma row_fee_bound: "b + 1000 * length (row_of pf x) + 10 ^ 9 \<le> charged_fee b x + 10 ^ 9"
proof -
  have "length (row_of pf x) \<le> length (x_of x)" by (simp add: row_of_def)
  then show ?thesis by (simp add: charged_fee_def)
qed

lemma digest_row_fields:
  assumes "digest_row E node s height bhash block oldest idx x fees = Inr (r, fees')" and "canonical x"
    and pf_def: "pf = at_fork height (dn_fork_height node)"
  obtains am fe rw where
    "row_money E node s height block idx x (from_units (int (wire_units x))) (row_op pf x) (row_of pf x) fees = Some (am, fe, rw, fees')"
    and "r_h r = height" and "r_addr r = take 56 (x_addr x)" and "r_recip r = take 56 (x_recip x)" and "r_amount r = am"
    and "r_fee r = fe" and "r_reward r = rw" and "\<exists>cs < 10 ^ 28. r_ts r = ts_str cs \<and> x_ts x = TStr (ts_str cs)"
    and "r_sig r = take MAX_TX_SIGNATURE_LEN (x_sig x)" and "r_op r = row_op pf x" and "r_of r = row_of pf x"
    and "r_pub r = PubText (take MAX_TX_PUBKEY_LEN (x_pub x))"
proof -
  obtain cs where cs: "wire_dec (x_ts x) = Some (Fin False cs (- 2))" "fmt_dec 2 (Fin False cs (- 2)) = Some (ts_str cs)"
      "dtx_quantize_two (Fin False cs (- 2)) = Some (Fin False cs (- 2))" "cs < 10 ^ 28" "x_ts x = TStr (ts_str cs)"
    using canonical_time [OF assms(2)] by blast
  note a = canonical_amount [OF assms(2)]
  from assms(1) obtain am fe rw where
    "row_money E node s height block idx x (from_units (int (wire_units x))) (row_op pf x) (row_of pf x) fees = Some (am, fe, rw, fees')"
    "r = \<lparr>r_h = height, r_ts = ts_str cs, r_addr = take 56 (x_addr x), r_recip = take 56 (x_recip x), r_amount = am,
         r_sig = take MAX_TX_SIGNATURE_LEN (x_sig x), r_pub = PubText (take MAX_TX_PUBKEY_LEN (x_pub x)),
         r_hash = bhash, r_fee = fe, r_reward = rw, r_op = row_op pf x, r_of = row_of pf x\<rparr>"
    unfolding digest_row_def need_def
    by (auto simp: cs(1-3) a pf_def row_op_def row_of_def Let_def split: option.splits bool.splits elim!: bind_SomeE)
  then show ?thesis using that cs(4,5) by auto
qed

lemma row_money_tx:
  assumes "row_money E node s height block idx x (from_units (int u)) (row_op pf x) (row_of pf x) fees = Some (am, fe, rw, fees')"
    and "idx + 1 \<noteq> length block" and b: "fee_base node b" and "u < 10 ^ 28" and "charged_fee b x + 10 ^ 9 < 10 ^ 28"
  shows "ledger_num (e_li E) am u" and "ledger_num (e_li E) fe (row_fee b pf x)" and "ledger_num (e_li E) rw 0"
    and "fees' = fees @ [Fin False (row_fee b pf x) (- 8)]"
    and "\<exists>d f. calculate_address_totals node block (take 56 (x_addr x)) = Some (d, f) \<and>
           validate_balance E node s (take 56 (x_addr x)) d f = Some ()"
proof -
  let ?f = "row_fee b pf x"
  have "b + 1000 * length (row_of pf x) + 10 ^ 9 < 10 ^ 28" using row_fee_bound [of b pf x] assms(5) by linarith
  from fee_calculate_fields [OF b this] have fee: "fee_calculate (row_of pf x) (row_op pf x) (dn_base_fee node) = Some (Fin False ?f (- 8))"
    by (simp add: row_fee_def)
  have f: "?f < 10 ^ 28" "100 \<le> ?f" using row_fee_le [of b pf x] assms(5) b by (auto simp: row_fee_def fee_base_def)
  then have q: "dtx_quantize_eight (Fin False ?f (- 8)) = Some (Fin False ?f (- 8))"
    unfolding dtx_quantize_eight_def by (simp only: dquantize_Fin_iff rescale_same prec_def simp_thms)
  obtain d g where t: "calculate_address_totals node block (take 56 (x_addr x)) = Some (d, g)"
      "validate_balance E node s (take 56 (x_addr x)) d g = Some ()"
      "stored_num (e_li E) (PStr (from_units (int u))) (from_units (int u)) = Some am"
      "stored_num (e_li E) (PDec (Fin False ?f (- 8))) (dec_str (Fin False ?f (- 8))) = Some fe"
      "stored_num (e_li E) (PInt 0) (lit ''0'') = Some rw" "fees' = fees @ [Fin False ?f (- 8)]"
    using assms(1,2) unfolding row_money_def by (auto simp: fee q elim!: bind_SomeE simp del: dec_str.simps)
  show "ledger_num (e_li E) am u" using stored_text t(3) assms(4) by (simp add: from_units_fixed)
  show "ledger_num (e_li E) fe ?f" using stored_fee [OF t(4) f] .
  show "ledger_num (e_li E) rw 0" using stored_zero [OF t(5)] .
  show "fees' = fees @ [Fin False ?f (- 8)]" using t(6) .
  show "\<exists>d f. calculate_address_totals node block (take 56 (x_addr x)) = Some (d, f) \<and>
           validate_balance E node s (take 56 (x_addr x)) d f = Some ()" using t(1,2) by blast
qed

lemma row_money_coinbase:
  assumes "row_money E node s height block idx x am0 op opf (map (\<lambda>u. Fin False u (- 8)) us) = Some (am, fe, rw, fees')"
    and "idx + 1 = length block" and "sum_list us < 10 ^ 26" and "height = dn_last_block node + 1" and "height < 10 ^ 18"
  obtains c e w where "calculate_mining_reward node height = Some (Fin False c e)"
    and "ledger_num (e_li E) am 0" and "ledger_num (e_li E) fe 0" and "ledger_num (e_li E) rw w"
    and "\<bar>of_nat w - of_nat (sum_list us) - dv (Fin False c e) * 10 ^ 8\<bar> < 1"
    and "canonical x \<Longrightarrow> wire_units x = 0"
proof -
  obtain reward total r z where r: "calculate_mining_reward node height = Some reward"
      "foldM_opt (\<lambda>f acc. dadd acc f) (map (\<lambda>u. Fin False u (- 8)) us) (int_dec 0) = Some total"
      "dadd reward total = Some r" "stored_num (e_li E) (PInt 0) (lit ''0'') = Some am"
      "stored_num (e_li E) (PInt 0) (lit ''0'') = Some fe" "stored_num (e_li E) (PStr (dec_format 8 r)) (dec_format 8 r) = Some rw"
      "typed_float (x_amount x) = Some z" "float_zero z"
    using assms(1,2) unfolding row_money_def by (auto elim!: bind_SomeE split: if_splits)
  obtain c e where ce: "reward = Fin False c e" "dv (Fin False c e) < 64" using reward_dv [OF r(1) assms(4,5)] by metis
  have "coins (Fin False 0 0) (int 0)" using coins_int [of 0] by simp
  then obtain t q where t: "total = Fin False t q" "coins (Fin False t q) (int (sum_list us))"
    using fees_total [of 0 0 0 us] assms(3) r(2) by (auto simp: int_dec_def)
  obtain w where w: "dec_format 8 r = fixed_str 8 False w" "\<bar>of_nat w - of_nat (sum_list us) - dv (Fin False c e) * 10 ^ 8\<bar> < 1" "w < 10 ^ 28"
    using coinbase_text [OF r(3) [unfolded ce(1) t(1)] ce(2) t(2) assms(3)] by blast
  have "ledger_num (e_li E) rw w" using stored_text [OF _ w(3)] r(6) unfolding w(1) .
  moreover have "wire_units x = 0" if "canonical x"
  proof -
    have x: "x_amount x = TStr (num_str False (int (wire_units x)))" using that by (simp add: canonical_def num_str_def)
    note n = num_str_text [of False "wire_units x"]
    obtain e where e: "dec_parse (num_str False (int (wire_units x))) = Some (Fin False (wire_units x) e)" "- 8 \<le> e" "e \<le> 0"
      using n(5) by blast
    obtain f where f: "dec_float (Fin False (wire_units x) e) = Some f" "float_zero f \<longleftrightarrow> wire_units x = 0"
      using dec_float_zero_iff [OF e(2,3)] by blast
    then show ?thesis using r(7,8) float_str_numeral [OF n(1-4) e(1)] unfolding x by simp
  qed
  ultimately show ?thesis using that [OF r(1) [unfolded ce(1)] stored_zero [OF r(4)] stored_zero [OF r(5)] _ w(2)] by blast
qed

text \<open>The content id of a stored row is that of the transaction on the wire.\<close>

lemma ledger_value_units:
  assumes "ledger_num li v u"
  shows "ledger_value li (PStr v) = Some (Fin False u (- 8))"
proof (cases li)
  case False
  then show ?thesis using ledger_num_quantize assms by (simp add: ledger_value_def)
next
  case True
  have v: "v = nat_str u" "v \<noteq> []" and b: "\<bar>int u\<bar> < 10 ^ 28"
    using assms True ledger_num_nonempty [OF assms] ledger_num_bound [OF assms] by (simp_all add: ledger_num_def num_str_def int_str_int)
  obtain d where d: "ddiv (Fin (int u < 0) (nat \<bar>int u\<bar>) 0) (Fin False (10 ^ 8) 0) = Some d" "coins d (int u)"
    using coins_div_power [of 8 u False] nat_abs_small [OF b] by (auto simp: dsigned_def)
  obtain s where s: "quantize_eight (PDec d) = Some (Fin s u (- 8))" "dsigned s u = int u"
    using coins_quantize_eight [OF d(2) b] by auto
  have "quantize_eight (PDec d) = Some (Fin False u (- 8))"
  proof (cases "u = 0")
    case True
    then have "falsy (PDec d)" using d(2) by (auto simp: coins_def dsigned_def split: if_splits)
    then show ?thesis using True by (simp add: quantize_eight_def quantize_dp_def)
  next
    case False
    then show ?thesis using s by (cases s) (auto simp: dsigned_def)
  qed
  then have "to_decimal (int u) = Some (Fin False u (- 8))" using d(1) by (simp add: to_decimal_def SATOSHIS_PER_BIS_def)
  then show ?thesis using True v py_int_int_str [of "int u", unfolded int_str_int] by (simp add: ledger_value_def)
qed

lemma txid_of_row:
  assumes "ledger_num li (r_amount r) u" and "u < 2 ^ 26 * 10 ^ 8" and "r_h r = h" and "x_ts x = TStr (r_ts r)"
    and "x_amount x = TStr (from_units (int u))" and "r_addr r = x_addr x" and "r_recip r = x_recip x" and "r_op r = x_op x"
    and "r_of r = x_of x"
  shows "txid_of (e_hash E) li r fh = raw_txid E h fh x"
  using ledger_value_units [OF assms(1)] fmt_dec_exact [OF assms(2), of False] assms(3-)
  by (simp add: txid_of_def raw_txid_def from_units_fixed)

end
