(* ===== verification/BlockSpend.thy ===== *)
theory BlockSpend
  imports BlockMoney
begin

text \<open>
  All rows of a digested block and the balances behind them: what the rows of an accepted block pay, that no sender
  pays more than the spendable balance, and what the block does to the sum of all balances.
\<close>

section \<open>All rows of a block\<close>

text \<open>The row of an ordinary transaction, and the coinbase row for the fees of the others.\<close>

definition same_txid :: "denv \<Rightarrow> nat option \<Rightarrow> nat \<Rightarrow> rawtx \<Rightarrow> lrow \<Rightarrow> bool" where
  "same_txid E fh h x r \<longleftrightarrow> (at_fork h fh \<longrightarrow> txid_of (e_hash E) (e_li E) r fh = raw_txid E h fh x) \<and>
     r_addr r = x_addr x \<and> r_recip r = x_recip x \<and> r_pub r = PubText (take MAX_TX_PUBKEY_LEN (x_pub x))"

definition tx_row :: "bool \<Rightarrow> nat \<Rightarrow> bool \<Rightarrow> nat \<Rightarrow> rawtx \<Rightarrow> lrow \<Rightarrow> bool" where
  "tx_row li b pf h x r \<longleftrightarrow> row_wf li h r \<and> r_addr r = x_addr x \<and> ledger_num li (r_amount r) (wire_units x) \<and>
     ledger_num li (r_fee r) (row_fee b pf x) \<and> ledger_num li (r_reward r) 0"

definition mint_row :: "bool \<Rightarrow> dnode \<Rightarrow> nat \<Rightarrow> nat \<Rightarrow> lrow \<Rightarrow> bool" where
  "mint_row li node h fees r \<longleftrightarrow> row_wf li h r \<and> ledger_num li (r_amount r) 0 \<and> ledger_num li (r_fee r) 0 \<and>
     (\<exists>c e w. calculate_mining_reward node h = Some (Fin False c e) \<and> ledger_num li (r_reward r) w \<and>
        \<bar>of_nat w - of_nat fees - dv (Fin False c e) * 10 ^ 8\<bar> < 1)"

definition can_pay :: "denv \<Rightarrow> dnode \<Rightarrow> block_store \<Rightarrow> rawtx list \<Rightarrow> pystr \<Rightarrow> bool" where
  "can_pay E node s block a \<longleftrightarrow> (\<exists>d f. calculate_address_totals node block a = Some (d, f) \<and>
     validate_balance E node s a d f = Some ())"

lemma digest_row_tx:
  assumes "digest_row E node s h bhash block oldest idx x fees = Inr (r, fees')" and "canonical x" and "length (x_addr x) \<le> 56"
    and "length (x_recip x) \<le> 56" and "idx + 1 \<noteq> length block" and "fee_base node b" and "charged_fee b x + 10 ^ 9 < 10 ^ 28"
    and pf_def: "pf = at_fork h (dn_fork_height node)"
  shows "tx_row (e_li E) b pf h x r" and "same_txid E (dn_fork_height node) h x r"
    and "fees' = fees @ [Fin False (row_fee b pf x) (- 8)]" and "can_pay E node s block (x_addr x)"
proof -
  obtain am fe rw where m: "row_money E node s h block idx x (from_units (int (wire_units x))) (row_op pf x) (row_of pf x) fees
      = Some (am, fe, rw, fees')"
    and r: "r_h r = h" "r_addr r = x_addr x" "r_recip r = x_recip x" "r_amount r = am" "r_fee r = fe"
      "r_reward r = rw" "\<exists>cs < 10 ^ 28. r_ts r = ts_str cs \<and> x_ts x = TStr (ts_str cs)" "r_op r = row_op pf x" "r_of r = row_of pf x"
      "r_pub r = PubText (take MAX_TX_PUBKEY_LEN (x_pub x))"
    using digest_row_fields [OF assms(1,2) pf_def] assms(3,4) by (metis take_all)
  note t = row_money_tx [OF m assms(5,6) canonical_amount(4) [OF assms(2)] assms(7)]
  show "tx_row (e_li E) b pf h x r" using t(1-3) r assms(3,4) by (auto simp: tx_row_def row_wf_def short_def)
  show "same_txid E (dn_fork_height node) h x r"
    unfolding same_txid_def using txid_of_row [of "e_li E" r "wire_units x" h x E] t(1) r assms(2)
    by (auto simp: canonical_def pf_def row_op_def row_of_def)
  show "fees' = fees @ [Fin False (row_fee b pf x) (- 8)]" by (rule t(4))
  show "can_pay E node s block (x_addr x)" using t(5) assms(3) by (simp add: can_pay_def)
qed

lemma digest_row_coinbase:
  assumes "digest_row E node s h bhash block oldest idx x (map (\<lambda>u. Fin False u (- 8)) us) = Inr (r, fees')" and "canonical x"
    and "idx + 1 = length block" and "sum_list us < 10 ^ 26" and "h = dn_last_block node + 1" and "h < 10 ^ 18"
    and "length (x_addr x) \<le> 56" and "length (x_recip x) \<le> 56"
  shows "mint_row (e_li E) node h (sum_list us) r" and "same_txid E (dn_fork_height node) h x r"
proof -
  define pf where "pf = at_fork h (dn_fork_height node)"
  obtain am fe rw where m: "row_money E node s h block idx x (from_units (int (wire_units x))) (row_op pf x) (row_of pf x)
      (map (\<lambda>u. Fin False u (- 8)) us) = Some (am, fe, rw, fees')"
    and r: "r_h r = h" "r_addr r = x_addr x" "r_recip r = x_recip x" "r_amount r = am" "r_fee r = fe"
      "r_reward r = rw" "\<exists>cs < 10 ^ 28. r_ts r = ts_str cs \<and> x_ts x = TStr (ts_str cs)" "r_op r = row_op pf x" "r_of r = row_of pf x"
      "r_pub r = PubText (take MAX_TX_PUBKEY_LEN (x_pub x))"
    using digest_row_fields [OF assms(1,2) pf_def] assms(7,8) by (metis take_all)
  obtain c e w where c: "calculate_mining_reward node h = Some (Fin False c e)" "ledger_num (e_li E) am 0" "ledger_num (e_li E) fe 0"
      "ledger_num (e_li E) rw w" "\<bar>of_nat w - of_nat (sum_list us) - dv (Fin False c e) * 10 ^ 8\<bar> < 1" "wire_units x = 0"
    using row_money_coinbase [OF m assms(3-6)] assms(2) by metis
  show "mint_row (e_li E) node h (sum_list us) r"
    unfolding mint_row_def row_wf_def short_def r(1-6) using r(7) c assms(7,8) by (auto simp del: dv.simps)
  show "same_txid E (dn_fork_height node) h x r"
    unfolding same_txid_def using txid_of_row [of "e_li E" r 0 h x E] c(2,6) r assms(2)
    by (auto simp: canonical_def pf_def row_op_def row_of_def)
qed

lemma process_rows_spec:
  assumes "process_rows E node s h bhash block oldest (length pre) xs
      (rows, map (\<lambda>u. Fin False u (- 8)) (map (row_fee b pf) pre)) m = (m', Inr out)"
    and "block = pre @ xs" and "xs \<noteq> []" and "fee_base node b" and "block_canonical b block"
    and "h = dn_last_block node + 1" and "h < 10 ^ 18" and pf_def: "pf = at_fork h (dn_fork_height node)"
  shows "\<exists>txs c. out = rows @ txs @ [c] \<and> list_all2 (tx_row (e_li E) b pf h) (butlast xs) txs \<and>
    mint_row (e_li E) node h (sum_list (map (row_fee b pf) (butlast block))) c \<and>
    (\<forall>x \<in> set (butlast xs). can_pay E node s block (x_addr x)) \<and> list_all2 (same_txid E (dn_fork_height node) h) xs (txs @ [c])"
  using assms(1-3)
proof (induction xs arbitrary: pre rows m)
  case (Cons x xs)
  define us where "us = map (row_fee b pf) pre"
  from Cons.prems(1) obtain r fees' where r: "digest_row E node s h bhash block oldest (length pre) x (map (\<lambda>u. Fin False u (- 8)) us) = Inr (r, fees')"
    and rest: "process_rows E node s h bhash block oldest (length pre + 1) xs (rows @ [r], fees') (delete_transaction (r_sig r) m) = (m', Inr out)"
    by (auto simp: us_def split: sum.splits)
  have x: "canonical x" "length (x_addr x) \<le> 56" "length (x_recip x) \<le> 56"
    using assms(5) Cons.prems(2) by (auto simp: block_canonical_def)
  have "(\<Sum>x\<leftarrow>block. wire_units x + charged_fee b x + 10 ^ 9) < 10 ^ 26" using assms(5) by (simp add: block_canonical_def)
  then have big: "(\<Sum>x\<leftarrow>pre. wire_units x + charged_fee b x + 10 ^ 9) + (charged_fee b x + 10 ^ 9) < 10 ^ 26"
    by (simp add: Cons.prems(2))
  show ?case
  proof (cases "xs = []")
    case True
    have "sum_list us \<le> (\<Sum>x\<leftarrow>pre. wire_units x + charged_fee b x + 10 ^ 9)"
      unfolding us_def by (intro sum_list_mono) (use row_fee_le [of b pf] in \<open>simp add: add_increasing add_increasing2\<close>)
    then have "sum_list us < 10 ^ 26" using big by linarith
    then have "mint_row (e_li E) node h (sum_list us) r" "same_txid E (dn_fork_height node) h x r"
      using digest_row_coinbase [OF r x(1)] True Cons.prems(2) assms(6,7) x(2,3) by simp_all
    then show ?thesis using rest True Cons.prems(2) by (auto simp: us_def)
  next
    case False
    then have "length pre + 1 \<noteq> length block" using Cons.prems(2) by (cases xs) auto
    note d = digest_row_tx [OF r x this assms(4) _ pf_def]
    have b: "charged_fee b x + 10 ^ 9 < 10 ^ 28" using big by simp
    have f: "fees' = map (\<lambda>u. Fin False u (- 8)) (map (row_fee b pf) (pre @ [x]))" using d(3) [OF b] by (simp add: us_def)
    obtain txs c where "out = (rows @ [r]) @ txs @ [c]" "list_all2 (tx_row (e_li E) b pf h) (butlast xs) txs"
        "mint_row (e_li E) node h (sum_list (map (row_fee b pf) (butlast block))) c"
        "\<forall>x \<in> set (butlast xs). can_pay E node s block (x_addr x)" "list_all2 (same_txid E (dn_fork_height node) h) xs (txs @ [c])"
      using Cons.IH [of "pre @ [x]" "rows @ [r]" "delete_transaction (r_sig r) m"] rest [unfolded f] Cons.prems(2) False by auto
    then show ?thesis using d(1,2,4) [OF b] False by (intro exI [of _ "r # txs"] exI [of _ c]) auto
  qed
qed simp

section \<open>Totals and balances\<close>

lemma quantize_coins: "coins d u \<Longrightarrow> \<bar>u\<bar> < 10 ^ 28 \<Longrightarrow> \<exists>q. dtx_quantize_eight d = Some q \<and> coins q u"
  using coins_quantize [of d u] by (auto simp: dtx_quantize_eight_def intro: coins_Fin8)

lemma add_quantize:
  assumes "coins a (int t)" and "coins c (int u)" and "t + u < 10 ^ 28"
  shows "\<exists>d q. dadd a c = Some d \<and> dtx_quantize_eight d = Some q \<and> coins q (int (t + u))"
proof -
  have "int (t + u) < int (10 ^ 28)" using assms(3) by (simp only: of_nat_less_iff)
  then have b: "\<bar>int t + int u\<bar> < 10 ^ 28" by simp
  then show ?thesis using coins_add [OF assms(1,2) b] quantize_coins by fastforce
qed

lemma address_totals_units:
  assumes "fee_base node b" and "\<forall>x \<in> set xs. canonical x"
    and "coins d (int dt)" and "coins f (int ft)"
    and "dt + ft + (\<Sum>x\<leftarrow>xs. wire_units x + charged_fee b x + 10 ^ 9) < 10 ^ 28"
  shows "\<exists>d' f'. address_totals node cb a xs (d, f) = Some (d', f') \<and>
    coins d' (int (dt + (\<Sum>x\<leftarrow>filter (\<lambda>x. x_addr x = a) xs. wire_units x))) \<and>
    coins f' (int (ft + (\<Sum>x\<leftarrow>filter (\<lambda>x. x_addr x = a \<and> \<not> raw_eq x cb) xs. charged_fee b x)))"
  using assms(2-5)
proof (induction xs arbitrary: d f dt ft)
  case (Cons x xs)
  show ?case
  proof (cases "x_addr x = a")
    case False
    then show ?thesis using Cons by simp
  next
    case True
    have x: "canonical x" using Cons.prems(1) by simp
    have amount: "coins (Fin False (wire_units x) (- 8)) (int (wire_units x))" by (rule coins_units)
    have "dt + wire_units x < 10 ^ 28" using Cons.prems(4) by simp
    then obtain s q where q: "dadd d (Fin False (wire_units x) (- 8)) = Some s" "dtx_quantize_eight s = Some q"
        "coins q (int (dt + wire_units x))"
      using add_quantize [OF Cons.prems(2) amount] by blast
    have "b + 1000 * length (x_of x) + 10 ^ 9 < 10 ^ 28" using charged_fee_bound [of b x] Cons.prems(4) by simp
    then have fee: "fee_calculate (x_of x) (x_op x) (dn_base_fee node) = Some (Fin False (charged_fee b x) (- 8))"
      using fee_calculate_fields [OF assms(1)] by (simp add: charged_fee_def)
    have "ft + charged_fee b x < 10 ^ 28" using Cons.prems(4) by simp
    then obtain g p where p: "dadd f (Fin False (charged_fee b x) (- 8)) = Some g" "dtx_quantize_eight g = Some p"
        "coins p (int (ft + charged_fee b x))"
      using add_quantize [OF Cons.prems(3) coins_units] by blast
    show ?thesis
      using True q p fee canonical_amount(1) [OF x] Cons.prems
        Cons.IH [of q "dt + wire_units x" p "ft + charged_fee b x"] Cons.IH [of q "dt + wire_units x" f ft]
      by (cases "raw_eq x cb") (simp_all add: add.assoc)
  qed
qed simp

definition spendable_units :: "denv \<Rightarrow> dnode \<Rightarrow> block_store \<Rightarrow> pystr \<Rightarrow> int option" where
  "spendable_units E node s a = do {
     u \<leftarrow> balance_units s a;
     im \<leftarrow> (if at_fork (dn_last_block node + 1) (dn_fork_height node)
       then reward_units_since (e_li E) (e_addr E) s a (int (dn_last_block node + 1) - int (coinbase_maturity (dn_regnet node)))
       else Some 0);
     Some (u - im) }"

definition waived :: "dnode \<Rightarrow> bool" where
  "waived node \<longleftrightarrow> in_trusted_prefix node (dn_last_block node + 1) \<or> is_exempt node (dn_last_block node + 1) OVERSPEND None"

text \<open>The balance and the immature rewards of an address in the range of exact sums.\<close>

definition moderate :: "denv \<Rightarrow> dnode \<Rightarrow> block_store \<Rightarrow> pystr \<Rightarrow> bool" where
  "moderate E node s a \<longleftrightarrow> pred_option (\<lambda>u. \<bar>u\<bar> < 10 ^ 27) (balance_units s a) \<and>
     pred_option (\<lambda>u. 0 \<le> u \<and> u < 10 ^ 27) (reward_units_since (e_li E) (e_addr E) s a
       (int (dn_last_block node + 1) - int (coinbase_maturity (dn_regnet node))))"

lemma validate_balance_units:
  assumes "validate_balance E node s a d f = Some ()" and "moderate E node s a" and "\<not> waived node"
    and "coins d (int dt)" and "coins f (int ft)" and "dt < 10 ^ 26" and "ft < 10 ^ 26"
  obtains v where "spendable_units E node s a = Some v" and "int (dt + ft) \<le> v"
proof -
  have w: "\<not> in_trusted_prefix node (dn_last_block node + 1)" "\<not> is_exempt node (dn_last_block node + 1) OVERSPEND None"
    using assms(3) by (auto simp: waived_def)
  let ?im = "if at_fork (dn_last_block node + 1) (dn_fork_height node)
       then reward_units_since (e_li E) (e_addr E) s a (int (dn_last_block node + 1) - int (coinbase_maturity (dn_regnet node)))
       else Some 0"
  from assms(1) obtain pre im sp spd b left qd over ql qf rest short where c: "balance s a = Some pre"
      "(if at_fork (dn_last_block node + 1) (dn_fork_height node)
        then immature_coinbase (e_li E) (e_addr E) a (dn_last_block node + 1) s (coinbase_maturity (dn_regnet node))
        else Some (int_dec 0)) = Some im"
      "dsub pre im = Some sp" "dtx_quantize_eight sp = Some spd" "dsub spd d = Some b" "dtx_quantize_eight b = Some left"
      "dtx_quantize_eight d = Some qd" "dless spd qd = Some over" "\<not> over"
      "dtx_quantize_eight left = Some ql" "dtx_quantize_eight f = Some qf" "dsub ql qf = Some rest"
      "dless rest (int_dec 0) = Some short" "\<not> short"
    unfolding validate_balance_def Let_def using w by (auto elim!: bind_SomeE split: if_splits)
  obtain u where u: "balance_units s a = Some u" "to_decimal u = Some pre" using c(1) by (auto simp: balance_def elim!: bind_SomeE)
  have bu: "\<bar>u\<bar> < 10 ^ 27" using assms(2) u(1) by (auto simp: moderate_def)
  then have pre: "coins pre u" using to_decimal_coins [of u] u(2) by simp
  obtain m where m: "?im = Some m" "coins im m" "\<bar>m\<bar> < 10 ^ 27"
  proof (cases "at_fork (dn_last_block node + 1) (dn_fork_height node)")
    case True
    then obtain m where m: "?im = Some m" "to_decimal m = Some im" using c(2) by (auto simp: immature_coinbase_def elim!: bind_SomeE)
    have "\<bar>m\<bar> < 10 ^ 27" using assms(2) m(1) True unfolding moderate_def by auto
    then show ?thesis using that m to_decimal_coins [of m] by simp
  next
    case False
    then show ?thesis using that [of 0] c(2) coins_int_dec [of 0] by simp
  qed
  have dt: "int dt < 10 ^ 26" and ft: "int ft < 10 ^ 26"
    using assms(6,7) of_nat_less_iff [of dt "10 ^ 26", where 'a = int] of_nat_less_iff [of ft "10 ^ 26", where 'a = int] by simp_all
  have sp: "coins sp (u - m)" using coins_sub [OF pre m(2)] bu m(3) c(3) by simp
  then have spd: "coins spd (u - m)" using quantize_coins [OF sp] bu m(3) c(4) by simp
  then have "coins b (u - m - int dt)" using coins_sub [OF spd assms(4)] bu m(3) dt c(5) by simp
  then have "coins left (u - m - int dt)" using quantize_coins [of b] bu m(3) dt c(6) by simp
  then have ql: "coins ql (u - m - int dt)" using quantize_coins [of left] bu m(3) dt c(10) by simp
  have qf: "coins qf (int ft)" using quantize_coins [OF assms(5)] ft c(11) by simp
  have "coins rest (u - m - int dt - int ft)" using coins_sub [OF ql qf] bu m(3) dt ft c(12) by simp
  then have "\<not> u - m - int dt - int ft < 0" using coins_less [OF _ coins_int_dec [of 0]] c(13,14) by simp
  moreover have "spendable_units E node s a = Some (u - m)" using u(1) m(1) by (simp add: spendable_units_def)
  ultimately show ?thesis using that [of "u - m"] by simp
qed

section \<open>What the rows pay\<close>

definition paid :: "bool \<Rightarrow> lrow list \<Rightarrow> pystr \<Rightarrow> int" where
  "paid li rows a = (\<Sum>r\<leftarrow>filter (\<lambda>r. r_addr r = a) rows. money li (r_amount r) + money li (r_fee r))"

lemma money_ledger_num: "ledger_num li v u \<Longrightarrow> money li v = int u"
  by (simp add: money_def units_ledger_num)

lemma paid_append: "paid li (xs @ ys) a = paid li xs a + paid li ys a"
  by (simp add: paid_def)

lemma paid_tx_rows:
  assumes "list_all2 (tx_row li b pf h) xs txs"
  shows "paid li txs a = int (\<Sum>x\<leftarrow>filter (\<lambda>x. x_addr x = a) xs. wire_units x + row_fee b pf x)"
  using assms by induction (auto simp: paid_def tx_row_def money_ledger_num)

lemma paid_mint_row: "mint_row li node h f c \<Longrightarrow> paid li [c] a = 0"
  by (auto simp: paid_def mint_row_def money_ledger_num)

lemma sum_list_filter_mono:
  assumes "\<And>x. x \<in> set xs \<Longrightarrow> P x \<Longrightarrow> Q x \<and> (f x :: nat) \<le> g x"
  shows "(\<Sum>x\<leftarrow>filter P xs. f x) \<le> (\<Sum>x\<leftarrow>filter Q xs. g x)"
  using assms by (induction xs) (auto intro: add_mono le_add2 [THEN order_trans] trans_le_add2)

lemma address_totals_bound:
  assumes "calculate_address_totals node block a = Some (d, f)" and "fee_base node b" and "block_canonical b block"
    and "distinct (map x_sig block)" and "block \<noteq> []"
  obtains dt ft where "coins d (int dt)" and "coins f (int ft)" and "dt < 10 ^ 26" and "ft < 10 ^ 26"
    and "(\<Sum>x\<leftarrow>filter (\<lambda>x. x_addr x = a) (butlast block). wire_units x + row_fee b pf x) \<le> dt + ft"
proof -
  let ?D = "filter (\<lambda>x. x_addr x = a) block" and ?F = "filter (\<lambda>x. x_addr x = a \<and> \<not> raw_eq x (last block)) block"
  let ?B = "\<Sum>x\<leftarrow>block. wire_units x + charged_fee b x + 10 ^ 9"
  have can: "\<forall>x \<in> set block. canonical x" and total: "?B < 10 ^ 26" using assms(3) by (simp_all add: block_canonical_def)
  have zero: "coins (Fin False 0 0) (int 0)" using coins_int [of 0] by simp
  obtain d' f' where "address_totals node (last block) a block (Fin False 0 0, Fin False 0 0) = Some (d', f')"
      "coins d' (int (0 + sum_list (map wire_units ?D)))" "coins f' (int (0 + sum_list (map (charged_fee b) ?F)))"
    using address_totals_units [OF assms(2) can zero zero] total by force
  then have c: "coins d (int (sum_list (map wire_units ?D)))" "coins f (int (sum_list (map (charged_fee b) ?F)))"
    using assms(1) by (simp_all add: calculate_address_totals_def)
  have "sum_list (map wire_units ?D) \<le> sum_list (map (\<lambda>x. wire_units x + charged_fee b x + 10 ^ 9) (filter (\<lambda>_. True) block))"
    "sum_list (map (charged_fee b) ?F) \<le> sum_list (map (\<lambda>x. wire_units x + charged_fee b x + 10 ^ 9) (filter (\<lambda>_. True) block))"
    by (intro sum_list_filter_mono; simp)+
  then have small: "sum_list (map wire_units ?D) < 10 ^ 26" "sum_list (map (charged_fee b) ?F) < 10 ^ 26" using total by simp_all
  have block: "block = butlast block @ [last block]" using assms(5) by simp
  have "x_sig (last block) \<notin> x_sig ` set (butlast block)" using assms(4) by (subst (asm) block) simp
  then have "x_sig x \<noteq> x_sig (last block)" if "x \<in> set (butlast block)" for x using that by (metis imageI)
  then have neq: "\<not> raw_eq x (last block)" if "x \<in> set (butlast block)" for x using that by (auto simp: raw_eq_def)
  have "(\<Sum>x\<leftarrow>filter (\<lambda>x. x_addr x = a) (butlast block). row_fee b pf x) \<le>
      (\<Sum>x\<leftarrow>filter (\<lambda>x. x_addr x = a \<and> \<not> raw_eq x (last block)) (butlast block). charged_fee b x)"
    using neq row_fee_le by (intro sum_list_filter_mono) auto
  also have "\<dots> \<le> sum_list (map (charged_fee b) ?F)" by (subst (3) block) simp
  finally have 1: "(\<Sum>x\<leftarrow>filter (\<lambda>x. x_addr x = a) (butlast block). row_fee b pf x) \<le> sum_list (map (charged_fee b) ?F)" .
  have 2: "(\<Sum>x\<leftarrow>filter (\<lambda>x. x_addr x = a) (butlast block). wire_units x) \<le> sum_list (map wire_units ?D)"
    by (subst (2) block) simp
  show ?thesis using that [OF c small] 1 2 by (simp add: sum_list_addf)
qed

text \<open>No sender of an accepted block pays more than the spendable balance.\<close>

lemma block_spends:
  assumes "process_transaction_balances E node s h bhash block ts m = (m', Inr rows)" and "block \<noteq> []"
    and "fee_base node b" and "block_canonical b block" and "h = dn_last_block node + 1" and "h < 10 ^ 18"
    and pf_def: "pf = at_fork h (dn_fork_height node)"
  obtains txs c where "rows = txs @ [c]" and "list_all2 (tx_row (e_li E) b pf h) (butlast block) txs"
    and "mint_row (e_li E) node h (sum_list (map (row_fee b pf) (butlast block))) c"
    and "list_all2 (same_txid E (dn_fork_height node) h) block rows"
    and "\<And>a. distinct (map x_sig block) \<Longrightarrow> moderate E node s a \<Longrightarrow> \<not> waived node \<Longrightarrow> a \<in> x_addr ` set (butlast block) \<Longrightarrow>
      \<exists>v. spendable_units E node s a = Some v \<and> paid (e_li E) rows a \<le> v"
proof -
  obtain oldest where "process_rows E node s h bhash block oldest (length ([] :: rawtx list)) block
      ([], map (\<lambda>u. Fin False u (- 8)) (map (row_fee b pf) [])) m = (m', Inr rows)"
    using assms(1) by (auto simp: process_transaction_balances_def split: option.splits)
  from process_rows_spec [OF this _ assms(2-6) pf_def] obtain txs c where
    t: "rows = txs @ [c]" "list_all2 (tx_row (e_li E) b pf h) (butlast block) txs"
      "mint_row (e_li E) node h (sum_list (map (row_fee b pf) (butlast block))) c"
      "\<forall>x \<in> set (butlast block). can_pay E node s block (x_addr x)" "list_all2 (same_txid E (dn_fork_height node) h) block rows"
    by auto
  have "\<exists>v. spendable_units E node s a = Some v \<and> paid (e_li E) rows a \<le> v"
    if h: "distinct (map x_sig block)" "moderate E node s a" "\<not> waived node" "a \<in> x_addr ` set (butlast block)" for a
  proof -
    obtain d f where df: "calculate_address_totals node block a = Some (d, f)" "validate_balance E node s a d f = Some ()"
      using t(4) h(4) by (auto simp: can_pay_def)
    obtain dt ft where u: "coins d (int dt)" "coins f (int ft)" "dt < 10 ^ 26" "ft < 10 ^ 26"
        "(\<Sum>x\<leftarrow>filter (\<lambda>x. x_addr x = a) (butlast block). wire_units x + row_fee b pf x) \<le> dt + ft"
      using address_totals_bound [OF df(1) assms(3,4) h(1) assms(2)] by blast
    obtain v where v: "spendable_units E node s a = Some v" "int (dt + ft) \<le> v"
      using validate_balance_units [OF df(2) h(2,3) u(1-4)] by blast
    have "paid (e_li E) rows a = int (\<Sum>x\<leftarrow>filter (\<lambda>x. x_addr x = a) (butlast block). wire_units x + row_fee b pf x)"
      unfolding t(1) paid_append paid_tx_rows [OF t(2)] paid_mint_row [OF t(3)] by simp
    then show ?thesis using v u(5) by auto
  qed
  then show ?thesis using that [OF t(1-3,5)] by blast
qed

end
