(* ===== verification/BlockAccept.thy ===== *)
theory BlockAccept
  imports BlockSpend LedgerRollback
begin

text \<open>
  What it means that \<^verbatim>\<open>process_block_data\<close> accepts a block: every check passed, and the ledger represents the chain
  with the block appended.
\<close>

section \<open>The node through one block\<close>

text \<open>Every step changes a few attributes and leaves the rest alone.\<close>

lemma difficulty_node:
  assumes "difficulty li X M now node s = (node', d)"
  obtains t v where "node' = node\<lparr>dn_last_ts := t, dn_version_allow := v\<rparr>"
proof -
  let ?w = "do { height \<leftarrow> store_tip s; ts \<leftarrow> window_timestamps li X s height; Some (height, ts) }"
  let ?p = "do { (_, text) \<leftarrow> last_difficulty s; dec_parse text }"
  note give = that
  have none: "thesis" if n: "node' = node" using give [where t = "dn_last_ts node" and v = "dn_version_allow node"] n by simp
  have one: "thesis" if n: "node' = node\<lparr>dn_last_ts := t\<rparr>" for t using give [where t = t and v = "dn_version_allow node"] n by simp
  show thesis
  proof (cases ?w)
    case None
    then show ?thesis using assms none unfolding difficulty_def None by simp
  next
    case w: (Some ht)
    obtain h ts where ht: "ht = (h, ts)" by (rule prod.exhaust)
    let ?n = "node\<lparr>dn_last_ts := fst ts\<rparr>"
    show ?thesis
    proof (cases ?p)
      case None
      then show ?thesis using assms one unfolding difficulty_def w [unfolded ht] option.case prod.case Let_def None by auto
    next
      case p: (Some prev)
      show ?thesis
      proof (cases "legacy_or_lwma li X M ?n s h prev ts")
        case None
        have "node' = ?n" using assms
          unfolding difficulty_def w [unfolded ht] option.case prod.case Let_def p None by (simp split: if_splits)
        then show ?thesis by (rule one)
      next
        case (Some x)
        have "node' = ?n \<or> node' = ?n\<lparr>dn_version_allow := limit_version (dn_version_allow ?n)\<rparr>"
          using assms unfolding difficulty_def w [unfolded ht] option.case prod.case Let_def p Some by (simp split: if_splits)
        then show ?thesis using one give by blast
      qed
    qed
  qed
qed

lemma refresh_fork_node:
  obtains fh c where "refresh_fork E node s = node\<lparr>dn_fork_height := fh, dn_caught_up := c\<rparr>"
    and "dn_fork_height node \<noteq> None \<longrightarrow> fh = dn_fork_height node"
proof -
  have "\<exists>fh c. refresh_fork E node s = node\<lparr>dn_fork_height := fh, dn_caught_up := c\<rparr> \<and> (dn_fork_height node \<noteq> None \<longrightarrow> fh = dn_fork_height node)"
  proof (cases "dn_fork_height node")
    case None
    obtain w b u where p: "dn_fork_params node = (w, b, u)" by (cases "dn_fork_params node")
    show ?thesis
    proof (cases "fork_lookup (last_openfield (e_li E) s) (\<not> dn_caught_up node) (dn_last_block node) w b u")
      case nothing: None
      then have "refresh_fork E node s = node\<lparr>dn_fork_height := dn_fork_height node, dn_caught_up := dn_caught_up node\<rparr>"
        using None p by (simp add: refresh_fork_def)
      then show ?thesis using None by metis
    next
      case (Some found)
      then show ?thesis using None p by (auto simp: refresh_fork_def)
    qed
  next
    case (Some h)
    then show ?thesis by (auto simp: refresh_fork_def intro!: exI [of _ "Some h"] exI [of _ True])
  qed
  then show ?thesis using that by blast
qed

text \<open>The base fee a block is judged by is between half and ten times the static one.\<close>

lemma set_base_fee_node:
  assumes "set_base_fee E node s = Some node'"
  obtains p f b where "node' = node\<lparr>dn_fee_post_fork := p, dn_base_fee := f\<rparr>" and "fee_base node' b" and "500000 \<le> b" and "b \<le> 10000000"
proof (cases "at_fork (dn_last_block node + 1) (dn_fork_height node)")
  case True
  then obtain ws f where f: "base_fee BASE_FEE (map Some ws) TARGET_WEIGHT = Some f"
      "node' = node\<lparr>dn_fee_post_fork := True, dn_base_fee := Some f\<rparr>"
    using assms by (auto simp: set_base_fee_def elim!: bind_SomeE)
  obtain u where "f = Fin False u (- 8)" "500000 \<le> u" "u \<le> 10000000"
    using base_fee_range [of TARGET_WEIGHT "map Some ws"] f(1) by (auto simp: TARGET_WEIGHT_def)
  then show ?thesis using that [OF f(2), of u] f(2) coins_units [of u] by (simp add: fee_base_def)
next
  case False
  then have n: "node' = node\<lparr>dn_fee_post_fork := False, dn_base_fee := Some BASE_FEE\<rparr>" using assms by (auto simp: set_base_fee_def)
  then show ?thesis using that [OF n, of 1000000] BASE_FEE_coins by (simp add: fee_base_def)
qed

section \<open>The steps of an accepted block\<close>

lemma judge_block_accepted:
  assumes "judge_block E node s block mp = ((node', mp'), Inr (rows, bhash, diff))"
  obtains converted m d where "admit_block E node s block = Inr (converted, m)"
    and "difficulty (e_li E) (e_addr E) (e_math E) (e_now E 0) node s = (node', Some d)"
    and "weigh_block E node' s block converted m d = Some (bhash, diff)"
    and "process_transaction_balances E node' s (dn_last_block node + 1) bhash block (m_ts m) mp = (mp', Inr rows)"
proof -
  obtain converted m where a: "admit_block E node s block = Inr (converted, m)"
    using assms by (auto simp: judge_block_def split: sum.splits)
  obtain n d where d: "difficulty (e_li E) (e_addr E) (e_math E) (e_now E 0) node s = (n, d)" by fastforce
  obtain w where w: "Option.bind d (weigh_block E n s block converted m) = Some w"
    using assms by (auto simp: judge_block_def a d split: option.splits)
  obtain bh df where bd: "w = (bh, df)" by fastforce
  obtain x where x: "process_transaction_balances E n s (dn_last_block node + 1) bh block (m_ts m) mp = x" by blast
  then have "n = node'" "bh = bhash" "df = diff" "x = (mp', Inr rows)"
    using assms by (auto simp: judge_block_def a d w bd split: prod.splits sum.splits)
  then show ?thesis using that [OF a] d w bd x by (cases d) auto
qed

lemma apply_block_accepted:
  assumes "apply_block E dispatch ip st rows bhash diff = (st', None)"
  shows "commit_block (e_li E) (e_hash E) (e_addr E) (dn_last_block (g_node st) + 1) bhash rows (Some diff)
      (dn_fork_height (g_node st)) (g_store st) = Some (g_store st')"
    and "\<exists>t v. g_node st' = (g_node st)\<lparr>dn_last_block := dn_last_block (g_node st) + 1, dn_last_hash := bhash,
      dn_last_ts := t, dn_version_allow := v\<rparr>"
    and "\<not> at_fork (dn_last_block (g_node st) + 1) (dn_fork_height (g_node st)) \<Longrightarrow> r \<in> set rows \<Longrightarrow>
      \<not> address_is_post_fork_sender_type (e_addr E) (r_addr r)"
proof -
  let ?h = "dn_last_block (g_node st) + 1" and ?fh = "dn_fork_height (g_node st)"
  let ?n = "(g_node st)\<lparr>dn_last_block := ?h, dn_last_hash := bhash\<rparr>"
  have ok: "\<not> (\<not> at_fork ?h ?fh \<and> list_ex (\<lambda>r. address_is_post_fork_sender_type (e_addr E) (r_addr r)) rows)"
    using assms by (auto simp: apply_block_def Let_def split: if_splits)
  obtain s' where s': "commit_block (e_li E) (e_hash E) (e_addr E) ?h bhash rows (Some diff) ?fh (g_store st) = Some s'"
    using assms ok by (auto simp: apply_block_def Let_def split: if_splits option.splits)
  obtain n d where d: "difficulty (e_li E) (e_addr E) (e_math E) (e_now E 0) ?n s' = (n, d)" by fastforce
  have st': "g_store st' = s'" "g_node st' = n" using assms ok s' d by (auto simp: apply_block_def Let_def split: if_splits)
  obtain t v where "n = ?n\<lparr>dn_last_ts := t, dn_version_allow := v\<rparr>" using difficulty_node [OF d] by blast
  then show "\<exists>t v. g_node st' = ?n\<lparr>dn_last_ts := t, dn_version_allow := v\<rparr>" using st' by blast
  show "commit_block (e_li E) (e_hash E) (e_addr E) ?h bhash rows (Some diff) ?fh (g_store st) = Some (g_store st')" using s' st' by simp
  show "\<not> address_is_post_fork_sender_type (e_addr E) (r_addr r)" if "\<not> at_fork ?h ?fh" "r \<in> set rows"
    using ok that by (auto simp: list_ex_iff)
qed

text \<open>The rules a block is judged by: the node after the fork height and the base fee were refreshed.\<close>

definition rules :: "denv \<Rightarrow> 'p dstate \<Rightarrow> dnode" where
  "rules E st = refresh_fork E (g_node st) (g_store st)"

definition next_height :: "'p dstate \<Rightarrow> nat" where
  "next_height st = dn_last_block (g_node st) + 1"

text \<open>The attributes no step of a block changes.\<close>

definition same_checks :: "dnode \<Rightarrow> dnode \<Rightarrow> bool" where
  "same_checks n n' \<longleftrightarrow> dn_mainnet n' = dn_mainnet n \<and> dn_testnet n' = dn_testnet n \<and> dn_regnet n' = dn_regnet n \<and>
     dn_exceptions n' = dn_exceptions n \<and> dn_assume_valid n' = dn_assume_valid n \<and> dn_checkpoints n' = dn_checkpoints n \<and>
     dn_last_block n' = dn_last_block n \<and> dn_last_hash n' = dn_last_hash n"

lemma same_checks_simps:
  assumes "same_checks n n'"
  shows "in_trusted_prefix n' h = in_trusted_prefix n h" and "is_exempt n' h c sg = is_exempt n h c sg"
    and "waived n' = waived n" and "moderate E n' s a = moderate E n s a" and "calculate_mining_reward n' h = calculate_mining_reward n h"
  using assms unfolding same_checks_def
  by (simp_all add: in_trusted_prefix_def is_exempt_def network_registry_def checkpoints_def waived_def moderate_def calculate_mining_reward_def)

lemma rules_node:
  "same_checks (g_node st) (rules E st)"
  "dn_fork_height (g_node st) = Some h \<Longrightarrow> dn_fork_height (rules E st) = Some h"
proof -
  obtain fh c where r: "rules E st = (g_node st)\<lparr>dn_fork_height := fh, dn_caught_up := c\<rparr>"
      "dn_fork_height (g_node st) \<noteq> None \<longrightarrow> fh = dn_fork_height (g_node st)"
    unfolding rules_def by (rule refresh_fork_node)
  show "same_checks (g_node st) (rules E st)" unfolding r(1) by (simp add: same_checks_def)
  show "dn_fork_height (rules E st) = Some h" if "dn_fork_height (g_node st) = Some h" using r that by simp
qed

lemma process_block_accepted:
  assumes "process_block E dispatch ip st block = (st', None)"
  obtains node1 node2 b converted m d bhash diff mp mp' rows where
    "set_base_fee E (rules E st) (g_store st) = Some node1"
    "same_checks (g_node st) node1" "dn_fork_height node1 = dn_fork_height (rules E st)"
    "same_checks (g_node st) node2" "dn_fork_height node2 = dn_fork_height (rules E st)"
    "fee_base node2 b" "500000 \<le> b" "b \<le> 10000000"
    "admit_block E node1 (g_store st) block = Inr (converted, m)"
    "difficulty (e_li E) (e_addr E) (e_math E) (e_now E 0) node1 (g_store st) = (node2, Some d)"
    "weigh_block E node2 (g_store st) block converted m d = Some (bhash, diff)"
    "process_transaction_balances E node2 (g_store st) (next_height st) bhash block (m_ts m) mp = (mp', Inr rows)"
    "commit_block (e_li E) (e_hash E) (e_addr E) (next_height st) bhash rows (Some diff) (dn_fork_height (rules E st)) (g_store st)
       = Some (g_store st')"
    "dn_last_block (g_node st') = next_height st" "dn_last_hash (g_node st') = bhash"
    "dn_fork_height (g_node st') = dn_fork_height (rules E st)" "fee_base (g_node st') b"
proof -
  have "fork_reward_ok E (rules E st) (g_store st) \<noteq> None" "fork_reward_ok E (rules E st) (g_store st) \<noteq> Some False"
    using assms by (auto simp: process_block_def rules_def Let_def split: if_splits option.splits prod.splits)
  then have ok: "fork_reward_ok E (rules E st) (g_store st) = Some True" by auto
  obtain node1 where n1: "set_base_fee E (rules E st) (g_store st) = Some node1"
    using assms ok by (auto simp: process_block_def rules_def Let_def split: option.splits)
  obtain b where b: "\<exists>p f. node1 = (rules E st)\<lparr>dn_fee_post_fork := p, dn_base_fee := f\<rparr>" "fee_base node1 b" "500000 \<le> b" "b \<le> 10000000"
    using set_base_fee_node [OF n1] by metis
  define mp where "mp = (g_mempool st)\<lparr>mp_fork_height := dn_fork_height (rules E st), mp_registry := Some (pkref_get (g_store st)),
     mp_base_fee := dn_base_fee node1, mp_fee_post_fork := dn_fee_post_fork node1\<rparr>"
  obtain node2 mp' res where j: "judge_block E node1 (g_store st) block mp = ((node2, mp'), res)" by (metis surj_pair)
  have pb: "(case res of Inl e \<Rightarrow> (st\<lparr>g_node := node2, g_mempool := mp'\<rparr>, Some e)
     | Inr (rows, bhash, diff) \<Rightarrow> apply_block E dispatch ip (st\<lparr>g_node := node2, g_mempool := mp'\<rparr>) rows bhash diff) = (st', None)"
    using assms ok n1 j by (simp add: process_block_def rules_def Let_def mp_def split: sum.splits prod.splits)
  then obtain rows bhash diff where r: "res = Inr (rows, bhash, diff)"
      "apply_block E dispatch ip (st\<lparr>g_node := node2, g_mempool := mp'\<rparr>) rows bhash diff = (st', None)"
    by (auto split: sum.splits prod.splits)
  obtain converted m d where c: "admit_block E node1 (g_store st) block = Inr (converted, m)"
      "difficulty (e_li E) (e_addr E) (e_math E) (e_now E 0) node1 (g_store st) = (node2, Some d)"
      "weigh_block E node2 (g_store st) block converted m d = Some (bhash, diff)"
      "process_transaction_balances E node2 (g_store st) (dn_last_block node1 + 1) bhash block (m_ts m) mp = (mp', Inr rows)"
    using judge_block_accepted [OF j [unfolded r(1)]] by blast
  obtain t v where n2: "node2 = node1\<lparr>dn_last_ts := t, dn_version_allow := v\<rparr>" using difficulty_node [OF c(2)] by blast
  have f: "fee_base node2 b" using b(2) by (simp add: fee_base_def n2)
  obtain p g where n1': "node1 = (rules E st)\<lparr>dn_fee_post_fork := p, dn_base_fee := g\<rparr>" using b(1) by blast
  have same: "same_checks (g_node st) node1" "dn_fork_height node1 = dn_fork_height (rules E st)"
      "same_checks (g_node st) node2" "dn_fork_height node2 = dn_fork_height (rules E st)"
    using rules_node(1) [of st E] by (simp_all add: n1' n2 same_checks_def)
  then have h: "dn_last_block node1 + 1 = next_height st" "dn_last_block node2 + 1 = next_height st"
    by (simp_all add: next_height_def same_checks_def)
  have g: "g_node (st\<lparr>g_node := node2, g_mempool := mp'\<rparr>) = node2" "g_store (st\<lparr>g_node := node2, g_mempool := mp'\<rparr>) = g_store st" by simp_all
  note a = apply_block_accepted(1,2) [OF r(2), unfolded g h same(4)]
  have "dn_last_block (g_node st') = next_height st" "dn_last_hash (g_node st') = bhash"
      "dn_fork_height (g_node st') = dn_fork_height (rules E st)" "fee_base (g_node st') b"
    using a(2) same(4) f by (auto simp: fee_base_def)
  then show ?thesis using that [OF n1 same f b(3,4) c(1-3) c(4) [unfolded h(1)] a(1)] by blast
qed

section \<open>What the checks exclude\<close>

lemma sbind_Inr: "sbind r f = Inr y \<longleftrightarrow> (\<exists>x. r = Inr x \<and> f x = Inr y)"
  by (cases r) auto

lemma need_Inr: "need r = Inr x \<longleftrightarrow> r = Some x"
  by (auto simp: need_def split: option.splits)

lemma admit_block_facts:
  assumes "admit_block E node s block = Inr (converted, m)"
  shows "block \<noteq> []" and "\<not> in_trusted_prefix node (dn_last_block node + 1) \<Longrightarrow>
    check_duplicate_signatures E node s (dn_last_block node + 1) block = Inr ()"
proof -
  show "block \<noteq> []" using assms by (auto simp: admit_block_def Let_def sbind_Inr need_Inr)
  show "check_duplicate_signatures E node s (dn_last_block node + 1) block = Inr ()" if "\<not> in_trusted_prefix node (dn_last_block node + 1)"
    using assms that by (auto simp: admit_block_def Let_def sbind_Inr need_Inr)
qed

lemma weigh_block_new:
  assumes "weigh_block E node s block converted m d = Some (bhash, diff)"
  shows "height_by_hash s bhash = Some None"
  using assms unfolding weigh_block_def Let_def by (auto elim!: bind_SomeE split: if_splits)

text \<open>The replay checks on every entry but the post-fork coinbase.\<close>

definition replay_free :: "denv \<Rightarrow> dnode \<Rightarrow> block_store \<Rightarrow> nat \<Rightarrow> rawtx \<Rightarrow> bool" where
  "replay_free E node s h x \<longleftrightarrow> x_sig x \<noteq> [] \<and>
     (\<exists>seen. signature_exists (e_li E) (e_addr E) s (x_sig x) (Some (int h - 1)) = Some seen \<and>
        (seen \<longrightarrow> is_exempt node h DUPLICATE (Some (x_sig x)))) \<and>
     (at_fork h (dn_fork_height node) \<longrightarrow> (\<exists>t. new_txid E node s h x = Inr t))"

lemma dup_entries_step:
  assumes "dup_entries E node s h n idx (x # xs) (sigs, txids) = Inr r"
  shows "\<exists>txids'. dup_entries E node s h n (idx + 1) xs (sigs @ [x_sig x], txids') = Inr r \<and>
    (at_fork h (dn_fork_height node) \<and> idx + 1 = n \<or> replay_free E node s h x)"
proof (cases "at_fork h (dn_fork_height node) \<and> idx + 1 = n")
  case True
  then show ?thesis using assms by (auto simp: Let_def split: option.splits)
next
  case False
  obtain seen where seen: "x_sig x \<noteq> []" "signature_exists (e_li E) (e_addr E) s (x_sig x) (Some (int h - 1)) = Some seen"
    using assms False by (auto simp: Let_def split: option.splits if_splits)
  let ?t = "if at_fork h (dn_fork_height node) then sbind (new_txid E node s h x) (\<lambda>t. Inr (txids @ [t])) else Inr txids"
  obtain txids' where t: "?t = Inr txids'" "seen \<longrightarrow> is_exempt node h DUPLICATE (Some (x_sig x))"
      "dup_entries E node s h n (idx + 1) xs (sigs @ [x_sig x], txids') = Inr r"
    using assms False seen by (auto simp: Let_def split: option.splits if_splits sum.splits)
  then show ?thesis using seen by (auto simp: replay_free_def sbind_Inr split: if_splits)
qed

lemma dup_entries_spec:
  assumes "dup_entries E node s h n idx xs (sigs, txids) = Inr (sigs', txids')" and "idx + length xs = n" and "xs \<noteq> []"
  shows "sigs' = sigs @ map x_sig xs \<and> (\<forall>x \<in> set (butlast xs). replay_free E node s h x) \<and>
    (at_fork h (dn_fork_height node) \<or> replay_free E node s h (last xs))"
  using assms
proof (induction xs arbitrary: idx sigs txids)
  case (Cons x xs)
  obtain txids1 where d: "dup_entries E node s h n (idx + 1) xs (sigs @ [x_sig x], txids1) = Inr (sigs', txids')"
      "at_fork h (dn_fork_height node) \<and> idx + 1 = n \<or> replay_free E node s h x"
    using dup_entries_step [OF Cons.prems(1)] by blast
  show ?case
  proof (cases "xs = []")
    case True
    then show ?thesis using d by auto
  next
    case False
    then have "replay_free E node s h x" using d(2) Cons.prems(2) by (cases xs) auto
    then show ?thesis using Cons.IH [OF d(1) _ False] Cons.prems(2) False by simp
  qed
qed simp

lemma no_duplicates:
  assumes "check_duplicate_signatures E node s h block = Inr ()" and "block \<noteq> []"
  shows "\<forall>x \<in> set (butlast block). replay_free E node s h x"
    and "at_fork h (dn_fork_height node) \<or> replay_free E node s h (last block)"
    and "\<not> is_exempt node h DUPLICATE None \<Longrightarrow> distinct (map x_sig block)"
proof -
  obtain sigs txids where d: "dup_entries E node s h (length block) 0 block ([], []) = Inr (sigs, txids)"
      "length block \<noteq> length (remdups sigs) \<longrightarrow> is_exempt node h DUPLICATE None"
    using assms(1) by (auto simp: check_duplicate_signatures_def sbind_Inr split: if_splits)
  note f = dup_entries_spec [OF d(1) _ assms(2)]
  show "\<forall>x \<in> set (butlast block). replay_free E node s h x" "at_fork h (dn_fork_height node) \<or> replay_free E node s h (last block)"
    using f by simp_all
  show "distinct (map x_sig block)" if "\<not> is_exempt node h DUPLICATE None"
  proof -
    have "sigs = map x_sig block" using f by simp
    then show ?thesis using d(2) that by (metis length_map length_remdups_card_conv card_distinct)
  qed
qed

end
