(* ===== verification/BlockRefine.thy ===== *)
theory BlockRefine
  imports BlockAccept LedgerQueries
begin

text \<open>
  The ledger after an accepted block: it represents the chain with the block appended, and the rows of the block are
  well formed, paid for and free of replays.
\<close>

section \<open>Blocks as miners send them\<close>

text \<open>Amounts and timestamps in canonical text, addresses of the length the node stores, and totals in the range of the
  exact decimal arithmetic.\<close>

definition wire_block :: "rawtx list \<Rightarrow> bool" where
  "wire_block block \<longleftrightarrow> (\<forall>x \<in> set block. canonical x \<and> length (x_addr x) \<le> 56 \<and> length (x_recip x) \<le> 56) \<and>
     (\<Sum>x\<leftarrow>block. wire_units x + 1000 * length (x_of x) + 3 * 10 ^ 9) < 10 ^ 26"

lemma wire_block_canonical:
  assumes "wire_block block" and "b \<le> 10000000"
  shows "block_canonical b block"
proof -
  have fee: "charged_fee b x \<le> 1000 * length (x_of x) + 2 * 10 ^ 9" for x
    using assms(2) by (simp add: charged_fee_def fee_extra_def)
  have "wire_units x + charged_fee b x + 10 ^ 9 \<le> wire_units x + 1000 * length (x_of x) + 3 * 10 ^ 9" for x
  proof -
    have "charged_fee b x \<le> 1000 * length (x_of x) + 2000000000" using fee [of x] by simp
    then show ?thesis by simp
  qed
  then have "(\<Sum>x\<leftarrow>block. wire_units x + charged_fee b x + 10 ^ 9) \<le> (\<Sum>x\<leftarrow>block. wire_units x + 1000 * length (x_of x) + 3 * 10 ^ 9)"
    by (intro sum_list_mono)
  then show ?thesis using assms(1) by (simp add: wire_block_def block_canonical_def)
qed

text \<open>The public keys of a block are among those the key hash tells apart.\<close>

definition pub_keys :: "bytes set \<Rightarrow> rawtx list \<Rightarrow> bool" where
  "pub_keys K block \<longleftrightarrow> (\<forall>x \<in> set block. \<forall>b. utf8_encode (take MAX_TX_PUBKEY_LEN (x_pub x)) = Some b \<longrightarrow> b \<in> K)"

lemma row_keys_of_block:
  assumes "list_all2 (same_txid E fh h) block rows" and "pub_keys K block"
  shows "row_keys K rows"
  using assms by (induction) (auto simp: row_keys_def pub_keys_def same_txid_def)

text \<open>The transaction id of the coinbase, the only one that no check looks up.\<close>

definition coinbase_new :: "denv \<Rightarrow> nat option \<Rightarrow> nat \<Rightarrow> block_store \<Rightarrow> rawtx \<Rightarrow> bool" where
  "coinbase_new E fh h s x \<longleftrightarrow> (at_fork h fh \<longrightarrow> (\<forall>t. raw_txid E h fh x = Some t \<longrightarrow> txid_height s t = Some None))"

lemma heights_last: "heights_ok ch \<Longrightarrow> b \<in> set ch \<Longrightarrow> a_h b \<le> a_h (last ch)"
  by (cases ch rule: rev_cases) (auto dest: heights_less)

lemma new_txid_unindexed:
  assumes "new_txid E node s h x = Inr t" and "represents li H X fh K ch s" and "ch \<noteq> [] \<longrightarrow> h = a_h (last ch) + 1"
    and "hex_key t = Some k"
  shows "raw_txid E h (dn_fork_height node) x = Some t" and "kv_get (bs_txid s) k = None"
proof -
  show raw: "raw_txid E h (dn_fork_height node) x = Some t"
    using assms(1) by (auto simp: new_txid_def sbind_Inr need_Inr split: option.splits if_splits)
  have core: "core li H X fh K ch s" using assms(2) by (simp add: represents_def)
  show "kv_get (bs_txid s) k = None"
  proof (rule ccontr)
    assume "kv_get (bs_txid s) k \<noteq> None"
    then obtain h' where h': "kv_get (bs_txid s) k = Some h'" by blast
    then have "chain_txids H li fh ch k = Some h'" using core by (simp add: core_def)
    then obtain b where b: "b \<in> set ch" "h' = a_h b" using chain_txids_height by blast
    then have "h' \<le> a_h (last ch)" using core heights_last by (auto simp: core_def)
    moreover have "h = a_h (last ch) + 1" using assms(3) b(1) by auto
    ultimately show False using assms(1,4) h' raw by (auto simp: new_txid_def sbind_Inr need_Inr txid_height_def split: if_splits)
  qed
qed

lemma txids_unindexed:
  assumes same: "list_all2 (same_txid E fh h) block rows" and rep: "represents li H X fh K ch s"
    and tip: "ch \<noteq> [] \<longrightarrow> h = a_h (last ch) + 1" and "\<forall>x \<in> set (butlast block). replay_free E node s h x"
    and "coinbase_new E fh h s (last block)" and "dn_fork_height node = fh" and "block \<noteq> []"
  shows "rows_txids (e_hash E) (e_li E) fh h 0 rows \<inter> dom (kv_get (bs_txid s)) = {}"
proof -
  have "kv_get (bs_txid s) k = None" if k: "k \<in> row_txids (e_hash E) (e_li E) fh h ir" and ir: "ir \<in> set (enumerate 0 rows)" for k ir
  proof -
    obtain i where i: "i < length rows" "ir = (i, rows ! i)" using ir by (auto simp: in_set_enumerate_eq)
    have len: "length block = length rows" using same by (rule list_all2_lengthD)
    obtain t where t: "at_fork h fh" "txid_of (e_hash E) (e_li E) (rows ! i) fh = Some t" "hex_key t = Some k"
      using k i(2) by (auto simp: row_txids_def elim!: bind_SomeE)
    then have raw: "raw_txid E h fh (block ! i) = Some t"
      using list_all2_nthD2 [OF same i(1)] by (simp add: same_txid_def)
    show ?thesis
    proof (cases "i + 1 = length block")
      case True
      then have "block ! i = last block" using assms(7) by (metis add_diff_cancel_right' last_conv_nth)
      then show ?thesis using assms(5) raw t by (auto simp: coinbase_new_def txid_height_def)
    next
      case False
      then have "block ! i \<in> set (butlast block)" using i(1) len by (metis Suc_eq_plus1 Suc_lessI diff_Suc_1 length_butlast nth_butlast nth_mem less_diff_conv)
      then obtain t' where t': "new_txid E node s h (block ! i) = Inr t'" using assms(4,6) t(1) by (auto simp: replay_free_def)
      then have "t' = t" using raw assms(6) by (auto simp: new_txid_def sbind_Inr need_Inr split: option.splits if_splits)
      then show ?thesis using new_txid_unindexed(2) [OF _ rep tip t(3)] t' by simp
    qed
  qed
  then show ?thesis unfolding rows_txids_def by (auto simp: domIff)
qed

section \<open>The accepted block\<close>

text \<open>A node ready to judge a block: its ledger represents a chain under the rules in force, the block is one a miner
  sends, and it is not in the part of history that a checkpoint vouches for.\<close>

definition ready :: "denv \<Rightarrow> bytes set \<Rightarrow> ablock list \<Rightarrow> 'p dstate \<Rightarrow> rawtx list \<Rightarrow> bool" where
  "ready E K ch st block \<longleftrightarrow>
     represents (e_li E) (e_hash E) (e_addr E) (dn_fork_height (rules E st)) K ch (g_store st) \<and>
     inj_on (blake2b (e_hash E) 32) K \<and> pub_keys K block \<and> wire_block block \<and> next_height st < 10 ^ 18 \<and>
     \<not> in_trusted_prefix (g_node st) (next_height st) \<and>
     coinbase_new E (dn_fork_height (rules E st)) (next_height st) (g_store st) (last block)"

lemma commit_extends:
  assumes "represents li H X fh K ch s" and "commit_block li H X h bhash rows d fh s = Some s'"
  shows "ch \<noteq> [] \<longrightarrow> h = a_h (last ch) + 1"
proof -
  have "core li H X fh K ch s" using assms(1) by (simp add: represents_def)
  then show ?thesis using assms(2) core_tip by (fastforce simp: commit_block_def split: if_splits)
qed

lemma accepted_block:
  assumes pb: "process_block E dispatch ip st block = (st', None)" and "ready E K ch st block"
    and h_def: "h = next_height st" and fh_def: "fh = dn_fork_height (rules E st)" and pf_def: "pf = at_fork h fh"
  obtains node b txs c bhash diff where
    "represents (e_li E) (e_hash E) (e_addr E) fh K (ch @ [new_block (e_li E) fh h bhash (txs @ [c]) (Some diff)]) (g_store st')"
    "allocations (g_store st') = allocations (g_store st)"
    "dn_last_block (g_node st') = h" "dn_last_hash (g_node st') = bhash" "dn_fork_height (g_node st') = fh"
    "same_checks (g_node st) node" "dn_fork_height node = fh" "fee_base (g_node st') b"
    "list_all2 (tx_row (e_li E) b pf h) (butlast block) txs"
    "mint_row (e_li E) node h (sum_list (map (row_fee b pf) (butlast block))) c"
    "list_all2 (same_txid E fh h) block (txs @ [c])"
    "\<forall>x \<in> set (butlast block). replay_free E node (g_store st) h x"
    "\<not> is_exempt (g_node st) h DUPLICATE None \<longrightarrow> distinct (map x_sig block)"
    "\<forall>a \<in> x_addr ` set (butlast block). distinct (map x_sig block) \<longrightarrow> moderate E (g_node st) (g_store st) a \<longrightarrow> \<not> waived (g_node st) \<longrightarrow>
      (\<exists>v. spendable_units E node (g_store st) a = Some v \<and> paid (e_li E) (txs @ [c]) a \<le> v)"
proof -
  obtain node1 node2 b converted m d bhash diff mp mp' rows where
    p: "same_checks (g_node st) node1" "dn_fork_height node1 = fh" "same_checks (g_node st) node2" "dn_fork_height node2 = fh"
      "fee_base node2 b" "500000 \<le> b" "b \<le> 10000000"
      "admit_block E node1 (g_store st) block = Inr (converted, m)"
      "weigh_block E node2 (g_store st) block converted m d = Some (bhash, diff)"
      "process_transaction_balances E node2 (g_store st) h bhash block (m_ts m) mp = (mp', Inr rows)"
      "commit_block (e_li E) (e_hash E) (e_addr E) h bhash rows (Some diff) fh (g_store st) = Some (g_store st')"
      "dn_last_block (g_node st') = h" "dn_last_hash (g_node st') = bhash" "dn_fork_height (g_node st') = fh"
      "fee_base (g_node st') b"
    using process_block_accepted [OF pb] unfolding h_def fh_def by metis
  have r: "represents (e_li E) (e_hash E) (e_addr E) fh K ch (g_store st)" "inj_on (blake2b (e_hash E) 32) K" "pub_keys K block"
      "wire_block block" "h < 10 ^ 18" "\<not> in_trusted_prefix (g_node st) h" "coinbase_new E fh h (g_store st) (last block)"
    using assms(2) by (simp_all add: ready_def h_def fh_def)
  have hn: "dn_last_block node1 + 1 = h" "dn_last_block node2 + 1 = h"
    using p(1,3) by (simp_all add: same_checks_def h_def next_height_def)
  note a = admit_block_facts [OF p(8), unfolded hn]
  have dup: "check_duplicate_signatures E node1 (g_store st) h block = Inr ()"
    using a(2) r(6) same_checks_simps(1) [OF p(1)] by simp
  note nd = no_duplicates [OF dup a(1)]
  obtain txs c where t: "rows = txs @ [c]" "list_all2 (tx_row (e_li E) b pf h) (butlast block) txs"
      "mint_row (e_li E) node2 h (sum_list (map (row_fee b pf) (butlast block))) c" "list_all2 (same_txid E fh h) block rows"
      "\<And>a. distinct (map x_sig block) \<Longrightarrow> moderate E node2 (g_store st) a \<Longrightarrow> \<not> waived node2 \<Longrightarrow> a \<in> x_addr ` set (butlast block) \<Longrightarrow>
        \<exists>v. spendable_units E node2 (g_store st) a = Some v \<and> paid (e_li E) rows a \<le> v"
    using block_spends [OF p(10) a(1) p(5) wire_block_canonical [OF r(4) p(7)] hn(2) [symmetric] r(5), of pf] p(4) pf_def by auto
  have rf: "replay_free E node2 (g_store st) h x = replay_free E node1 (g_store st) h x" for x
    using same_checks_simps(2) [OF p(1)] same_checks_simps(2) [OF p(3)] p(2,4) by (simp add: replay_free_def new_txid_def)
  have wf: "\<forall>r \<in> set rows. row_wf (e_li E) h r"
    using t(2,3) unfolding t(1) by (auto simp: tx_row_def mint_row_def list_all2_conv_all_nth in_set_conv_nth)
  have hash: "kv_get (bs_hashes (g_store st)) k = None" if "hex_key bhash = Some k" for k
    using weigh_block_new [OF p(9)] that by (simp add: height_by_hash_def)
  note rep = commit_represents [OF r(1) p(11) wf row_keys_of_block [OF t(4) r(3)] r(2) hash
      txids_unindexed [OF t(4) r(1) commit_extends [OF r(1) p(11)] nd(1) r(7) p(2) a(1)]]
  have ex: "\<not> is_exempt (g_node st) h DUPLICATE None \<longrightarrow> distinct (map x_sig block)"
    using nd(3) same_checks_simps(2) [OF p(1)] by simp
  have pays: "\<forall>a \<in> x_addr ` set (butlast block). distinct (map x_sig block) \<longrightarrow> moderate E (g_node st) (g_store st) a \<longrightarrow> \<not> waived (g_node st) \<longrightarrow>
      (\<exists>v. spendable_units E node2 (g_store st) a = Some v \<and> paid (e_li E) rows a \<le> v)"
    using t(5) same_checks_simps(3,4) [OF p(3)] by simp
  show ?thesis
    using that [OF rep(1) [unfolded t(1)] rep(2) p(12-14) p(3,4,15) t(2,3) t(4) [unfolded t(1)] _ ex pays [unfolded t(1)]] nd(1) rf by simp
qed

end
