(* ===== verification/Work.thy ===== *)
theory Work
  imports BlockMoney
begin

text \<open>
  What the proof of work guarantees: the count of \<^verbatim>\<open>diffme_heavy3\<close> is exact and returns, and a block that passes
  \<^verbatim>\<open>check_block\<close> carries the required work or was found late and still carries the floor.
\<close>

section \<open>Widths\<close>

lemma bin_str_bounds: "length (bin_str n) \<ge> 1" "n < 2 ^ k \<Longrightarrow> 1 \<le> k \<Longrightarrow> length (bin_str n) \<le> k"
proof -
  show "length (bin_str n) \<ge> 1" by (subst bin_str.simps) simp
  show "length (bin_str n) \<le> k" if "n < 2 ^ k" "1 \<le> k"
    using that
  proof (induction n arbitrary: k rule: bin_str.induct)
    case (1 n)
    show ?case
    proof (cases "n < 2")
      case True
      then show ?thesis using "1.prems" by (subst bin_str.simps) simp
    next
      case False
      then obtain j where j: "k = Suc j" "1 \<le> j" using "1.prems" by (cases k; cases "k - 1") auto
      then have "n div 2 < 2 ^ j" using "1.prems" by auto
      then show ?thesis using "1.IH" [OF False, of j] False j by (subst bin_str.simps) simp
    qed
  qed
qed

lemma length_bin_convert:
  shows "8 * length s \<le> length (bin_convert s)"
    and "(\<And>c. c \<in> set s \<Longrightarrow> c < 256) \<Longrightarrow> length (bin_convert s) = 8 * length s"
proof -
  show "8 * length s \<le> length (bin_convert s)" by (induction s) (simp_all add: bin_convert_def Let_def)
  show "length (bin_convert s) = 8 * length s" if "\<And>c. c \<in> set s \<Longrightarrow> c < 256"
    using that
  proof (induction s)
    case (Cons c s)
    have "length (bin_str c) \<le> 8" using bin_str_bounds(2) [of c 8] Cons.prems by simp
    then show ?case using Cons by (simp add: bin_convert_def Let_def)
  qed (simp add: bin_convert_def)
qed

lemma length_anneal_words: "length (anneal_words noise i k n res) = 8 * k + length res"
  by (induction k arbitrary: i n res) (simp_all add: hex8_def)

lemma anneal_words_chars: "c \<in> set (anneal_words noise i k n res) \<Longrightarrow> c < 256 \<or> c \<in> set res"
proof (induction k arbitrary: i n res)
  case (Suc k)
  then show ?case using bytes_hex_ascii [of c] by (fastforce simp: hex8_def)
qed simp

lemma length_annealed_bits: "length (annealed_bits H P data new_pow) = 448"
proof -
  have "length (bin_convert (anneal3 noise n)) = 448" for noise n
  proof -
    have "length (anneal3 noise n) = 56" by (simp add: anneal3_def Let_def length_anneal_words)
    moreover have "c < 256" if "c \<in> set (anneal3 noise n)" for c
      using anneal_words_chars [of c noise _ 7 n "[]"] that by (auto simp: anneal3_def Let_def)
    ultimately show ?thesis using length_bin_convert(2) [of "anneal3 noise n"] by simp
  qed
  moreover have "length (bin_convert (anneal3_regnet n)) = 448" for n
  proof -
    have "c < 256" if "c \<in> set (anneal3_regnet n)" for c
      using bytes_hex_ascii [of c "be_bytes 28 n"] that by (auto simp: anneal3_regnet_def)
    then show ?thesis using length_bin_convert(2) [of "anneal3_regnet n"] by (simp add: anneal3_regnet_def)
  qed
  ultimately show ?thesis by (simp add: annealed_bits_def Let_def)
qed

section \<open>The count\<close>

text \<open>The number of leading bits of the condition that occur in the annealed hash.\<close>

definition work_bits :: "pystr \<Rightarrow> pystr \<Rightarrow> nat" where
  "work_bits cond annealed = Max {n. n \<le> length cond \<and> sublist (take n cond) annealed}"

lemma greatest_work: "(GREATEST n. n \<le> length cond \<and> sublist (take n cond) annealed) = work_bits cond annealed"
  unfolding work_bits_def by (rule Greatest_Max) (auto intro: exI [of _ 0])

lemma diffme_exact:
  assumes "utf8_encode (address @ nonce @ parent) = Some data"
  shows "diffme_heavy3 H P address nonce parent new_pow =
    (if sublist (bin_convert parent) (annealed_bits H P data new_pow) then None
     else Some (work_bits (bin_convert parent) (annealed_bits H P data new_pow)))"
  using diff_loop_exact [of 1 "bin_convert parent" "annealed_bits H P data new_pow"] assms
  by (simp add: diffme_heavy3_def greatest_work)

text \<open>
  C8: the proof-of-work count returns.  On a parent hash of more than 56 characters, as every hash since the
  second fork is, the loop over longer and longer prefixes ends for every miner address, nonce and noise file and its
  result is the largest number of leading bits of the parent hash that occur in the annealed hash, at most 448.
\<close>

theorem pow_count_returns:
  assumes "utf8_encode (address @ nonce @ parent) = Some data" and "56 < length parent"
  shows "\<exists>n. diffme_heavy3 H P address nonce parent new_pow = Some n \<and> n \<le> 448 \<and>
    sublist (take n (bin_convert parent)) (annealed_bits H P data new_pow) \<and>
    (\<forall>k. sublist (take k (bin_convert parent)) (annealed_bits H P data new_pow) \<longrightarrow> k \<le> n)"
proof -
  let ?c = "bin_convert parent" and ?a = "annealed_bits H P data new_pow"
  let ?S = "{n. n \<le> length ?c \<and> sublist (take n ?c) ?a}"
  have long: "448 < length ?c" using length_bin_convert(1) [of parent] assms(2) by linarith
  have short: "k \<le> 448" if "sublist (take k ?c) ?a" for k
  proof -
    have "length (take k ?c) \<le> 448" using sublist_length_le [OF that] by (simp add: length_annealed_bits)
    then show ?thesis using long by auto
  qed
  then have "\<not> sublist ?c ?a" using long by (metis linorder_not_less order_refl take_all)
  moreover have "work_bits ?c ?a \<in> ?S" unfolding work_bits_def by (rule Max_in) auto
  moreover have "k \<le> work_bits ?c ?a" if "sublist (take k ?c) ?a" for k
    unfolding work_bits_def using short [OF that] long that by (intro Max_ge) auto
  ultimately show ?thesis using diffme_exact [OF assms(1)] short by auto
qed

definition wit_work_hash :: hash_ext where
  "wit_work_hash = \<lparr>blake2b = (\<lambda>n _. replicate n 0), sha224 = (\<lambda>_. replicate 28 0), printable = (\<lambda>_. True)\<rparr>"

definition wit_pow :: pow_env where
  "wit_pow = \<lparr>pow_noise = (\<lambda>_. 0), pow_heavy = True, pow_regnet = False\<rparr>"

theorem pow_count_returns_witness:
  "\<exists>n. diffme_heavy3 wit_work_hash wit_pow (lit ''miner'') (lit ''nonce'') (replicate 64 102) True = Some n \<and> n \<le> 448"
proof -
  have "utf8_encode (lit ''miner'' @ lit ''nonce'' @ replicate 64 102) = Some (blit ''minernonce'' @ replicate 64 102)"
    by code_simp
  from pow_count_returns [OF this, of wit_work_hash wit_pow True] show ?thesis by auto
qed

section \<open>The check\<close>

lemma dec_int_ge:
  assumes "dec_int (Fin s c e) = Some i" and "of_nat k \<le> dv (Fin s c e)" and "0 < k"
  shows "int k \<le> i"
proof -
  have s: "\<not> s"
  proof
    assume s
    then have "dv (Fin s c e) \<le> 0" by (simp add: dsigned_def mult_le_0_iff less_imp_le)
    then show False using assms(2,3) by linarith
  qed
  show ?thesis
  proof (cases "0 \<le> e")
    case True
    then have "p10 e = of_nat (10 ^ nat e)" by (simp add: p10_def)
    then have "of_nat k \<le> (of_nat (c * 10 ^ nat e) :: rat)" using assms(2) s by (simp add: dsigned_def)
    then have "int k \<le> int (c * 10 ^ nat e)" by (simp only: of_nat_le_iff)
    then show ?thesis using assms(1) s True by (auto simp: dsigned_def)
  next
    case False
    then have p: "p10 e * 10 ^ nat (- e) = 1" by (simp add: p10_def)
    have "of_nat k * 10 ^ nat (- e) \<le> of_nat c * p10 e * 10 ^ nat (- e)"
      using assms(2) s by (intro mult_right_mono) (simp_all add: dsigned_def)
    then have "of_nat (k * 10 ^ nat (- e)) \<le> (of_nat c :: rat)" using p by (simp add: mult.assoc)
    then have "k * 10 ^ nat (- e) \<le> c" by (simp only: of_nat_le_iff)
    then have "k \<le> c div 10 ^ nat (- e)" by (simp add: less_eq_div_iff_mult_less_eq)
    then show ?thesis using assms(1) s False by (auto simp: dsigned_def)
  qed
qed

lemma dropped_floor:
  assumes "dropped_difficulty diff q l em = Some d" and "dec_int d = Some i"
  shows "50 \<le> i"
proof -
  obtain x low where x: "dless x (Fin False 50 0) = Some low" "d = (if low then Fin False 50 0 else x)"
    using assms(1) unfolding dropped_difficulty_def by (auto elim!: bind_SomeE split: if_splits)
  show ?thesis
  proof (cases low)
    case True
    then show ?thesis using x assms(2) by (auto simp: dsigned_def)
  next
    case False
    then obtain s c e where d: "d = Fin s c e" "dless d (Fin False 50 0) = Some False"
      using x assms(2) by (cases d) auto
    then have "of_nat 50 \<le> dv d" by (simp add: dless_dv dsigned_def p10_def del: dless.simps)
    then show ?thesis using dec_int_ge [of s c e i 50] d(1) assms(2) by simp
  qed
qed

text \<open>
  C7: a block whose proof of work is accepted did the work: outside regnet the difficulty recorded for it is the
  required one, and its count reaches that difficulty, or the block was found more than three minutes after its
  parent and its count is at least 50.
\<close>

theorem pow_accepted:
  assumes "check_block H P miner nonce parent diff ts q q_last new_pow = Inr saved" and "\<not> pow_regnet P"
  shows "saved = diff \<and> (\<exists>n d. diffme_heavy3 H P miner nonce parent new_pow = Some n \<and> tval_int diff = Some d \<and>
    (d \<le> int n \<or> 50 \<le> n \<and> (\<exists>t l. dec_parse ts = Some t \<and> dadd q_last (Fin False 180 0) = Some l \<and> dless l t = Some True)))"
proof -
  obtain n d where nd: "diffme_heavy3 H P miner nonce parent new_pow = Some n" "tval_int diff = Some d"
    using assms unfolding check_block_def by (auto simp: Let_def split: if_splits option.splits)
  show ?thesis
  proof (cases "d \<le> int n")
    case True
    then show ?thesis using assms nd by (auto simp: check_block_def Let_def split: if_splits)
  next
    case False
    obtain b i where b: "lateness ts q_last = Some (True, b)" and "saved = diff"
        and i: "Option.bind (dropped_difficulty diff q q_last b) dec_int = Some i" "i \<le> int n"
      using assms nd False unfolding check_block_def
      by (auto simp: Let_def split: if_splits option.splits)
    obtain t l where t: "dec_parse ts = Some t" "dadd q_last (Fin False 180 0) = Some l" "dless l t = Some True"
      using b unfolding lateness_def by (auto elim!: bind_SomeE)
    have "\<exists>dd. dropped_difficulty diff q q_last b = Some dd \<and> dec_int dd = Some i" using i(1) by (auto elim!: bind_SomeE)
    then have "50 \<le> i" using dropped_floor by blast
    then have "50 \<le> n" using i(2) by linarith
    then show ?thesis using nd t \<open>saved = diff\<close> by blast
  qed
qed

theorem pow_accepted_witness:
  "\<exists>n d. diffme_heavy3 wit_work_hash wit_pow (lit ''miner'') (lit ''nonce'') (replicate 56 127) False = Some n \<and>
     tval_int (TInt 2) = Some d \<and> d \<le> int n"
proof -
  have c: "check_block wit_work_hash wit_pow (lit ''miner'') (lit ''nonce'') (replicate 56 127) (TInt 2) (lit ''10.00'')
     (Fin False 1000 (- 2)) (Fin False 900 (- 2)) False = Inr (TInt 2)"
    by code_simp
  have "diffme_heavy3 wit_work_hash wit_pow (lit ''miner'') (lit ''nonce'') (replicate 56 127) False = Some 3" by code_simp
  then show ?thesis using pow_accepted [OF c] by (simp add: wit_pow_def)
qed

end
