(* ===== verification/Spec2Isabelle.thy ===== *)
theory Spec2Isabelle
  imports KVStore SyncCodec TxRec Serialize Fork ForkResolution PeersLoop TokenSupply LedgerTheorems BlockRefine Work
begin

text \<open>
  A verification library for the Bismuth node.
\<close>

end
